(* ===== verification/Prelude.thy ===== *)
theory Prelude
  imports Main "HOL-Library.Word" "HOL-Library.List_Lexorder" "HOL-Library.Char_ord"
    "HOL-Library.Multiset" "HOL-Library.Sublist"
begin

text \<open>
  Shared vocabulary of the development: Rust's \<^verbatim>\<open>Result\<close> as a sum (\<open>Ok\<close> and \<open>Err\<close>), the
  \<^verbatim>\<open>?\<close> operator as \<open>and_then\<close>, \<^verbatim>\<open>map_err\<close>, \<^verbatim>\<open>transpose\<close> and \<^verbatim>\<open>collect\<close>; the machine
  integers and their checked conversions; the string operations the sources use
  (a Rust \<^verbatim>\<open>str\<close> is its UTF-8 bytes, one \<open>char\<close> per byte, so \<open>length\<close> is \<^verbatim>\<open>str::len\<close> and the
  lexicographic order on \<open>string\<close> is \<^verbatim>\<open>Ord for str\<close>, which compares bytes); decimal printing and
  parsing; and the lemmas on sorted and permuted lists that the components share.
\<close>

unbundle bit_operations_syntax

named_theorems result_simps \<open>characterisations of a result being Ok\<close>
named_theorems conv_simps \<open>unfolding of the checked integer conversions\<close>

section \<open>Results\<close>

type_synonym ('a, 'e) result = "'e + 'a"

abbreviation Ok :: "'a \<Rightarrow> ('a, 'e) result" where "Ok \<equiv> Inr"
abbreviation Err :: "'e \<Rightarrow> ('a, 'e) result" where "Err \<equiv> Inl"

definition and_then :: "('a, 'e) result \<Rightarrow> ('a \<Rightarrow> ('b, 'e) result) \<Rightarrow> ('b, 'e) result" where
  "and_then m f = (case m of Inl e \<Rightarrow> Err e | Inr x \<Rightarrow> f x)"

definition map_err :: "('e \<Rightarrow> 'f) \<Rightarrow> ('a, 'e) result \<Rightarrow> ('a, 'f) result" where
  "map_err g m = (case m of Inl e \<Rightarrow> Err (g e) | Inr x \<Rightarrow> Ok x)"

definition map_ok :: "('a \<Rightarrow> 'b) \<Rightarrow> ('a, 'e) result \<Rightarrow> ('b, 'e) result" where
  "map_ok g m = (case m of Inl e \<Rightarrow> Err e | Inr x \<Rightarrow> Ok (g x))"

definition ok_or :: "'a option \<Rightarrow> 'e \<Rightarrow> ('a, 'e) result" where
  "ok_or m e = (case m of None \<Rightarrow> Err e | Some x \<Rightarrow> Ok x)"

definition transpose_opt :: "('a, 'e) result option \<Rightarrow> ('a option, 'e) result" where
  "transpose_opt m = (case m of None \<Rightarrow> Ok None | Some r \<Rightarrow> map_ok Some r)"

definition is_ok :: "('a, 'e) result \<Rightarrow> bool" where
  "is_ok m = (case m of Inl _ \<Rightarrow> False | Inr _ \<Rightarrow> True)"

text \<open>\<^verbatim>\<open>iter().map(f).collect::<Result<Vec<_>, _>>()\<close>: the first error ends the traversal.\<close>

fun collect :: "('a \<Rightarrow> ('b, 'e) result) \<Rightarrow> 'a list \<Rightarrow> ('b list, 'e) result" where
  "collect f [] = Ok []"
| "collect f (x # xs) = and_then (f x) (\<lambda>y. and_then (collect f xs) (\<lambda>ys. Ok (y # ys)))"

text \<open>
  The same traversal with a mutable accumulator captured by the closure, as in
  \<^verbatim>\<open>.map(|entry| f(entry, &mut warnings)).collect()\<close>.
\<close>

fun collect_acc ::
  "('a \<Rightarrow> 's \<Rightarrow> ('b \<times> 's, 'e) result) \<Rightarrow> 'a list \<Rightarrow> 's \<Rightarrow> ('b list \<times> 's, 'e) result" where
  "collect_acc f [] s = Ok ([], s)"
| "collect_acc f (x # xs) s = and_then (f x s) (\<lambda>(y, s').
     and_then (collect_acc f xs s') (\<lambda>(ys, s''). Ok (y # ys, s'')))"

text \<open>A \<^verbatim>\<open>for\<close> loop whose body can return early with an error.\<close>

fun for_each :: "('a \<Rightarrow> (unit, 'e) result) \<Rightarrow> 'a list \<Rightarrow> (unit, 'e) result" where
  "for_each f [] = Ok ()"
| "for_each f (x # xs) = and_then (f x) (\<lambda>_. for_each f xs)"

lemma and_then_Ok [simp]: "and_then (Ok x) f = f x"
  by (simp add: and_then_def)

lemma and_then_Err [simp]: "and_then (Err e) f = Err e"
  by (simp add: and_then_def)

lemma map_err_Ok [simp]: "map_err g (Ok x) = Ok x"
  by (simp add: map_err_def)

lemma map_err_Err [simp]: "map_err g (Err e) = Err (g e)"
  by (simp add: map_err_def)

lemma map_ok_Ok [simp]: "map_ok g (Ok x) = Ok (g x)"
  by (simp add: map_ok_def)

lemma map_ok_Err [simp]: "map_ok g (Err e) = Err e"
  by (simp add: map_ok_def)

lemma ok_or_simps [simp]: "ok_or None e = Err e" "ok_or (Some x) e = Ok x"
  by (simp_all add: ok_or_def)

lemma transpose_opt_simps [simp]:
  "transpose_opt None = Ok None" "transpose_opt (Some (Ok x)) = Ok (Some x)"
  "transpose_opt (Some (Err e)) = Err e"
  by (simp_all add: transpose_opt_def)

lemma is_ok_simps [simp]: "is_ok (Ok x)" "\<not> is_ok (Err e)"
  by (simp_all add: is_ok_def)

lemma is_ok_iff: "is_ok m \<longleftrightarrow> (\<exists>x. m = Ok x)"
  by (cases m) simp_all

lemma not_is_ok_iff: "\<not> is_ok m \<longleftrightarrow> (\<exists>e. m = Err e)"
  by (cases m) simp_all

lemma and_then_eq_Ok [result_simps]: "and_then m f = Ok y \<longleftrightarrow> (\<exists>x. m = Ok x \<and> f x = Ok y)"
  by (cases m) simp_all

lemma and_then_eq_Err:
  "and_then m f = Err e \<longleftrightarrow> m = Err e \<or> (\<exists>x. m = Ok x \<and> f x = Err e)"
  by (cases m) simp_all

lemma map_err_eq_Ok [result_simps]: "map_err g m = Ok y \<longleftrightarrow> m = Ok y"
  by (cases m) simp_all

lemma map_ok_eq_Ok [result_simps]: "map_ok g m = Ok y \<longleftrightarrow> (\<exists>x. m = Ok x \<and> y = g x)"
  by (cases m) auto

lemma ok_or_eq_Ok [result_simps]: "ok_or m e = Ok y \<longleftrightarrow> m = Some y"
  by (cases m) simp_all

lemma is_ok_map_err [simp]: "is_ok (map_err g m) = is_ok m"
  by (cases m) simp_all

lemma is_ok_and_then [simp]:
  "is_ok (and_then m f) \<longleftrightarrow> (\<exists>x. m = Ok x \<and> is_ok (f x))"
  by (cases m) simp_all

lemma map_err_map_err [simp]: "map_err f (map_err g m) = map_err (f \<circ> g) m"
  by (cases m) simp_all

lemma transpose_opt_map_eq_Ok [result_simps]:
  "transpose_opt (map_option f x) = Ok y \<longleftrightarrow>
     (x = None \<and> y = None) \<or> (\<exists>a b. x = Some a \<and> f a = Ok b \<and> y = Some b)"
  by (cases x; cases "f (the x)") auto

lemma if_Err_eq_Ok [result_simps]:
  "(if b then Err e else m) = Ok y \<longleftrightarrow> \<not> b \<and> m = Ok y"
  "(if b then m else Err e) = Ok y \<longleftrightarrow> b \<and> m = Ok y"
  by simp_all

lemma collect_eq_Ok [result_simps]:
  "collect f xs = Ok ys \<longleftrightarrow> list_all2 (\<lambda>x y. f x = Ok y) xs ys"
proof (induction xs arbitrary: ys)
  case (Cons x xs)
  then show ?case by (auto simp: and_then_eq_Ok list_all2_Cons1)
qed auto

lemma collect_Err_cases:
  "collect f xs = Err e \<Longrightarrow> \<exists>x \<in> set xs. f x = Err e"
proof (induction xs)
  case (Cons x xs)
  then show ?case by (auto simp: and_then_eq_Err)
qed simp

lemma collect_Ok_mem:
  assumes "collect f xs = Ok ys"
  shows "x \<in> set xs \<Longrightarrow> \<exists>y \<in> set ys. f x = Ok y" "y \<in> set ys \<Longrightarrow> \<exists>x \<in> set xs. f x = Ok y"
proof -
  have "x \<in> set xs \<longrightarrow> (\<exists>y \<in> set ys. f x = Ok y)" "y \<in> set ys \<longrightarrow> (\<exists>x \<in> set xs. f x = Ok y)"
    using assms unfolding collect_eq_Ok by (induction rule: list_all2_induct) auto
  then show "x \<in> set xs \<Longrightarrow> \<exists>y \<in> set ys. f x = Ok y" "y \<in> set ys \<Longrightarrow> \<exists>x \<in> set xs. f x = Ok y" by blast+
qed

lemma collect_total: "\<forall>x \<in> set xs. f x = Ok (g x) \<Longrightarrow> collect f xs = Ok (map g xs)"
  by (induction xs) auto

lemma for_each_eq_Ok [result_simps]: "for_each f xs = Ok u \<longleftrightarrow> (\<forall>x \<in> set xs. f x = Ok ())"
  by (induction xs) (auto simp: and_then_eq_Ok)

lemma for_each_total: "\<forall>x \<in> set xs. f x = Ok () \<Longrightarrow> for_each f xs = Ok ()"
  by (simp add: for_each_eq_Ok)

section \<open>Machine integers\<close>

text \<open>
  Unsigned Rust integers are words; \<^verbatim>\<open>i64\<close> and \<^verbatim>\<open>i32\<close> are \<open>int\<close> with the range written out.
  \<^verbatim>\<open>usize\<close> is 64 bits wide, as on every target the daemon supports; counters that a slice
  length bounds are \<open>nat\<close>.
\<close>

type_synonym u8 = "8 word"
type_synonym u16 = "16 word"
type_synonym u32 = "32 word"
type_synonym u64 = "64 word"
type_synonym usize = "64 word"
type_synonym bytes = "u8 list"

abbreviation i64_max :: int where "i64_max \<equiv> 9223372036854775807"
abbreviation i64_min :: int where "i64_min \<equiv> - 9223372036854775808"
abbreviation i32_max :: int where "i32_max \<equiv> 2147483647"
abbreviation i32_min :: int where "i32_min \<equiv> - 2147483648"

definition is_i64 :: "int \<Rightarrow> bool" where
  "is_i64 x \<longleftrightarrow> i64_min \<le> x \<and> x \<le> i64_max"

definition is_i32 :: "int \<Rightarrow> bool" where
  "is_i32 x \<longleftrightarrow> i32_min \<le> x \<and> x \<le> i32_max"

text \<open>\<^verbatim>\<open>x as i64\<close> for an unsigned \<open>x\<close>: the two's complement reading of the low 64 bits.\<close>

definition as_i64 :: "nat \<Rightarrow> int" where
  "as_i64 n = (int n + 2 ^ 63) mod 2 ^ 64 - 2 ^ 63"

definition u64_try_from_i64 :: "int \<Rightarrow> u64 option" where
  "u64_try_from_i64 x = (if x < 0 then None else Some (word_of_int x))"

definition i64_try_from_u64 :: "u64 \<Rightarrow> int option" where
  "i64_try_from_u64 w = (if uint w \<le> i64_max then Some (uint w) else None)"

definition u32_try_from_i64 :: "int \<Rightarrow> u32 option" where
  "u32_try_from_i64 x = (if x < 0 \<or> x \<ge> 2 ^ 32 then None else Some (word_of_int x))"

definition u32_try_from_i32 :: "int \<Rightarrow> u32 option" where
  "u32_try_from_i32 x = (if x < 0 then None else Some (word_of_int x))"

definition u16_try_from_u32 :: "u32 \<Rightarrow> u16 option" where
  "u16_try_from_u32 w = (if unat w < 2 ^ 16 then Some (ucast w) else None)"

text \<open>\<^verbatim>\<open>u64::try_from(slice.len())\<close>.\<close>

definition u64_try_from_len :: "nat \<Rightarrow> u64 option" where
  "u64_try_from_len n = (if n < 2 ^ 64 then Some (of_nat n) else None)"

abbreviation u64_max :: u64 where "u64_max \<equiv> 18446744073709551615"

definition saturating_add_u64 :: "u64 \<Rightarrow> u64 \<Rightarrow> u64" where
  "saturating_add_u64 a b = (if unat a + unat b < 2 ^ 64 then a + b else 18446744073709551615)"

definition saturating_sub_u64 :: "u64 \<Rightarrow> u64 \<Rightarrow> u64" where
  "saturating_sub_u64 a b = (if a < b then 0 else a - b)"

definition checked_add_u64 :: "u64 \<Rightarrow> u64 \<Rightarrow> u64 option" where
  "checked_add_u64 a b = (if unat a + unat b < 2 ^ 64 then Some (a + b) else None)"

declare u64_try_from_i64_def [conv_simps] i64_try_from_u64_def [conv_simps]
  u32_try_from_i64_def [conv_simps] u32_try_from_i32_def [conv_simps]
  u16_try_from_u32_def [conv_simps]

lemma as_i64_small: "n < 2 ^ 63 \<Longrightarrow> as_i64 n = int n"
  by (simp add: as_i64_def)

lemma is_i64_as_i64: "is_i64 (as_i64 n)"
proof -
  have "0 \<le> (int n + 2 ^ 63) mod 2 ^ 64" and "(int n + 2 ^ 63) mod 2 ^ 64 < (2 ^ 64 :: int)"
    by (rule pos_mod_sign, simp, rule pos_mod_bound, simp)
  then show ?thesis by (simp add: as_i64_def is_i64_def)
qed

lemma uint_word_of_int_u32: "0 \<le> x \<Longrightarrow> x < 2 ^ 32 \<Longrightarrow> uint (word_of_int x :: u32) = x"
  by (simp add: uint_word_of_int)

lemma uint_word_of_int_u64: "0 \<le> x \<Longrightarrow> x < 2 ^ 64 \<Longrightarrow> uint (word_of_int x :: u64) = x"
  by (simp add: uint_word_of_int)

lemma u32_roundtrip: "u32_try_from_i64 (uint w) = Some w"
  using uint_lt2p [of w] by (simp add: conv_simps)

lemma u64_i64_roundtrip:
  "0 \<le> x \<Longrightarrow> is_i64 x \<Longrightarrow> \<exists>w. u64_try_from_i64 x = Some w \<and> i64_try_from_u64 w = Some x"
  by (simp add: conv_simps is_i64_def uint_word_of_int_u64)

lemma checked_add_u64_Some: "checked_add_u64 a b = Some c \<Longrightarrow> unat c = unat a + unat b"
  by (auto simp: checked_add_u64_def unat_word_ariths split: if_splits)

lemma unat_saturating_add: "unat (saturating_add_u64 a b) = min (unat a + unat b) (2 ^ 64 - 1)"
  by (auto simp: saturating_add_u64_def unat_word_ariths)

lemma unat_saturating_sub: "unat (saturating_sub_u64 a b) = unat a - unat b"
  by (auto simp: saturating_sub_u64_def unat_sub word_le_nat_alt word_less_nat_alt not_less)

section \<open>Strings\<close>

definition strip_prefix :: "string \<Rightarrow> string \<Rightarrow> string option" where
  "strip_prefix p s = (if take (length p) s = p then Some (drop (length p) s) else None)"

fun split_once :: "char \<Rightarrow> string \<Rightarrow> (string \<times> string) option" where
  "split_once c [] = None"
| "split_once c (x # xs) =
     (if x = c then Some ([], xs)
      else map_option (\<lambda>(a, b). (x # a, b)) (split_once c xs))"

text \<open>\<^verbatim>\<open>str::split\<close>: the pieces between separators, never an empty list.\<close>

fun split_on :: "char \<Rightarrow> string \<Rightarrow> string list" where
  "split_on c [] = [[]]"
| "split_on c (x # xs) =
     (if x = c then [] # split_on c xs
      else (case split_on c xs of [] \<Rightarrow> [[x]] | p # ps \<Rightarrow> (x # p) # ps))"

definition contains_char :: "char \<Rightarrow> string \<Rightarrow> bool" where
  "contains_char c s = (c \<in> set s)"

definition is_ascii_digit :: "char \<Rightarrow> bool" where
  "is_ascii_digit c \<longleftrightarrow> CHR ''0'' \<le> c \<and> c \<le> CHR ''9''"

definition is_ascii_lowercase :: "char \<Rightarrow> bool" where
  "is_ascii_lowercase c \<longleftrightarrow> CHR ''a'' \<le> c \<and> c \<le> CHR ''z''"

definition is_ascii_uppercase :: "char \<Rightarrow> bool" where
  "is_ascii_uppercase c \<longleftrightarrow> CHR ''A'' \<le> c \<and> c \<le> CHR ''Z''"

definition is_ascii_alphabetic :: "char \<Rightarrow> bool" where
  "is_ascii_alphabetic c \<longleftrightarrow> is_ascii_lowercase c \<or> is_ascii_uppercase c"

definition is_ascii_hexdigit :: "char \<Rightarrow> bool" where
  "is_ascii_hexdigit c \<longleftrightarrow> is_ascii_digit c \<or> (CHR ''a'' \<le> c \<and> c \<le> CHR ''f'') \<or>
     (CHR ''A'' \<le> c \<and> c \<le> CHR ''F'')"

lemma strip_prefix_append [simp]: "strip_prefix p (p @ s) = Some s"
  by (simp add: strip_prefix_def)

lemma strip_prefix_SomeD: "strip_prefix p s = Some r \<Longrightarrow> s = p @ r"
  by (metis append_take_drop_id option.distinct(1) option.inject strip_prefix_def)

lemma split_once_append: "c \<notin> set a \<Longrightarrow> split_once c (a @ c # b) = Some (a, b)"
  by (induction a) auto

lemma split_once_SomeD: "split_once c s = Some (a, b) \<Longrightarrow> s = a @ c # b \<and> c \<notin> set a"
  by (induction c s arbitrary: a b rule: split_once.induct) (auto split: if_splits)

lemma split_on_not_Nil [simp]: "split_on c s \<noteq> []"
  by (induction c s rule: split_on.induct) (auto split: list.splits)

lemma split_on_pieces: "p \<in> set (split_on c s) \<Longrightarrow> c \<notin> set p"
  by (induction c s arbitrary: p rule: split_on.induct) (auto split: list.splits if_splits)

lemma split_on_no_sep: "c \<notin> set s \<Longrightarrow> split_on c s = [s]"
  by (induction s) auto

lemma split_on_append: "split_on c (a @ c # b) = split_on c a @ split_on c b"
  by (induction c a rule: split_on.induct) (auto split: list.splits)

section \<open>Decimal numbers\<close>

definition digit_char :: "nat \<Rightarrow> char" where
  "digit_char n = ''0123456789'' ! n"

fun show_nat :: "nat \<Rightarrow> string" where
  "show_nat n = (if n < 10 then [digit_char n] else show_nat (n div 10) @ [digit_char (n mod 10)])"

declare show_nat.simps [simp del]

definition show_int :: "int \<Rightarrow> string" where
  "show_int i = (if i < 0 then ''-'' @ show_nat (nat (- i)) else show_nat (nat i))"

definition digit_val :: "char \<Rightarrow> nat" where
  "digit_val c = of_char c - 48"

definition digits_val :: "string \<Rightarrow> nat" where
  "digits_val s = foldl (\<lambda>acc c. 10 * acc + digit_val c) 0 s"

lemma less_10_cases:
  "n < 10 \<Longrightarrow> n \<in> {0, 1, 2, 3, 4, 5, 6, 7, 8, 9 :: nat}"
  by auto

lemma digit_char_digit: "n < 10 \<Longrightarrow> is_ascii_digit (digit_char n)"
  using less_10_cases [of n] by (auto simp: digit_char_def is_ascii_digit_def)

lemma digit_val_digit_char: "n < 10 \<Longrightarrow> digit_val (digit_char n) = n"
  using less_10_cases [of n] by (auto simp: digit_char_def digit_val_def)

lemma show_nat_digits: "c \<in> set (show_nat n) \<Longrightarrow> is_ascii_digit c"
proof (induction n rule: show_nat.induct)
  case (1 n)
  then show ?case
    by (cases "n < 10") (auto simp: show_nat.simps [of n] digit_char_digit)
qed

lemma show_nat_not_Nil [simp]: "show_nat n \<noteq> []"
  by (simp add: show_nat.simps [of n])

lemma digits_val_snoc: "digits_val (s @ [c]) = 10 * digits_val s + digit_val c"
  by (simp add: digits_val_def)

lemma digits_val_show_nat [simp]: "digits_val (show_nat n) = n"
proof (induction n rule: show_nat.induct)
  case (1 n)
  show ?case
  proof (cases "n < 10")
    case True
    then show ?thesis
      by (simp add: show_nat.simps [of n] digits_val_def digit_val_digit_char)
  next
    case False
    with "1.IH" show ?thesis
      by (simp add: show_nat.simps [of n] digits_val_snoc digit_val_digit_char)
  qed
qed

lemma show_nat_inj: "show_nat m = show_nat n \<Longrightarrow> m = n"
  by (metis digits_val_show_nat)

lemma show_int_nonneg: "0 \<le> i \<Longrightarrow> show_int i = show_nat (nat i)"
  by (simp add: show_int_def)

section \<open>Sorted lists\<close>

lemma find_map: "find P (map f xs) = map_option f (find (P \<circ> f) xs)"
  by (induction xs) simp_all

lemma find_SomeD: "find P xs = Some x \<Longrightarrow> x \<in> set xs \<and> P x"
  by (auto simp: find_Some_iff)

lemma insort_key_map: "insort_key k (f x) (map f ys) = map f (insort_key (k \<circ> f) x ys)"
  by (induction ys) simp_all

lemma sort_key_map: "sort_key k (map f xs) = map f (sort_key (k \<circ> f) xs)"
  by (induction xs) (simp_all add: insort_key_map comp_def)

lemma sort_key_strict:
  fixes f :: "'a \<Rightarrow> 'k :: linorder"
  assumes "distinct (map f xs)"
  shows "sorted_wrt (<) (map f (sort_key f xs))"
proof -
  have "mset (map f (sort_key f xs)) = mset (map f xs)" by simp
  with assms have "distinct (map f (sort_key f xs))" by (metis mset_eq_imp_distinct_iff)
  then show ?thesis by (simp add: strict_sorted_iff)
qed

lemma sort_key_perm:
  fixes f :: "'a \<Rightarrow> 'k :: linorder"
  assumes "mset xs = mset ys" and "distinct (map f xs)"
  shows "sort_key f xs = sort_key f ys"
proof (rule map_sorted_distinct_set_unique [of f])
  have "mset (map f ys) = mset (map f xs)" using assms(1) by (metis mset_map)
  with assms(2) have "distinct (map f ys)" by (metis mset_eq_imp_distinct_iff)
  with assms(2) show "distinct (map f (sort_key f xs))" "distinct (map f (sort_key f ys))"
    by (metis mset_eq_imp_distinct_iff mset_map mset_sort)+
  show "set (sort_key f xs) = set (sort_key f ys)"
    using assms(1) by (metis mset_eq_setD set_sort)
  then show "inj_on f (set (sort_key f xs) \<union> set (sort_key f ys))"
    using assms(2) by (simp add: distinct_map)
qed simp_all

lemma distinct_map_perm: "mset xs = mset ys \<Longrightarrow> distinct (map f xs) = distinct (map f ys)"
  by (metis mset_eq_imp_distinct_iff mset_map)

section \<open>Text codecs\<close>

text \<open>
  The contract between a value that is stored or sent as text and the code that reads it back:
  printing a valid value and parsing the text gives the value. Digests, node kinds and session
  lifecycles are stored this way.
\<close>

locale text_codec =
  fixes print :: "'a \<Rightarrow> string"
    and parse :: "string \<Rightarrow> ('a, 'e) result"
    and valid :: "'a \<Rightarrow> bool"
  assumes parse_print: "valid x \<Longrightarrow> parse (print x) = Ok x"
begin

lemma print_inj: "valid x \<Longrightarrow> valid y \<Longrightarrow> print x = print y \<Longrightarrow> x = y"
  by (metis parse_print sum.inject(2))

lemma parse_print_opt:
  "pred_option valid m \<Longrightarrow>
     transpose_opt (map_option (\<lambda>s. map_err g (parse s)) (map_option print m)) = Ok m"
  by (cases m) (simp_all add: parse_print)

end

end
