(* ===== verification/Digest.thy ===== *)
theory Digest
  imports Prelude
begin

text \<open>
  Content digests (\<^verbatim>\<open>crates/rfs-common/src/digest.rs\<close>): construction, hashing, verification, the REAPI
  conversions, and the textual form \<^verbatim>\<open>sha256:<64 lowercase hex>/<decimal size>\<close> with its parser.
  SHA-256 followed by hex encoding is code of the \<^verbatim>\<open>sha2\<close> and \<^verbatim>\<open>hex\<close> crates: the parameter \<open>sha\<close>,
  about which \<open>sha256_hex_ok\<close> states what those crates document.
\<close>

section \<open>Data\<close>

record digest =
  hash :: string
  size_bytes :: int

text \<open>The generated REAPI message \<^verbatim>\<open>build.bazel.remote.execution.v2.Digest\<close>.\<close>

record re_digest =
  re_hash :: string
  re_size_bytes :: int

datatype digest_error =
    InvalidFormat
  | UnsupportedHash
  | InvalidHash
  | InvalidSize string
  | SizeMismatch int int
  | HashMismatch string string

section \<open>Operations\<close>

definition bad_hash_char :: "char \<Rightarrow> bool" where
  "bad_hash_char c \<longleftrightarrow> \<not> is_ascii_hexdigit c \<or> (is_ascii_alphabetic c \<and> \<not> is_ascii_lowercase c)"

definition digest_new :: "string \<Rightarrow> int \<Rightarrow> (digest, digest_error) result" where
  "digest_new h n =
     (if length h \<noteq> 64 then Err InvalidHash
      else if list_ex bad_hash_char h then Err InvalidHash
      else if n < 0 then Err (InvalidSize (show_int n))
      else Ok \<lparr>hash = h, size_bytes = n\<rparr>)"

definition for_bytes :: "(bytes \<Rightarrow> string) \<Rightarrow> bytes \<Rightarrow> digest" where
  "for_bytes sha bs = \<lparr>hash = sha bs, size_bytes = as_i64 (length bs)\<rparr>"

definition EMPTY_DIGEST :: "(bytes \<Rightarrow> string) \<Rightarrow> digest" where
  "EMPTY_DIGEST sha = for_bytes sha []"

definition verify_bytes :: "(bytes \<Rightarrow> string) \<Rightarrow> digest \<Rightarrow> bytes \<Rightarrow> (unit, digest_error) result" where
  "verify_bytes sha d bs =
     (let actual = for_bytes sha bs in
      if size_bytes actual \<noteq> size_bytes d then Err (SizeMismatch (size_bytes d) (size_bytes actual))
      else if hash actual \<noteq> hash d then Err (HashMismatch (hash d) (hash actual))
      else Ok ())"

definition to_reapi :: "digest \<Rightarrow> re_digest" where
  "to_reapi d = \<lparr>re_hash = hash d, re_size_bytes = size_bytes d\<rparr>"

definition from_reapi :: "re_digest \<Rightarrow> (digest, digest_error) result" where
  "from_reapi d = digest_new (re_hash d) (re_size_bytes d)"

text \<open>
  \<^verbatim>\<open>str::parse::<i64>\<close> of a non-empty string of decimal digits: the value, unless it overflows.
\<close>

definition parse_i64_digits :: "string \<Rightarrow> int option" where
  "parse_i64_digits s = (if int (digits_val s) \<le> i64_max then Some (int (digits_val s)) else None)"

definition digest_from_str :: "string \<Rightarrow> (digest, digest_error) result" where
  "digest_from_str s =
     (case strip_prefix ''sha256:'' s of
        None \<Rightarrow> Err UnsupportedHash
      | Some stripped \<Rightarrow>
          (case split_once CHR ''/'' stripped of
             None \<Rightarrow> Err InvalidFormat
           | Some (hash_part, size_part) \<Rightarrow>
               if length hash_part \<noteq> 64 then Err InvalidHash
               else if list_ex bad_hash_char hash_part then Err InvalidHash
               else if size_part = [] then Err InvalidFormat
               else if \<not> list_all is_ascii_digit size_part then Err (InvalidSize size_part)
               else and_then (ok_or (parse_i64_digits size_part) (InvalidSize size_part)) (\<lambda>n.
                 if n < 0 then Err (InvalidSize size_part)
                 else Ok \<lparr>hash = hash_part, size_bytes = n\<rparr>)))"

definition digest_to_string :: "digest \<Rightarrow> string" where
  "digest_to_string d = ''sha256:'' @ hash d @ ''/'' @ show_int (size_bytes d)"

section \<open>The digest invariant\<close>

text \<open>
  The fields of \<^verbatim>\<open>Digest\<close> are private, so every digest comes from \<^verbatim>\<open>new\<close>, \<^verbatim>\<open>for_bytes\<close> or \<^verbatim>\<open>from_str\<close>.
\<close>

definition valid_hash :: "string \<Rightarrow> bool" where
  "valid_hash h \<longleftrightarrow> length h = 64 \<and> \<not> list_ex bad_hash_char h"

definition valid_digest :: "digest \<Rightarrow> bool" where
  "valid_digest d \<longleftrightarrow> valid_hash (hash d) \<and> 0 \<le> size_bytes d \<and> size_bytes d \<le> i64_max"

definition sha256_hex_ok :: "(bytes \<Rightarrow> string) \<Rightarrow> bool" where
  "sha256_hex_ok sha \<longleftrightarrow> (\<forall>bs. valid_hash (sha bs))"

lemma bad_hash_char_slash [simp]: "bad_hash_char CHR ''/''"
  by (simp add: bad_hash_char_def is_ascii_hexdigit_def is_ascii_digit_def)

lemma valid_hash_no_slash: "valid_hash h \<Longrightarrow> CHR ''/'' \<notin> set h"
  by (auto simp: valid_hash_def list_ex_iff)

lemma digest_new_eq_Ok:
  "is_i64 n \<Longrightarrow> digest_new h n = Ok d \<longleftrightarrow> d = \<lparr>hash = h, size_bytes = n\<rparr> \<and> valid_digest d"
  by (auto simp: digest_new_def valid_digest_def valid_hash_def is_i64_def split: if_splits)

lemma digest_new_valid: "valid_digest d \<Longrightarrow> digest_new (hash d) (size_bytes d) = Ok d"
  by (simp add: digest_new_def valid_digest_def valid_hash_def)

lemma from_to_reapi [simp]: "valid_digest d \<Longrightarrow> from_reapi (to_reapi d) = Ok d"
  by (simp add: from_reapi_def to_reapi_def digest_new_valid)

lemma from_reapi_OkD: "from_reapi r = Ok d \<Longrightarrow> to_reapi d = r"
  by (auto simp: from_reapi_def to_reapi_def digest_new_def split: if_splits)

lemma from_reapi_valid:
  "from_reapi r = Ok d \<Longrightarrow> is_i64 (re_size_bytes r) \<Longrightarrow> valid_digest d"
  using digest_new_eq_Ok by (auto simp: from_reapi_def)

lemma for_bytes_valid:
  "sha256_hex_ok sha \<Longrightarrow> length bs < 2 ^ 63 \<Longrightarrow> valid_digest (for_bytes sha bs)"
  by (simp add: sha256_hex_ok_def valid_digest_def for_bytes_def as_i64_small)

lemma verify_bytes_eq_Ok: "verify_bytes sha d bs = Ok u \<longleftrightarrow> for_bytes sha bs = d"
  by (auto simp: verify_bytes_def Let_def intro: digest.equality)

section \<open>Printing and parsing\<close>

lemma parse_i64_show: "0 \<le> n \<Longrightarrow> n \<le> i64_max \<Longrightarrow> parse_i64_digits (show_int n) = Some n"
  by (simp add: parse_i64_digits_def show_int_nonneg)

lemma show_int_all_digits: "0 \<le> n \<Longrightarrow> list_all is_ascii_digit (show_int n)"
  using show_nat_digits by (auto simp: show_int_nonneg list_all_iff)

lemma digest_from_str_iff:
  "digest_from_str s = Ok d \<longleftrightarrow>
     valid_digest d \<and>
     (\<exists>ds. s = ''sha256:'' @ hash d @ ''/'' @ ds \<and> ds \<noteq> [] \<and> list_all is_ascii_digit ds \<and>
           size_bytes d = int (digits_val ds))"
  (is "?L \<longleftrightarrow> ?R")
proof
  assume ?L
  then obtain h ds where "strip_prefix ''sha256:'' s = Some (h @ CHR ''/'' # ds)"
    and "valid_hash h" "ds \<noteq> []" "list_all is_ascii_digit ds"
    and "parse_i64_digits ds = Some (size_bytes d)" "hash d = h" "0 \<le> size_bytes d"
    by (auto simp: digest_from_str_def result_simps valid_hash_def split: option.splits if_splits
        dest!: split_once_SomeD)
  then show ?R
    by (auto simp: valid_digest_def parse_i64_digits_def split: if_splits
        dest!: strip_prefix_SomeD)
next
  assume ?R
  then obtain ds where s: "s = ''sha256:'' @ hash d @ ''/'' @ ds" and v: "valid_digest d"
    and ds: "ds \<noteq> []" "list_all is_ascii_digit ds" "size_bytes d = int (digits_val ds)"
    by blast
  from v have h: "valid_hash (hash d)" and n: "size_bytes d \<le> i64_max"
    by (simp_all add: valid_digest_def)
  have "split_once CHR ''/'' (hash d @ CHR ''/'' # ds) = Some (hash d, ds)"
    using valid_hash_no_slash [OF h] by (rule split_once_append)
  moreover have "strip_prefix ''sha256:'' s = Some (hash d @ CHR ''/'' # ds)"
    unfolding s using strip_prefix_append [of "''sha256:''" "hash d @ ''/'' @ ds"] by simp
  ultimately show ?L
    using h n ds by (simp add: digest_from_str_def valid_hash_def parse_i64_digits_def)
qed

lemma digest_parse_print: "valid_digest d \<Longrightarrow> digest_from_str (digest_to_string d) = Ok d"
proof -
  assume v: "valid_digest d"
  let ?ds = "show_int (size_bytes d)"
  from v have n: "0 \<le> size_bytes d" by (simp add: valid_digest_def)
  then have "?ds \<noteq> []" "list_all is_ascii_digit ?ds" "size_bytes d = int (digits_val ?ds)"
    by (simp_all add: show_int_all_digits, simp_all add: show_int_nonneg)
  then show ?thesis
    unfolding digest_from_str_iff digest_to_string_def using v by blast
qed

interpretation digest_text: text_codec digest_to_string digest_from_str valid_digest
  by unfold_locales (rule digest_parse_print)

lemma digest_from_str_valid: "digest_from_str s = Ok d \<Longrightarrow> valid_digest d"
  by (simp add: digest_from_str_iff)

section \<open>Properties\<close>

definition demo_digest :: digest where
  "demo_digest = \<lparr>hash = replicate 64 CHR ''0'', size_bytes = 0\<rparr>"

lemma demo_digest_valid: "valid_digest demo_digest"
  by (simp add: demo_digest_def valid_digest_def valid_hash_def list_ex_iff bad_hash_char_def
      is_ascii_hexdigit_def is_ascii_digit_def is_ascii_alphabetic_def is_ascii_lowercase_def
      is_ascii_uppercase_def)

text \<open>
  C21 The digest parser accepts exactly \<^verbatim>\<open>sha256:<hash>/<digits>\<close> with 64 lowercase hexadecimal digits and
  a non-empty run of decimal digits whose value fits \<^verbatim>\<open>i64\<close>, and returns that hash and that value.
\<close>

theorem digest_parse_exact:
  "digest_from_str s = Ok d \<longleftrightarrow>
     valid_digest d \<and>
     (\<exists>ds. s = ''sha256:'' @ hash d @ ''/'' @ ds \<and> ds \<noteq> [] \<and> list_all is_ascii_digit ds \<and>
           size_bytes d = int (digits_val ds))"
  by (rule digest_from_str_iff)

text \<open>
  Round trips of a valid digest: parsing its text gives it back, converting it to a REAPI digest and
  back gives it back, and two valid digests with the same text are equal.
\<close>

theorem digest_roundtrip:
  assumes "valid_digest d"
  shows "digest_from_str (digest_to_string d) = Ok d \<and> from_reapi (to_reapi d) = Ok d \<and>
    (\<forall>d'. valid_digest d' \<and> digest_to_string d' = digest_to_string d \<longrightarrow> d' = d)"
  using assms digest_parse_print digest_text.print_inj by auto

theorem digest_roundtrip_witness:
  "digest_from_str (digest_to_string demo_digest) = Ok demo_digest \<and>
   from_reapi (to_reapi demo_digest) = Ok demo_digest"
  using digest_roundtrip [OF demo_digest_valid] by simp

end
