(* ===== verification/Error_Context.thy ===== *)
theory Error_Context
  imports Prelude
begin

text \<open>
  Error context (\<^verbatim>\<open>crates/rfs-common/src/error_context.rs\<close>): \<^verbatim>\<open>context\<close> and \<^verbatim>\<open>with_context\<close> wrap the error of
  a failing result with the operation that failed and leave a success alone. The trait
  \<^verbatim>\<open>ResultContextError\<close> is the locale \<open>result_context_error\<close>: an observation of the error (its root
  cause, its errno, its CLI category) that wrapping does not change. The error types of the tree, the
  session, the filesystem and the control service interpret it.
\<close>

definition result_context :: "('op \<Rightarrow> 'e \<Rightarrow> 'e) \<Rightarrow> 'op \<Rightarrow> ('a, 'e) result \<Rightarrow> ('a, 'e) result" where
  "result_context wrap operation r = map_err (\<lambda>source. wrap operation source) r"

lemma result_context_simps [simp]:
  "result_context wrap op (Ok x) = Ok x"
  "result_context wrap op (Err e) = Err (wrap op e)"
  by (simp_all add: result_context_def)

lemma result_context_eq_Ok [result_simps]: "result_context wrap op r = Ok x \<longleftrightarrow> r = Ok x"
  by (simp add: result_context_def result_simps)

lemma result_context_eq_Err:
  "result_context wrap op r = Err e \<longleftrightarrow> (\<exists>e0. r = Err e0 \<and> e = wrap op e0)"
  by (cases r) auto

lemma is_ok_result_context [simp]: "is_ok (result_context wrap op r) = is_ok r"
  by (simp add: result_context_def)

locale result_context_error =
  fixes wrap :: "'op \<Rightarrow> 'e \<Rightarrow> 'e"
    and observe :: "'e \<Rightarrow> 'c"
  assumes observe_wrap [simp]: "observe (wrap op e) = observe e"
begin

lemma observe_nested [simp]: "observe (fold wrap ops e) = observe e"
  by (induction ops arbitrary: e) simp_all

lemma observe_context:
  "result_context wrap op r = Err e \<Longrightarrow> \<exists>e0. r = Err e0 \<and> observe e = observe e0"
  by (auto simp: result_context_eq_Err)

lemma map_observe_context [simp]:
  "map_err observe (result_context wrap op r) = map_err observe r"
  by (cases r) simp_all

end

section \<open>Source chains\<close>

text \<open>
  \<^verbatim>\<open>crates/rfs-common/src/diagnostics.rs\<close>: an error as \<^verbatim>\<open>dyn Error\<close> shows it, its message and its source, and the
  loop that formats the whole chain.
\<close>

datatype dyn_error = DynError (error_message: string) (error_source: "dyn_error option")

fun format_sources :: "string \<Rightarrow> dyn_error option \<Rightarrow> string" where
  "format_sources out None = out"
| "format_sources out (Some (DynError m src)) = format_sources (out @ '': '' @ m) src"

definition format_source_chain :: "dyn_error \<Rightarrow> string" where
  "format_source_chain e = format_sources (error_message e) (error_source e)"

fun error_chain :: "dyn_error \<Rightarrow> string list" where
  "error_chain (DynError m None) = [m]"
| "error_chain (DynError m (Some e)) = m # error_chain e"

fun chain_error :: "string \<Rightarrow> string list \<Rightarrow> dyn_error" where
  "chain_error m [] = DynError m None"
| "chain_error m (n # ms) = DynError m (Some (chain_error n ms))"

lemma error_chain_chain_error [simp]: "error_chain (chain_error m ms) = m # ms"
  by (induction m ms rule: chain_error.induct) simp_all

text \<open>No message of the chain is lost, and they come outermost first.\<close>

lemma format_sources_eq: "format_sources out (Some e) = out @ concat (map (\<lambda>m. '': '' @ m) (error_chain e))"
  by (induction e arbitrary: out rule: error_chain.induct) simp_all

lemma format_source_chain_eq: "format_source_chain e = hd (error_chain e) @ concat (map (\<lambda>m. '': '' @ m) (tl (error_chain e)))"
  by (cases e rule: error_chain.cases) (simp_all add: format_source_chain_def format_sources_eq)

end
