(* ===== verification/Tree.thy ===== *)
theory Tree
  imports Digest Error_Context
begin

text \<open>
  Canonical directory encoding (\<^verbatim>\<open>crates/rfs-common/src/tree.rs\<close>): node metadata and its normalisation, the
  directory builder, encoding to a REAPI \<^verbatim>\<open>Directory\<close>, and decoding with validation. The wire codec is
  generated by prost: the parameters \<open>enc\<close> (\<^verbatim>\<open>encode_to_vec\<close>) and \<open>dec\<close> (\<^verbatim>\<open>Directory::decode\<close>). The
  lemmas show that what the builder encodes the decoder accepts, that the encoding does not depend on
  the order of insertion, exactly when encoding succeeds, and what a decoded directory satisfies.
\<close>

section \<open>Generated REAPI messages\<close>

record timestamp =
  ts_seconds :: int
  ts_nanos :: int

record node_property =
  prop_name :: string
  prop_value :: string

record node_properties =
  np_properties :: "node_property list"
  np_mtime :: "timestamp option"
  np_unix_mode :: "u32 option"

record file_node =
  fn_name :: string
  fn_digest :: "re_digest option"
  fn_is_executable :: bool
  fn_node_properties :: "node_properties option"

record directory_node =
  dn_name :: string
  dn_digest :: "re_digest option"
  dn_node_properties :: "node_properties option"

record symlink_node =
  sn_name :: string
  sn_target :: string
  sn_node_properties :: "node_properties option"

record directory =
  dir_files :: "file_node list"
  dir_directories :: "directory_node list"
  dir_symlinks :: "symlink_node list"
  dir_node_properties :: "node_properties option"

section \<open>Tree data\<close>

definition SETUID_BIT :: u32 where "SETUID_BIT = 0x800"
definition SETGID_BIT :: u32 where "SETGID_BIT = 0x400"
definition STICKY_BIT :: u32 where "STICKY_BIT = 0x200"
definition PERMISSION_BITS :: u32 where "PERMISSION_BITS = 0x1FF"
definition FILE_MODE_MASK :: u32 where "FILE_MODE_MASK = PERMISSION_BITS"
definition DIRECTORY_MODE_MASK :: u32 where "DIRECTORY_MODE_MASK = PERMISSION_BITS OR STICKY_BIT"
definition SYMLINK_MODE_MASK :: u32 where "SYMLINK_MODE_MASK = PERMISSION_BITS"
definition MIN_TIMESTAMP_SECONDS :: int where "MIN_TIMESTAMP_SECONDS = - 62135596800"
definition MAX_TIMESTAMP_SECONDS :: int where "MAX_TIMESTAMP_SECONDS = 253402300799"

datatype node_kind = File | Directory | Symlink

record node_metadata =
  nm_mode :: "u32 option"
  nm_mtime :: "timestamp option"
  nm_kind :: node_kind

record file_entry =
  fe_name :: string
  fe_digest :: digest
  fe_metadata :: node_metadata

record directory_entry =
  de_name :: string
  de_digest :: digest
  de_metadata :: node_metadata

record symlink_entry =
  se_name :: string
  se_target :: string
  se_metadata :: node_metadata

record tree_warnings =
  masked_setuid :: nat
  masked_setgid :: nat
  absolute_symlinks :: nat
  escaping_symlinks :: nat

datatype tree_warning =
    MaskedSetuid string
  | MaskedSetgid string
  | AbsoluteSymlink string string
  | EscapingSymlink string string

record encoded_directory =
  ed_digest :: digest
  ed_bytes :: bytes
  ed_directory :: directory
  ed_warnings :: tree_warnings

datatype tree_error =
    InvalidName string string
  | DuplicateName string
  | MissingDigest string
  | NonUtf8Name string
  | NonUtf8SymlinkTarget string
  | UnsupportedNodeType string string
  | UnsupportedTimestamp string int int
  | Decode digest string
  | DigestMismatch digest digest
  | InvalidDigest string digest_error
  | Filesystem string string
  | TreeContext string tree_error

abbreviation tree_context :: "string \<Rightarrow> ('a, tree_error) result \<Rightarrow> ('a, tree_error) result" where
  "tree_context \<equiv> result_context TreeContext"

fun tree_root_cause :: "tree_error \<Rightarrow> tree_error" where
  "tree_root_cause (TreeContext op e) = tree_root_cause e"
| "tree_root_cause e = e"

interpretation tree_ctx: result_context_error TreeContext tree_root_cause
  by unfold_locales simp

section \<open>Warnings\<close>

definition no_warnings :: tree_warnings where
  "no_warnings = \<lparr>masked_setuid = 0, masked_setgid = 0, absolute_symlinks = 0, escaping_symlinks = 0\<rparr>"

fun warnings_add :: "tree_warnings \<Rightarrow> tree_warning \<Rightarrow> tree_warnings" where
  "warnings_add w (MaskedSetuid _) = w\<lparr>masked_setuid := masked_setuid w + 1\<rparr>"
| "warnings_add w (MaskedSetgid _) = w\<lparr>masked_setgid := masked_setgid w + 1\<rparr>"
| "warnings_add w (AbsoluteSymlink _ _) = w\<lparr>absolute_symlinks := absolute_symlinks w + 1\<rparr>"
| "warnings_add w (EscapingSymlink _ _) = w\<lparr>escaping_symlinks := escaping_symlinks w + 1\<rparr>"

definition warnings_merge :: "tree_warnings \<Rightarrow> tree_warnings \<Rightarrow> tree_warnings" where
  "warnings_merge w other =
     \<lparr>masked_setuid = masked_setuid w + masked_setuid other,
      masked_setgid = masked_setgid w + masked_setgid other,
      absolute_symlinks = absolute_symlinks w + absolute_symlinks other,
      escaping_symlinks = escaping_symlinks w + escaping_symlinks other\<rparr>"

section \<open>Metadata\<close>

definition validate_timestamp :: "string \<Rightarrow> timestamp \<Rightarrow> (unit, tree_error) result" where
  "validate_timestamp path t =
     (if \<not> (0 \<le> ts_nanos t \<and> ts_nanos t \<le> 999999999) \<or>
         ts_seconds t < MIN_TIMESTAMP_SECONDS \<or> ts_seconds t > MAX_TIMESTAMP_SECONDS
      then Err (UnsupportedTimestamp path (ts_seconds t) (ts_nanos t))
      else Ok ())"

fun mode_mask :: "node_kind \<Rightarrow> u32" where
  "mode_mask File = FILE_MODE_MASK"
| "mode_mask Directory = DIRECTORY_MODE_MASK"
| "mode_mask Symlink = SYMLINK_MODE_MASK"

definition mode_warnings :: "string \<Rightarrow> u32 \<Rightarrow> tree_warnings \<Rightarrow> tree_warnings" where
  "mode_warnings path m w0 =
     (let w1 = (if m AND SETUID_BIT \<noteq> 0 then warnings_add w0 (MaskedSetuid path) else w0)
      in if m AND SETGID_BIT \<noteq> 0 then warnings_add w1 (MaskedSetgid path) else w1)"

definition normalize ::
  "node_metadata \<Rightarrow> string \<Rightarrow> (node_metadata \<times> tree_warnings, tree_error) result" where
  "normalize md path =
     (let warnings = (case nm_mode md of None \<Rightarrow> no_warnings | Some m \<Rightarrow> mode_warnings path m no_warnings);
          new_mode = map_option (\<lambda>m. m AND mode_mask (nm_kind md)) (nm_mode md)
      in and_then (case nm_mtime md of
             None \<Rightarrow> Ok ()
           | Some t \<Rightarrow> tree_context ''validate mtime'' (validate_timestamp path t)) (\<lambda>_.
         Ok (\<lparr>nm_mode = new_mode, nm_mtime = nm_mtime md, nm_kind = nm_kind md\<rparr>, warnings)))"

definition into_node_properties :: "node_metadata \<Rightarrow> node_properties option" where
  "into_node_properties md =
     (if nm_mode md = None \<and> nm_mtime md = None then None
      else Some \<lparr>np_properties = [], np_mtime = nm_mtime md, np_unix_mode = nm_mode md\<rparr>)"

definition normalize_optional_metadata ::
  "node_metadata option \<Rightarrow> string \<Rightarrow> tree_warnings \<Rightarrow>
     (node_properties option \<times> tree_warnings, tree_error) result" where
  "normalize_optional_metadata md path warnings =
     (case md of
        None \<Rightarrow> Ok (None, warnings)
      | Some m \<Rightarrow>
          and_then (tree_context ''normalize node metadata'' (normalize m path))
            (\<lambda>(m', mw). Ok (into_node_properties m', warnings_merge warnings mw)))"

section \<open>The directory builder\<close>

record directory_builder =
  b_metadata :: "node_metadata option"
  b_files :: "file_entry list"
  b_directories :: "directory_entry list"
  b_symlinks :: "symlink_entry list"

definition builder_new :: directory_builder where
  "builder_new = \<lparr>b_metadata = None, b_files = [], b_directories = [], b_symlinks = []\<rparr>"

definition builder_with_metadata :: "node_metadata \<Rightarrow> directory_builder" where
  "builder_with_metadata md =
     \<lparr>b_metadata = Some md, b_files = [], b_directories = [], b_symlinks = []\<rparr>"

definition validate_name :: "string \<Rightarrow> (unit, tree_error) result" where
  "validate_name name =
     (let reason = (if name = [] then Some ''must not be empty''
                    else if name = ''.'' \<or> name = ''..'' then Some ''must not be `.` or `..`''
                    else if contains_char CHR ''/'' name then Some ''must not contain `/`''
                    else None)
      in case reason of Some r \<Rightarrow> Err (InvalidName name r) | None \<Rightarrow> Ok ())"

definition add_file ::
  "directory_builder \<Rightarrow> file_entry \<Rightarrow> (directory_builder, tree_error) result" where
  "add_file b entry =
     and_then (tree_context ''validate file entry name'' (validate_name (fe_name entry)))
       (\<lambda>_. Ok (b\<lparr>b_files := b_files b @ [entry]\<rparr>))"

definition add_directory ::
  "directory_builder \<Rightarrow> directory_entry \<Rightarrow> (directory_builder, tree_error) result" where
  "add_directory b entry =
     and_then (tree_context ''validate directory entry name'' (validate_name (de_name entry)))
       (\<lambda>_. Ok (b\<lparr>b_directories := b_directories b @ [entry]\<rparr>))"

definition add_symlink ::
  "directory_builder \<Rightarrow> symlink_entry \<Rightarrow> (directory_builder, tree_error) result" where
  "add_symlink b entry =
     and_then (tree_context ''validate symlink entry name'' (validate_name (se_name entry)))
       (\<lambda>_. Ok (b\<lparr>b_symlinks := b_symlinks b @ [entry]\<rparr>))"

section \<open>Encoding\<close>

definition sort_entries :: "directory_builder \<Rightarrow> directory_builder" where
  "sort_entries b =
     b\<lparr>b_files := sort_key fe_name (b_files b),
       b_directories := sort_key de_name (b_directories b),
       b_symlinks := sort_key se_name (b_symlinks b)\<rparr>"

definition builder_names :: "directory_builder \<Rightarrow> string list" where
  "builder_names b =
     map fe_name (b_files b) @ map de_name (b_directories b) @ map se_name (b_symlinks b)"

text \<open>\<open>seen\<close> is the \<^verbatim>\<open>HashSet\<close> of the names met so far.\<close>

fun reject_duplicates_from :: "string list \<Rightarrow> string list \<Rightarrow> (unit, tree_error) result" where
  "reject_duplicates_from seen [] = Ok ()"
| "reject_duplicates_from seen (name # names) =
     (if name \<in> set seen then Err (DuplicateName name)
      else reject_duplicates_from (name # seen) names)"

definition reject_duplicate_names :: "directory_builder \<Rightarrow> (unit, tree_error) result" where
  "reject_duplicate_names b = reject_duplicates_from [] (builder_names b)"

definition encode_file_node ::
  "file_entry \<Rightarrow> tree_warnings \<Rightarrow> (file_node \<times> tree_warnings, tree_error) result" where
  "encode_file_node entry warnings =
     and_then (tree_context ''normalize file node metadata''
         (normalize_optional_metadata (Some (fe_metadata entry)) (fe_name entry) warnings))
       (\<lambda>(props, w).
         let m = (case Option.bind props np_unix_mode of None \<Rightarrow> 0 | Some m \<Rightarrow> m)
         in Ok (\<lparr>fn_name = fe_name entry, fn_digest = Some (to_reapi (fe_digest entry)),
                  fn_is_executable = (m AND 0x49 \<noteq> 0), fn_node_properties = props\<rparr>, w))"

definition encode_directory_node ::
  "directory_entry \<Rightarrow> tree_warnings \<Rightarrow> (directory_node \<times> tree_warnings, tree_error) result" where
  "encode_directory_node entry warnings =
     and_then (tree_context ''normalize directory node metadata''
         (normalize_optional_metadata (Some (de_metadata entry)) (de_name entry) warnings))
       (\<lambda>(props, w).
         Ok (\<lparr>dn_name = de_name entry, dn_digest = Some (to_reapi (de_digest entry)),
               dn_node_properties = props\<rparr>, w))"

fun escapes_from :: "int \<Rightarrow> string list \<Rightarrow> bool" where
  "escapes_from depth [] = False"
| "escapes_from depth (c # cs) =
     (if c = [] \<or> c = ''.'' then escapes_from depth cs
      else if c = ''..'' then (if depth = 0 then True else escapes_from (depth - 1) cs)
      else escapes_from (depth + 1) cs)"

definition target_escapes :: "string \<Rightarrow> bool" where
  "target_escapes target = escapes_from 0 (split_on CHR ''/'' target)"

definition encode_symlink_node ::
  "symlink_entry \<Rightarrow> tree_warnings \<Rightarrow> (symlink_node \<times> tree_warnings, tree_error) result" where
  "encode_symlink_node entry warnings =
     (let w1 = (if take 1 (se_target entry) = ''/''
                then warnings_add warnings (AbsoluteSymlink (se_name entry) (se_target entry))
                else warnings);
          w2 = (if target_escapes (se_target entry)
                then warnings_add w1 (EscapingSymlink (se_name entry) (se_target entry))
                else w1)
      in and_then (tree_context ''normalize symlink node metadata''
           (normalize_optional_metadata (Some (se_metadata entry)) (se_name entry) w2))
         (\<lambda>(props, w).
           Ok (\<lparr>sn_name = se_name entry, sn_target = se_target entry, sn_node_properties = props\<rparr>, w)))"

definition builder_encode ::
  "(bytes \<Rightarrow> string) \<Rightarrow> (directory \<Rightarrow> bytes) \<Rightarrow> directory_builder \<Rightarrow>
     (encoded_directory, tree_error) result" where
  "builder_encode sha enc b0 =
     (let b = sort_entries b0 in
      and_then (tree_context ''reject duplicate names before encoding directory''
          (reject_duplicate_names b)) (\<lambda>_.
      and_then (tree_context ''normalize root directory metadata''
          (normalize_optional_metadata (b_metadata b) ''.'' no_warnings)) (\<lambda>(props, w0).
      and_then (tree_context ''encode all file nodes for directory''
          (collect_acc (\<lambda>e w. tree_context ''encode file node'' (encode_file_node e w))
             (b_files b) w0)) (\<lambda>(fs, w1).
      and_then (tree_context ''encode all directory nodes for directory''
          (collect_acc (\<lambda>e w. tree_context ''encode directory node'' (encode_directory_node e w))
             (b_directories b) w1)) (\<lambda>(ds, w2).
      and_then (tree_context ''encode all symlink nodes for directory''
          (collect_acc (\<lambda>e w. tree_context ''encode symlink node'' (encode_symlink_node e w))
             (b_symlinks b) w2)) (\<lambda>(ss, w3).
        let d = \<lparr>dir_files = fs, dir_directories = ds, dir_symlinks = ss, dir_node_properties = props\<rparr>;
            bs = enc d
        in Ok \<lparr>ed_digest = for_bytes sha bs, ed_bytes = bs, ed_directory = d, ed_warnings = w3\<rparr>))))))"

section \<open>Decoding\<close>

fun validate_sorted_from :: "string option \<Rightarrow> string list \<Rightarrow> (unit, tree_error) result" where
  "validate_sorted_from previous [] = Ok ()"
| "validate_sorted_from previous (name # names) =
     (if (case previous of None \<Rightarrow> False | Some p \<Rightarrow> p \<ge> name) then Err (DuplicateName name)
      else validate_sorted_from (Some name) names)"

definition validate_sorted_names :: "string list \<Rightarrow> (unit, tree_error) result" where
  "validate_sorted_names names = validate_sorted_from None names"

definition validate_node_properties ::
  "string \<Rightarrow> node_properties option \<Rightarrow> (unit, tree_error) result" where
  "validate_node_properties name props =
     (case Option.bind props np_mtime of
        None \<Rightarrow> Ok ()
      | Some t \<Rightarrow> tree_context ''validate node properties timestamp'' (validate_timestamp name t))"

definition directory_names :: "directory \<Rightarrow> string list" where
  "directory_names d =
     map fn_name (dir_files d) @ map dn_name (dir_directories d) @ map sn_name (dir_symlinks d)"

fun validate_names_from :: "string list \<Rightarrow> string list \<Rightarrow> (unit, tree_error) result" where
  "validate_names_from seen [] = Ok ()"
| "validate_names_from seen (name # names) =
     and_then (tree_context ''validate decoded node name'' (validate_name name)) (\<lambda>_.
       if name \<in> set seen then Err (DuplicateName name)
       else validate_names_from (name # seen) names)"

definition validate_node_digest ::
  "string \<Rightarrow> re_digest option \<Rightarrow> (unit, tree_error) result" where
  "validate_node_digest name d =
     and_then (ok_or d (MissingDigest name)) (\<lambda>r.
     and_then (map_err (InvalidDigest name) (from_reapi r)) (\<lambda>_. Ok ()))"

definition validate_directory :: "directory \<Rightarrow> (unit, tree_error) result" where
  "validate_directory d =
     and_then (tree_context ''validate sorted file node names''
         (validate_sorted_names (map fn_name (dir_files d)))) (\<lambda>_.
     and_then (tree_context ''validate sorted directory node names''
         (validate_sorted_names (map dn_name (dir_directories d)))) (\<lambda>_.
     and_then (tree_context ''validate sorted symlink node names''
         (validate_sorted_names (map sn_name (dir_symlinks d)))) (\<lambda>_.
     and_then (validate_names_from [] (directory_names d)) (\<lambda>_.
     and_then (tree_context ''validate root directory node properties''
         (validate_node_properties ''.'' (dir_node_properties d))) (\<lambda>_.
     and_then (for_each (\<lambda>n.
         and_then (validate_node_digest (fn_name n) (fn_digest n)) (\<lambda>_.
           tree_context ''validate file node properties''
             (validate_node_properties (fn_name n) (fn_node_properties n)))) (dir_files d)) (\<lambda>_.
     and_then (for_each (\<lambda>n. validate_node_digest (dn_name n) (dn_digest n)) (dir_directories d)) (\<lambda>_.
       for_each (\<lambda>n. tree_context ''validate symlink node properties''
         (validate_node_properties (sn_name n) (sn_node_properties n))) (dir_symlinks d))))))))"

definition decode_directory ::
  "(bytes \<Rightarrow> string) \<Rightarrow> (bytes \<Rightarrow> (directory, string) result) \<Rightarrow> digest \<Rightarrow> bytes \<Rightarrow>
     (directory, tree_error) result" where
  "decode_directory sha dec expected bs =
     (let actual = for_bytes sha bs in
      if actual \<noteq> expected then Err (DigestMismatch expected actual)
      else and_then (map_err (Decode expected) (dec bs)) (\<lambda>d.
           and_then (tree_context ''validate decoded REAPI Directory'' (validate_directory d)) (\<lambda>_.
             Ok d)))"

section \<open>Names, timestamps and metadata\<close>

definition valid_name :: "string \<Rightarrow> bool" where
  "valid_name n \<longleftrightarrow> n \<noteq> [] \<and> n \<noteq> ''.'' \<and> n \<noteq> ''..'' \<and> CHR ''/'' \<notin> set n"

definition valid_timestamp :: "timestamp \<Rightarrow> bool" where
  "valid_timestamp t \<longleftrightarrow> 0 \<le> ts_nanos t \<and> ts_nanos t \<le> 999999999 \<and>
     MIN_TIMESTAMP_SECONDS \<le> ts_seconds t \<and> ts_seconds t \<le> MAX_TIMESTAMP_SECONDS"

definition metadata_ok :: "node_metadata \<Rightarrow> bool" where
  "metadata_ok md \<longleftrightarrow> pred_option valid_timestamp (nm_mtime md)"

definition props_ok :: "node_properties option \<Rightarrow> bool" where
  "props_ok props \<longleftrightarrow> pred_option valid_timestamp (Option.bind props np_mtime)"

definition digest_field_ok :: "re_digest option \<Rightarrow> bool" where
  "digest_field_ok r \<longleftrightarrow> (\<exists>x d. r = Some x \<and> from_reapi x = Ok d)"

lemma validate_name_eq_Ok [result_simps]: "validate_name n = Ok u \<longleftrightarrow> valid_name n"
  by (simp add: validate_name_def valid_name_def contains_char_def Let_def)

lemma validate_timestamp_eq_Ok [result_simps]: "validate_timestamp p t = Ok u \<longleftrightarrow> valid_timestamp t"
  by (auto simp: validate_timestamp_def valid_timestamp_def)

lemma validate_node_properties_eq_Ok [result_simps]:
  "validate_node_properties n props = Ok u \<longleftrightarrow> props_ok props"
  by (auto simp: validate_node_properties_def props_ok_def result_simps split: option.splits)

lemma validate_node_digest_eq_Ok [result_simps]:
  "validate_node_digest n r = Ok u \<longleftrightarrow> digest_field_ok r"
  by (auto simp: validate_node_digest_def digest_field_ok_def result_simps)

text \<open>The metadata that \<open>normalize\<close> returns, and the warnings it counts.\<close>

definition norm_metadata :: "node_metadata \<Rightarrow> node_metadata" where
  "norm_metadata md = \<lparr>nm_mode = map_option (\<lambda>m. m AND mode_mask (nm_kind md)) (nm_mode md),
     nm_mtime = nm_mtime md, nm_kind = nm_kind md\<rparr>"

definition metadata_warnings :: "node_metadata \<Rightarrow> tree_warnings" where
  "metadata_warnings md =
     (case nm_mode md of None \<Rightarrow> no_warnings | Some m \<Rightarrow> mode_warnings [] m no_warnings)"

lemma mode_warnings_path: "mode_warnings path m w = mode_warnings [] m w"
  by (simp add: mode_warnings_def)

lemma normalize_eq:
  "normalize md path =
     (if metadata_ok md then Ok (norm_metadata md, metadata_warnings md)
      else Err (TreeContext ''validate mtime''
        (UnsupportedTimestamp path (ts_seconds (the (nm_mtime md))) (ts_nanos (the (nm_mtime md))))))"
proof -
  have "validate_timestamp path t = Ok ()" if "valid_timestamp t" for t
    using that by (simp add: validate_timestamp_eq_Ok)
  moreover have "validate_timestamp path t = Err (UnsupportedTimestamp path (ts_seconds t) (ts_nanos t))"
    if "\<not> valid_timestamp t" for t
    using that by (auto simp: validate_timestamp_def valid_timestamp_def)
  ultimately show ?thesis
    by (auto simp: normalize_def metadata_ok_def norm_metadata_def metadata_warnings_def
        mode_warnings_path [of path] Let_def split: option.splits)
qed

definition norm_props :: "node_metadata \<Rightarrow> node_properties option" where
  "norm_props md = into_node_properties (norm_metadata md)"

lemma normalize_optional_Some:
  "metadata_ok md \<Longrightarrow> normalize_optional_metadata (Some md) path w =
     Ok (norm_props md, warnings_merge w (metadata_warnings md))"
  by (simp add: normalize_optional_metadata_def normalize_eq norm_props_def)

lemma normalize_optional_is_ok [simp]:
  "is_ok (normalize_optional_metadata md path w) \<longleftrightarrow> pred_option metadata_ok md"
  by (cases md) (simp_all add: normalize_optional_metadata_def normalize_eq split_beta)

lemma norm_props_ok: "props_ok (norm_props md) \<longleftrightarrow> metadata_ok md"
  by (auto simp: props_ok_def norm_props_def into_node_properties_def norm_metadata_def
      metadata_ok_def)

lemma mode_mask_bound: "mode_mask k \<le> 0x3FF"
  by (cases k) (simp_all add: FILE_MODE_MASK_def DIRECTORY_MODE_MASK_def SYMLINK_MODE_MASK_def
      PERMISSION_BITS_def STICKY_BIT_def)

lemma norm_metadata_mode_bound: "nm_mode (norm_metadata md) = Some m \<Longrightarrow> m \<le> 0x3FF"
  by (auto simp: norm_metadata_def intro: order_trans [OF word_and_le1 mode_mask_bound])

lemma norm_metadata_idem: "norm_metadata (norm_metadata md) = norm_metadata md"
  by (cases "nm_mode md") (simp_all add: norm_metadata_def and.assoc)

lemma mask_clears_special:
  "(m AND mode_mask k) AND SETUID_BIT = 0" "(m AND mode_mask k) AND SETGID_BIT = 0"
  by (cases k; simp add: and.assoc FILE_MODE_MASK_def DIRECTORY_MODE_MASK_def SYMLINK_MODE_MASK_def
      PERMISSION_BITS_def STICKY_BIT_def SETUID_BIT_def SETGID_BIT_def)+

lemma norm_metadata_warnings: "metadata_warnings (norm_metadata md) = no_warnings"
  by (simp add: metadata_warnings_def norm_metadata_def mode_warnings_def mask_clears_special
      split: option.splits)

section \<open>Encoding characterised\<close>

definition file_node_of :: "file_entry \<Rightarrow> file_node" where
  "file_node_of e =
     \<lparr>fn_name = fe_name e, fn_digest = Some (to_reapi (fe_digest e)),
      fn_is_executable =
        ((case nm_mode (norm_metadata (fe_metadata e)) of None \<Rightarrow> 0 | Some m \<Rightarrow> m) AND 0x49 \<noteq> 0),
      fn_node_properties = norm_props (fe_metadata e)\<rparr>"

definition directory_node_of :: "directory_entry \<Rightarrow> directory_node" where
  "directory_node_of e =
     \<lparr>dn_name = de_name e, dn_digest = Some (to_reapi (de_digest e)),
      dn_node_properties = norm_props (de_metadata e)\<rparr>"

definition symlink_node_of :: "symlink_entry \<Rightarrow> symlink_node" where
  "symlink_node_of e =
     \<lparr>sn_name = se_name e, sn_target = se_target e, sn_node_properties = norm_props (se_metadata e)\<rparr>"

definition symlink_warnings :: "symlink_entry \<Rightarrow> tree_warnings" where
  "symlink_warnings e = (metadata_warnings (se_metadata e))
     \<lparr>absolute_symlinks := of_bool (take 1 (se_target e) = ''/''),
      escaping_symlinks := of_bool (target_escapes (se_target e))\<rparr>"

lemma norm_props_mode: "Option.bind (norm_props md) np_unix_mode = nm_mode (norm_metadata md)"
  by (auto simp: norm_props_def into_node_properties_def)

lemma encode_file_node_eq:
  "metadata_ok (fe_metadata e) \<Longrightarrow> encode_file_node e w =
     Ok (file_node_of e, warnings_merge w (metadata_warnings (fe_metadata e)))"
  by (simp add: encode_file_node_def normalize_optional_Some file_node_of_def norm_props_mode Let_def)

lemma encode_directory_node_eq:
  "metadata_ok (de_metadata e) \<Longrightarrow> encode_directory_node e w =
     Ok (directory_node_of e, warnings_merge w (metadata_warnings (de_metadata e)))"
  by (simp add: encode_directory_node_def normalize_optional_Some directory_node_of_def)

lemma metadata_warnings_symlinks [simp]:
  "absolute_symlinks (metadata_warnings md) = 0" "escaping_symlinks (metadata_warnings md) = 0"
  by (simp_all add: metadata_warnings_def mode_warnings_def no_warnings_def Let_def split: option.splits)

lemma encode_symlink_node_eq:
  "metadata_ok (se_metadata e) \<Longrightarrow> encode_symlink_node e w =
     Ok (symlink_node_of e, warnings_merge w (symlink_warnings e))"
  by (simp add: encode_symlink_node_def normalize_optional_Some symlink_node_of_def
      symlink_warnings_def warnings_merge_def Let_def)

lemma encode_node_is_ok [simp]:
  "is_ok (encode_file_node fe w) \<longleftrightarrow> metadata_ok (fe_metadata fe)"
  "is_ok (encode_directory_node de w) \<longleftrightarrow> metadata_ok (de_metadata de)"
  "is_ok (encode_symlink_node se w) \<longleftrightarrow> metadata_ok (se_metadata se)"
proof -
  have n: "(\<exists>a b. normalize_optional_metadata (Some md) p v = Ok (a, b)) \<longleftrightarrow> metadata_ok md" for md p v
    using normalize_optional_is_ok [of "Some md" p v] by (simp add: is_ok_iff)
  show "is_ok (encode_file_node fe w) \<longleftrightarrow> metadata_ok (fe_metadata fe)"
    "is_ok (encode_directory_node de w) \<longleftrightarrow> metadata_ok (de_metadata de)"
    "is_ok (encode_symlink_node se w) \<longleftrightarrow> metadata_ok (se_metadata se)"
    using n by (auto simp: encode_file_node_def encode_directory_node_def encode_symlink_node_def
        result_simps Let_def)
qed

lemma collect_acc_total:
  "\<forall>x \<in> set xs. \<forall>s. f x s = Ok (g x, h x s) \<Longrightarrow> collect_acc f xs s = Ok (map g xs, fold h xs s)"
  by (induction xs arbitrary: s) auto

lemma collect_acc_is_ok:
  "(\<And>x s. is_ok (f x s) \<longleftrightarrow> P x) \<Longrightarrow> is_ok (collect_acc f xs s) \<longleftrightarrow> (\<forall>x \<in> set xs. P x)"
proof (induction xs arbitrary: s)
  case (Cons x xs)
  show ?case
  proof (cases "f x s")
    case (Inl e)
    with Cons.prems [of x s] show ?thesis by simp
  next
    case (Inr p)
    then have "P x" using Cons.prems [of x s] by simp
    with Inr Cons.IH [OF Cons.prems, of "snd p"] show ?thesis
      by (cases p) (simp add: is_ok_iff result_simps split_beta, blast)
  qed
qed simp

lemma reject_duplicates_from_eq_Ok:
  "reject_duplicates_from seen names = Ok u \<longleftrightarrow> distinct names \<and> set names \<inter> set seen = {}"
  by (induction seen names rule: reject_duplicates_from.induct) auto

lemma reject_duplicate_names_eq_Ok [result_simps]:
  "reject_duplicate_names b = Ok u \<longleftrightarrow> distinct (builder_names b)"
  by (simp add: reject_duplicate_names_def reject_duplicates_from_eq_Ok)

lemma mset_builder_names_sort [simp]: "mset (builder_names (sort_entries b)) = mset (builder_names b)"
  by (simp add: builder_names_def sort_entries_def)

lemma distinct_builder_names_sort [simp]:
  "distinct (builder_names (sort_entries b)) = distinct (builder_names b)"
  by (metis mset_builder_names_sort mset_eq_imp_distinct_iff)

lemma sort_entries_sel [simp]:
  "b_metadata (sort_entries b) = b_metadata b"
  "b_files (sort_entries b) = sort_key fe_name (b_files b)"
  "b_directories (sort_entries b) = sort_key de_name (b_directories b)"
  "b_symlinks (sort_entries b) = sort_key se_name (b_symlinks b)"
  by (simp_all add: sort_entries_def)

text \<open>What the builder accepts, and the directory it produces.\<close>

definition builder_ok :: "directory_builder \<Rightarrow> bool" where
  "builder_ok b \<longleftrightarrow> distinct (builder_names b) \<and> pred_option metadata_ok (b_metadata b) \<and>
     (\<forall>e \<in> set (b_files b). metadata_ok (fe_metadata e)) \<and>
     (\<forall>e \<in> set (b_directories b). metadata_ok (de_metadata e)) \<and>
     (\<forall>e \<in> set (b_symlinks b). metadata_ok (se_metadata e))"

definition canonical_directory :: "directory_builder \<Rightarrow> directory" where
  "canonical_directory b =
     \<lparr>dir_files = map file_node_of (sort_key fe_name (b_files b)),
      dir_directories = map directory_node_of (sort_key de_name (b_directories b)),
      dir_symlinks = map symlink_node_of (sort_key se_name (b_symlinks b)),
      dir_node_properties = Option.bind (b_metadata b) norm_props\<rparr>"

definition builder_warnings :: "directory_builder \<Rightarrow> tree_warnings" where
  "builder_warnings b =
     fold (\<lambda>e w. warnings_merge w (symlink_warnings e)) (sort_key se_name (b_symlinks b))
    (fold (\<lambda>e w. warnings_merge w (metadata_warnings (de_metadata e))) (sort_key de_name (b_directories b))
    (fold (\<lambda>e w. warnings_merge w (metadata_warnings (fe_metadata e))) (sort_key fe_name (b_files b))
      (case b_metadata b of None \<Rightarrow> no_warnings
       | Some md \<Rightarrow> warnings_merge no_warnings (metadata_warnings md))))"

lemma builder_encode_eq:
  assumes "builder_ok b"
  shows "builder_encode sha enc b =
    Ok \<lparr>ed_digest = for_bytes sha (enc (canonical_directory b)), ed_bytes = enc (canonical_directory b),
        ed_directory = canonical_directory b, ed_warnings = builder_warnings b\<rparr>"
proof -
  let ?b = "sort_entries b"
  have r: "reject_duplicate_names ?b = Ok ()"
    using assms by (simp add: builder_ok_def reject_duplicate_names_eq_Ok)
  have m: "normalize_optional_metadata (b_metadata b) ''.'' no_warnings =
      Ok (Option.bind (b_metadata b) norm_props,
          case b_metadata b of None \<Rightarrow> no_warnings
          | Some md \<Rightarrow> warnings_merge no_warnings (metadata_warnings md))"
    using assms by (cases "b_metadata b")
      (simp_all add: builder_ok_def normalize_optional_Some, simp add: normalize_optional_metadata_def)
  have f: "collect_acc (\<lambda>e w. tree_context ''encode file node'' (encode_file_node e w))
      (sort_key fe_name (b_files b)) w =
      Ok (map file_node_of (sort_key fe_name (b_files b)),
          fold (\<lambda>e w. warnings_merge w (metadata_warnings (fe_metadata e))) (sort_key fe_name (b_files b)) w)" for w
    using assms by (intro collect_acc_total) (simp add: builder_ok_def encode_file_node_eq)
  have d: "collect_acc (\<lambda>e w. tree_context ''encode directory node'' (encode_directory_node e w))
      (sort_key de_name (b_directories b)) w =
      Ok (map directory_node_of (sort_key de_name (b_directories b)),
          fold (\<lambda>e w. warnings_merge w (metadata_warnings (de_metadata e))) (sort_key de_name (b_directories b)) w)" for w
    using assms by (intro collect_acc_total) (simp add: builder_ok_def encode_directory_node_eq)
  have s: "collect_acc (\<lambda>e w. tree_context ''encode symlink node'' (encode_symlink_node e w))
      (sort_key se_name (b_symlinks b)) w =
      Ok (map symlink_node_of (sort_key se_name (b_symlinks b)),
          fold (\<lambda>e w. warnings_merge w (symlink_warnings e)) (sort_key se_name (b_symlinks b)) w)" for w
    using assms by (intro collect_acc_total) (simp add: builder_ok_def encode_symlink_node_eq)
  show ?thesis
    by (simp add: builder_encode_def Let_def r m f d s canonical_directory_def builder_warnings_def)
qed

lemma builder_encode_is_ok: "is_ok (builder_encode sha enc b) \<longleftrightarrow> builder_ok b"
proof
  assume "is_ok (builder_encode sha enc b)"
  then obtain ed where "builder_encode sha enc b = Ok ed" by (auto simp: is_ok_iff)
  then obtain u p0 p1 p2 p3 where
    r: "reject_duplicate_names (sort_entries b) = Ok u" and
    m: "normalize_optional_metadata (b_metadata b) ''.'' no_warnings = Ok p0" and
    f: "collect_acc (\<lambda>e w. tree_context ''encode file node'' (encode_file_node e w))
          (sort_key fe_name (b_files b)) (snd p0) = Ok p1" and
    d: "collect_acc (\<lambda>e w. tree_context ''encode directory node'' (encode_directory_node e w))
          (sort_key de_name (b_directories b)) (snd p1) = Ok p2" and
    s: "collect_acc (\<lambda>e w. tree_context ''encode symlink node'' (encode_symlink_node e w))
          (sort_key se_name (b_symlinks b)) (snd p2) = Ok p3"
    by (auto simp: builder_encode_def Let_def result_simps split_beta)
  have "pred_option metadata_ok (b_metadata b)"
    using m normalize_optional_is_ok [of "b_metadata b" "''.''" no_warnings] by simp
  moreover have "\<forall>e \<in> set (b_files b). metadata_ok (fe_metadata e)"
    using f collect_acc_is_ok [of "\<lambda>e w. tree_context ''encode file node'' (encode_file_node e w)"
        "\<lambda>e. metadata_ok (fe_metadata e)"] by (metis encode_node_is_ok(1) is_ok_result_context is_ok_simps(1) set_sort)
  moreover have "\<forall>e \<in> set (b_directories b). metadata_ok (de_metadata e)"
    using d collect_acc_is_ok [of "\<lambda>e w. tree_context ''encode directory node'' (encode_directory_node e w)"
        "\<lambda>e. metadata_ok (de_metadata e)"] by (metis encode_node_is_ok(2) is_ok_result_context is_ok_simps(1) set_sort)
  moreover have "\<forall>e \<in> set (b_symlinks b). metadata_ok (se_metadata e)"
    using s collect_acc_is_ok [of "\<lambda>e w. tree_context ''encode symlink node'' (encode_symlink_node e w)"
        "\<lambda>e. metadata_ok (se_metadata e)"] by (metis encode_node_is_ok(3) is_ok_result_context is_ok_simps(1) set_sort)
  ultimately show "builder_ok b"
    using r by (simp add: builder_ok_def reject_duplicate_names_eq_Ok)
qed (simp add: builder_encode_eq)

lemma builder_encode_OkD:
  "builder_encode sha enc b = Ok ed \<Longrightarrow> builder_ok b \<and> ed_directory ed = canonical_directory b \<and>
     ed_bytes ed = enc (ed_directory ed) \<and> ed_digest ed = for_bytes sha (ed_bytes ed) \<and>
     ed_warnings ed = builder_warnings b"
  using builder_encode_is_ok [of sha enc b] builder_encode_eq [of b sha enc] by auto

section \<open>Decoding characterised\<close>

lemma validate_sorted_from_eq_Ok:
  "validate_sorted_from previous names = Ok u \<longleftrightarrow>
     sorted_wrt (<) ((case previous of None \<Rightarrow> [] | Some p \<Rightarrow> [p]) @ names)"
proof (induction previous names rule: validate_sorted_from.induct)
  case (2 previous name names)
  then show ?case by (cases previous) (auto simp: not_le intro: less_trans)
qed (simp split: option.splits)

lemma validate_sorted_names_eq_Ok [result_simps]:
  "validate_sorted_names names = Ok u \<longleftrightarrow> sorted_wrt (<) names"
  by (simp add: validate_sorted_names_def validate_sorted_from_eq_Ok)

lemma validate_names_from_eq_Ok [result_simps]:
  "validate_names_from seen names = Ok u \<longleftrightarrow>
     (\<forall>n \<in> set names. valid_name n) \<and> distinct names \<and> set names \<inter> set seen = {}"
  by (induction seen names rule: validate_names_from.induct) (auto simp: result_simps)

text \<open>What a directory accepted by the decoder satisfies.\<close>

definition wf_directory :: "directory \<Rightarrow> bool" where
  "wf_directory d \<longleftrightarrow>
     sorted_wrt (<) (map fn_name (dir_files d)) \<and> sorted_wrt (<) (map dn_name (dir_directories d)) \<and>
     sorted_wrt (<) (map sn_name (dir_symlinks d)) \<and>
     distinct (directory_names d) \<and> (\<forall>n \<in> set (directory_names d). valid_name n) \<and>
     props_ok (dir_node_properties d) \<and>
     (\<forall>n \<in> set (dir_files d). digest_field_ok (fn_digest n) \<and> props_ok (fn_node_properties n)) \<and>
     (\<forall>n \<in> set (dir_directories d). digest_field_ok (dn_digest n)) \<and>
     (\<forall>n \<in> set (dir_symlinks d). props_ok (sn_node_properties n))"

lemma validate_directory_eq_Ok [result_simps]: "validate_directory d = Ok u \<longleftrightarrow> wf_directory d"
  unfolding validate_directory_def wf_directory_def
  by (simp add: result_simps) blast

lemma decode_directory_eq_Ok:
  "decode_directory sha dec expected bs = Ok d \<longleftrightarrow>
     for_bytes sha bs = expected \<and> dec bs = Ok d \<and> wf_directory d"
  by (auto simp: decode_directory_def Let_def result_simps)

section \<open>What a builder can hold\<close>

text \<open>The fields of \<^verbatim>\<open>DirectoryBuilder\<close> are private: its values come from these calls.\<close>

inductive built :: "directory_builder \<Rightarrow> bool" where
  built_new: "built builder_new"
| built_with_metadata: "built (builder_with_metadata md)"
| built_file: "built b \<Longrightarrow> valid_digest (fe_digest e) \<Longrightarrow> add_file b e = Ok b' \<Longrightarrow> built b'"
| built_directory: "built b \<Longrightarrow> valid_digest (de_digest e) \<Longrightarrow> add_directory b e = Ok b' \<Longrightarrow> built b'"
| built_symlink: "built b \<Longrightarrow> add_symlink b e = Ok b' \<Longrightarrow> built b'"

lemma add_eq_Ok [result_simps]:
  "add_file b fe = Ok b' \<longleftrightarrow> valid_name (fe_name fe) \<and> b' = b\<lparr>b_files := b_files b @ [fe]\<rparr>"
  "add_directory b de = Ok b' \<longleftrightarrow>
     valid_name (de_name de) \<and> b' = b\<lparr>b_directories := b_directories b @ [de]\<rparr>"
  "add_symlink b se = Ok b' \<longleftrightarrow> valid_name (se_name se) \<and> b' = b\<lparr>b_symlinks := b_symlinks b @ [se]\<rparr>"
  by (auto simp: add_file_def add_directory_def add_symlink_def result_simps)

lemma built_names: "built b \<Longrightarrow> \<forall>n \<in> set (builder_names b). valid_name n"
  by (induction rule: built.induct)
    (auto simp: builder_new_def builder_with_metadata_def builder_names_def result_simps)

lemma built_digests:
  "built b \<Longrightarrow> (\<forall>e \<in> set (b_files b). valid_digest (fe_digest e)) \<and>
     (\<forall>e \<in> set (b_directories b). valid_digest (de_digest e))"
  by (induction rule: built.induct)
    (auto simp: builder_new_def builder_with_metadata_def result_simps)

lemma node_of_names [simp]:
  "fn_name (file_node_of fe) = fe_name fe" "dn_name (directory_node_of de) = de_name de"
  "sn_name (symlink_node_of se) = se_name se"
  by (simp_all add: file_node_of_def directory_node_of_def symlink_node_of_def)

lemma node_of_names_comp [simp]:
  "fn_name \<circ> file_node_of = fe_name" "dn_name \<circ> directory_node_of = de_name"
  "sn_name \<circ> symlink_node_of = se_name"
  by (simp_all add: fun_eq_iff)

lemma canonical_names: "directory_names (canonical_directory b) = builder_names (sort_entries b)"
  by (simp add: directory_names_def canonical_directory_def builder_names_def)

lemma to_reapi_field_ok: "valid_digest d \<Longrightarrow> digest_field_ok (Some (to_reapi d))"
  by (auto simp: digest_field_ok_def)

lemma canonical_wf:
  assumes "built b" and "builder_ok b"
  shows "wf_directory (canonical_directory b)"
proof -
  have set_names: "set (builder_names (sort_entries b)) = set (builder_names b)"
    by (metis mset_builder_names_sort mset_eq_setD)
  have dist: "distinct (map fe_name (b_files b))" "distinct (map de_name (b_directories b))"
    "distinct (map se_name (b_symlinks b))"
    using assms(2) by (auto simp: builder_ok_def builder_names_def)
  have root: "props_ok (Option.bind (b_metadata b) norm_props)"
    using assms(2) by (cases "b_metadata b") (simp_all add: builder_ok_def norm_props_ok, simp add: props_ok_def)
  show ?thesis
    using sort_key_strict [OF dist(1)] sort_key_strict [OF dist(2)] sort_key_strict [OF dist(3)]
      built_names [OF assms(1)] built_digests [OF assms(1)] assms(2) root
    unfolding wf_directory_def canonical_names set_names distinct_builder_names_sort
    by (auto simp: canonical_directory_def builder_ok_def file_node_of_def
        directory_node_of_def symlink_node_of_def norm_props_ok to_reapi_field_ok comp_def)
qed

section \<open>Insertion order\<close>

text \<open>Two builders hold the same entries when they differ only in the order of insertion.\<close>

definition same_entries :: "directory_builder \<Rightarrow> directory_builder \<Rightarrow> bool" where
  "same_entries b c \<longleftrightarrow> b_metadata b = b_metadata c \<and> mset (b_files b) = mset (b_files c) \<and>
     mset (b_directories b) = mset (b_directories c) \<and> mset (b_symlinks b) = mset (b_symlinks c)"

lemma same_entries_sort:
  assumes "same_entries b c" and "distinct (builder_names b)"
  shows "sort_entries b = sort_entries c"
  using assms by (auto simp: sort_entries_def same_entries_def builder_names_def
      intro!: directory_builder.equality intro: sort_key_perm)

lemma builder_encode_sort_cong:
  "sort_entries b = sort_entries c \<Longrightarrow> builder_encode sha enc b = builder_encode sha enc c"
  by (simp add: builder_encode_def)

section \<open>Warnings counted\<close>

definition builder_modes :: "directory_builder \<Rightarrow> u32 list" where
  "builder_modes b = List.map_filter nm_mode
     (case_option [] (\<lambda>m. [m]) (b_metadata b) @ map fe_metadata (b_files b) @
      map de_metadata (b_directories b) @ map se_metadata (b_symlinks b))"

definition mode_has :: "u32 \<Rightarrow> u32 \<Rightarrow> bool" where
  "mode_has b m \<longleftrightarrow> m AND b \<noteq> 0"

lemma warnings_merge_sel [simp]:
  "masked_setuid (warnings_merge v w) = masked_setuid v + masked_setuid w"
  "masked_setgid (warnings_merge v w) = masked_setgid v + masked_setgid w"
  "absolute_symlinks (warnings_merge v w) = absolute_symlinks v + absolute_symlinks w"
  "escaping_symlinks (warnings_merge v w) = escaping_symlinks v + escaping_symlinks w"
  by (simp_all add: warnings_merge_def)

lemma no_warnings_sel [simp]:
  "masked_setuid no_warnings = 0" "masked_setgid no_warnings = 0"
  "absolute_symlinks no_warnings = 0" "escaping_symlinks no_warnings = 0"
  by (simp_all add: no_warnings_def)

lemma fold_warnings_merge:
  assumes "\<And>v w. field (warnings_merge v w) = field v + (field w :: nat)"
  shows "field (fold (\<lambda>e w. warnings_merge w (g e)) xs w) = field w + (\<Sum>e\<leftarrow>xs. field (g e))"
  using assms by (induction xs arbitrary: w) (simp_all add: algebra_simps)

lemma sum_list_sort_key: "(\<Sum>x\<leftarrow>sort_key k xs. (f x :: nat)) = (\<Sum>x\<leftarrow>xs. f x)"
  by (metis mset_map mset_sort sum_mset_sum_list)

lemmas fold_warnings =
  fold_warnings_merge [of masked_setuid, OF warnings_merge_sel(1)]
  fold_warnings_merge [of masked_setgid, OF warnings_merge_sel(2)]
  fold_warnings_merge [of absolute_symlinks, OF warnings_merge_sel(3)]
  fold_warnings_merge [of escaping_symlinks, OF warnings_merge_sel(4)]

definition mode_count :: "u32 \<Rightarrow> node_metadata \<Rightarrow> nat" where
  "mode_count b md = (case nm_mode md of None \<Rightarrow> 0 | Some m \<Rightarrow> of_bool (mode_has b m))"

lemma metadata_warnings_masked:
  "masked_setuid (metadata_warnings md) = mode_count SETUID_BIT md"
  "masked_setgid (metadata_warnings md) = mode_count SETGID_BIT md"
  by (simp_all add: metadata_warnings_def mode_warnings_def mode_has_def mode_count_def Let_def
      split: option.splits)

lemma length_filter_modes:
  "length (filter (mode_has b) (List.map_filter nm_mode mds)) = (\<Sum>md\<leftarrow>mds. mode_count b md)"
  by (induction mds) (simp_all add: map_filter_simps mode_count_def split: option.splits)

lemma symlink_warnings_sel [simp]:
  "masked_setuid (symlink_warnings e) = masked_setuid (metadata_warnings (se_metadata e))"
  "masked_setgid (symlink_warnings e) = masked_setgid (metadata_warnings (se_metadata e))"
  "absolute_symlinks (symlink_warnings e) = of_bool (take 1 (se_target e) = ''/'')"
  "escaping_symlinks (symlink_warnings e) = of_bool (target_escapes (se_target e))"
  by (simp_all add: symlink_warnings_def)

lemma length_filter_of_bool: "length (filter P xs) = (\<Sum>x\<leftarrow>xs. of_bool (P x))"
  by (induction xs) simp_all

lemma builder_warnings_masked:
  "masked_setuid (builder_warnings b) = length (filter (mode_has SETUID_BIT) (builder_modes b))"
  "masked_setgid (builder_warnings b) = length (filter (mode_has SETGID_BIT) (builder_modes b))"
  unfolding builder_modes_def length_filter_modes builder_warnings_def fold_warnings sum_list_sort_key
    metadata_warnings_masked symlink_warnings_sel
  by (cases "b_metadata b"; simp add: comp_def metadata_warnings_masked; fail)+

lemma builder_warnings_symlinks:
  "absolute_symlinks (builder_warnings b) =
     length (filter (\<lambda>e. take 1 (se_target e) = ''/'') (b_symlinks b))"
  "escaping_symlinks (builder_warnings b) =
     length (filter (\<lambda>e. target_escapes (se_target e)) (b_symlinks b))"
  unfolding builder_warnings_def fold_warnings sum_list_sort_key symlink_warnings_sel length_filter_of_bool
  by (cases "b_metadata b"; simp; fail)+

section \<open>Escaping symlink targets\<close>

text \<open>
  The depth reached after a list of components, and the specification of an escape: some prefix of
  the target climbs above the directory of the link. The counter is \<^verbatim>\<open>i32\<close>; it counts components, so it
  stays in range for every target shorter than \<open>2 ^ 31\<close> bytes.
\<close>

definition component_step :: "string \<Rightarrow> int" where
  "component_step c = (if c = [] \<or> c = ''.'' then 0 else if c = ''..'' then - 1 else 1)"

definition climbs_above :: "string list \<Rightarrow> bool" where
  "climbs_above cs \<longleftrightarrow> (\<exists>k \<le> length cs. (\<Sum>c\<leftarrow>take k cs. component_step c) < 0)"

lemma escapes_from_iff:
  "0 \<le> d \<Longrightarrow> escapes_from d cs \<longleftrightarrow> (\<exists>k \<le> length cs. d + (\<Sum>c\<leftarrow>take k cs. component_step c) < 0)"
proof (induction d cs rule: escapes_from.induct)
  case (2 d c cs)
  have split: "(\<exists>k \<le> length (c # cs). d + (\<Sum>x\<leftarrow>take k (c # cs). component_step x) < 0) \<longleftrightarrow>
      (\<exists>k \<le> length cs. (d + component_step c) + (\<Sum>x\<leftarrow>take k cs. component_step x) < 0)"
    (is "?L \<longleftrightarrow> ?R")
  proof
    assume ?L
    then obtain k where k: "k \<le> length (c # cs)" "d + (\<Sum>x\<leftarrow>take k (c # cs). component_step x) < 0" by blast
    with "2.prems" obtain j where "k = Suc j" by (cases k) auto
    with k show ?R by (intro exI [of _ j]) (simp add: algebra_simps)
  next
    assume ?R
    then obtain j where "j \<le> length cs" "(d + component_step c) + (\<Sum>x\<leftarrow>take j cs. component_step x) < 0" by blast
    then show ?L by (intro exI [of _ "Suc j"]) (simp add: algebra_simps)
  qed
  have zero: "(\<exists>k \<le> length cs. - 1 + (\<Sum>x\<leftarrow>take k cs. component_step x) < 0)"
    by (intro exI [of _ 0]) simp
  show ?case
  proof (cases "c = [] \<or> c = ''.'' \<or> c = ''..''")
    case True
    then have "component_step c = (if c = ''..'' then - 1 else 0)" by (auto simp: component_step_def)
    with True 2 zero show ?thesis unfolding split by (cases "c = ''..''"; cases "d = 0") auto
  next
    case False
    with 2 show ?thesis unfolding split by (simp add: component_step_def [of c])
  qed
qed auto

lemma target_escapes_iff: "target_escapes t \<longleftrightarrow> climbs_above (split_on CHR ''/'' t)"
  by (simp add: target_escapes_def climbs_above_def escapes_from_iff)

section \<open>Properties\<close>

definition demo_sha :: "bytes \<Rightarrow> string" where
  "demo_sha bs = replicate 64 (if bs = [] then CHR ''0'' else CHR ''a'')"

definition demo_metadata :: node_metadata where
  "demo_metadata = \<lparr>nm_mode = Some 0x9ED, nm_mtime = Some \<lparr>ts_seconds = 5, ts_nanos = 7\<rparr>, nm_kind = File\<rparr>"

definition demo_builder :: directory_builder where
  "demo_builder =
     \<lparr>b_metadata = None,
      b_files = [\<lparr>fe_name = ''b'', fe_digest = demo_digest, fe_metadata = demo_metadata\<rparr>,
                 \<lparr>fe_name = ''a'', fe_digest = demo_digest, fe_metadata = demo_metadata\<rparr>],
      b_directories = [],
      b_symlinks = [\<lparr>se_name = ''l'', se_target = ''x/../../y'',
                     se_metadata = demo_metadata\<lparr>nm_kind := Symlink\<rparr>\<rparr>]\<rparr>"

definition demo_builder_reordered :: directory_builder where
  "demo_builder_reordered = demo_builder\<lparr>b_files := rev (b_files demo_builder)\<rparr>"

lemma demo_builder_built: "built demo_builder"
proof -
  let ?b1 = "builder_new\<lparr>b_files := [b_files demo_builder ! 0]\<rparr>"
  let ?b2 = "builder_new\<lparr>b_files := b_files demo_builder\<rparr>"
  have "built ?b1"
    by (rule built_file [OF built_new, of "b_files demo_builder ! 0"])
      (simp_all add: demo_builder_def demo_digest_valid add_eq_Ok valid_name_def builder_new_def)
  then have "built ?b2"
    by (rule built_file [of _ "b_files demo_builder ! 1"])
      (simp_all add: demo_builder_def demo_digest_valid add_eq_Ok valid_name_def builder_new_def)
  then show ?thesis
    by (rule built_symlink [of _ "b_symlinks demo_builder ! 0"])
      (simp_all add: demo_builder_def add_eq_Ok valid_name_def builder_new_def)
qed

lemma demo_builder_ok: "builder_ok demo_builder"
  by (simp add: builder_ok_def builder_names_def demo_builder_def demo_metadata_def metadata_ok_def
      valid_timestamp_def MIN_TIMESTAMP_SECONDS_def MAX_TIMESTAMP_SECONDS_def)

text \<open>
  C22 Round trip. A directory made with the builder's own calls and encoded is accepted by the decoder
  under the digest that the encoder returned, and decodes to the directory that was encoded. The only
  assumption on the wire codec is that it decodes the one message that was encoded.
\<close>

theorem encode_decode_roundtrip:
  assumes "built b" and "builder_encode sha enc b = Ok ed"
    and "dec (enc (ed_directory ed)) = Ok (ed_directory ed)"
  shows "decode_directory sha dec (ed_digest ed) (ed_bytes ed) = Ok (ed_directory ed)"
  using builder_encode_OkD [OF assms(2)] canonical_wf [OF assms(1)] assms(3)
  by (simp add: decode_directory_eq_Ok)

theorem encode_decode_roundtrip_witness:
  "\<exists>ed. builder_encode demo_sha (\<lambda>_. [1]) demo_builder = Ok ed \<and>
     decode_directory demo_sha (\<lambda>_. Ok (canonical_directory demo_builder)) (ed_digest ed) (ed_bytes ed) =
       Ok (ed_directory ed)"
proof -
  obtain ed where ed: "builder_encode demo_sha (\<lambda>_. [1]) demo_builder = Ok ed"
    using demo_builder_ok builder_encode_eq by blast
  then have "ed_directory ed = canonical_directory demo_builder"
    using builder_encode_OkD by blast
  then show ?thesis
    using encode_decode_roundtrip [OF demo_builder_built ed,
        of "\<lambda>_. Ok (canonical_directory demo_builder)"] ed by simp
qed

text \<open>
  C23 Canonical form. The order in which entries were added has no effect on the encoding: two builders
  with the same root metadata and the same entries, whose names are distinct, encode to the same
  bytes, digest and warnings, or fail with the same error.
\<close>

theorem encode_order_independent:
  assumes "same_entries b c" and "distinct (builder_names b)"
  shows "builder_encode sha enc b = builder_encode sha enc c"
  using builder_encode_sort_cong [OF same_entries_sort [OF assms]] .

theorem encode_order_independent_witness:
  "demo_builder \<noteq> demo_builder_reordered \<and>
   builder_encode demo_sha (\<lambda>_. [1]) demo_builder = builder_encode demo_sha (\<lambda>_. [1]) demo_builder_reordered"
proof
  show "demo_builder \<noteq> demo_builder_reordered"
    by (simp add: demo_builder_def demo_builder_reordered_def)
  show "builder_encode demo_sha (\<lambda>_. [1]) demo_builder = builder_encode demo_sha (\<lambda>_. [1]) demo_builder_reordered"
    by (rule encode_order_independent)
      (simp_all add: same_entries_def builder_names_def demo_builder_def demo_builder_reordered_def)
qed

text \<open>
  C24 When encoding succeeds, and with what. The encoder fails exactly when two entries share a name,
  across kinds too, or some mtime is out of the supported range; otherwise it returns the sorted
  directory with masked modes, its bytes and the digest of those bytes.
\<close>

theorem encode_succeeds_exactly:
  "builder_encode sha enc b = Ok ed \<longleftrightarrow>
     builder_ok b \<and>
     ed = \<lparr>ed_digest = for_bytes sha (enc (canonical_directory b)),
           ed_bytes = enc (canonical_directory b),
           ed_directory = canonical_directory b, ed_warnings = builder_warnings b\<rparr>"
  using builder_encode_eq [of b sha enc] builder_encode_OkD [of sha enc b ed] by auto

text \<open>
  C25 What the decoder accepts. Bytes are accepted exactly when they hash to the expected digest, the codec decodes them, each kind is
  strictly sorted by name, no name occurs twice over all kinds, every name is a single path component, every file and
  child directory has a valid digest, and the timestamps of the directory itself, its files and its symlinks are in range. The timestamps of
  child directory nodes are not among the conditions: the code does not look at them, although its comment asks
  for valid metadata (\<open>decode_ignores_directory_properties\<close> below).
\<close>

theorem decode_accepts_exactly:
  "decode_directory sha dec expected bs = Ok d \<longleftrightarrow>
     for_bytes sha bs = expected \<and> dec bs = Ok d \<and>
     sorted_wrt (<) (map fn_name (dir_files d)) \<and> sorted_wrt (<) (map dn_name (dir_directories d)) \<and>
     sorted_wrt (<) (map sn_name (dir_symlinks d)) \<and>
     distinct (map fn_name (dir_files d) @ map dn_name (dir_directories d) @ map sn_name (dir_symlinks d)) \<and>
     (\<forall>name. name \<in> fn_name ` set (dir_files d) \<or> name \<in> dn_name ` set (dir_directories d) \<or> name \<in> sn_name ` set (dir_symlinks d) \<longrightarrow>
        name \<noteq> [] \<and> name \<noteq> ''.'' \<and> name \<noteq> ''..'' \<and> CHR ''/'' \<notin> set name) \<and>
     props_ok (dir_node_properties d) \<and>
     (\<forall>n \<in> set (dir_files d). digest_field_ok (fn_digest n) \<and> props_ok (fn_node_properties n)) \<and>
     (\<forall>n \<in> set (dir_directories d). digest_field_ok (dn_digest n)) \<and>
     (\<forall>n \<in> set (dir_symlinks d). props_ok (sn_node_properties n))"
  unfolding decode_directory_eq_Ok wf_directory_def directory_names_def by (auto simp: valid_name_def)

text \<open>A directory with a link is accepted, and rejected when the link has no name.\<close>

definition demo_link_directory :: directory where
  "demo_link_directory = \<lparr>dir_files = [], dir_directories = [],
     dir_symlinks = [\<lparr>sn_name = ''l'', sn_target = ''t'', sn_node_properties = None\<rparr>], dir_node_properties = None\<rparr>"

theorem decode_accepts_exactly_witness:
  "decode_directory demo_sha (\<lambda>_. Ok demo_link_directory) (for_bytes demo_sha []) [] = Ok demo_link_directory \<and>
   decode_directory demo_sha (\<lambda>_. Ok (demo_link_directory\<lparr>dir_symlinks := [\<lparr>sn_name = [], sn_target = ''t'', sn_node_properties = None\<rparr>]\<rparr>))
     (for_bytes demo_sha []) [] \<noteq> Ok (demo_link_directory\<lparr>dir_symlinks := [\<lparr>sn_name = [], sn_target = ''t'', sn_node_properties = None\<rparr>]\<rparr>)"
  unfolding decode_accepts_exactly by (simp add: demo_link_directory_def props_ok_def)

text \<open>
  Warnings. The counters returned by a successful encoding are the number of nodes (the root
  included) whose mode had setuid, the number with setgid, and the number of symlinks with an
  absolute target and with a target of which some prefix climbs above the link's directory.
\<close>

theorem encode_warnings_exact:
  assumes "builder_encode sha enc b = Ok ed"
  shows "masked_setuid (ed_warnings ed) = length (filter (mode_has SETUID_BIT) (builder_modes b)) \<and>
    masked_setgid (ed_warnings ed) = length (filter (mode_has SETGID_BIT) (builder_modes b)) \<and>
    absolute_symlinks (ed_warnings ed) =
      length (filter (\<lambda>e. take 1 (se_target e) = ''/'') (b_symlinks b)) \<and>
    escaping_symlinks (ed_warnings ed) =
      length (filter (\<lambda>e. climbs_above (split_on CHR ''/'' (se_target e))) (b_symlinks b))"
  using builder_encode_OkD [OF assms]
  by (simp add: builder_warnings_masked builder_warnings_symlinks target_escapes_iff)

theorem encode_warnings_exact_witness:
  "\<exists>ed. builder_encode demo_sha (\<lambda>_. [1]) demo_builder = Ok ed \<and>
     masked_setuid (ed_warnings ed) = 3 \<and> escaping_symlinks (ed_warnings ed) = 1"
proof -
  obtain ed where ed: "builder_encode demo_sha (\<lambda>_. [1]) demo_builder = Ok ed"
    using demo_builder_ok builder_encode_eq by blast
  have "target_escapes ''x/../../y''" by (simp add: target_escapes_def)
  then show ?thesis
    using encode_warnings_exact [OF ed] ed
    by (simp add: builder_modes_def demo_builder_def demo_metadata_def mode_has_def SETUID_BIT_def
        target_escapes_iff)
qed

text \<open>
  Normalised modes. Normalising never leaves a set-user-id, set-group-id or file-type bit: the
  mode of a normalised node is at most 0o1777, the sticky bit survives only on directories, and
  normalising again changes nothing and counts nothing.
\<close>

lemma normalize_mode_bound:
  assumes "normalize md path = Ok (md', w)"
  shows "(\<forall>m. nm_mode md' = Some m \<longrightarrow> m \<le> 0x3FF \<and> (nm_kind md \<noteq> Directory \<longrightarrow> m \<le> 0x1FF)) \<and>
    normalize md' path' = Ok (md', no_warnings)"
proof -
  have md': "md' = norm_metadata md" and ok: "metadata_ok md"
    using assms by (simp_all add: normalize_eq split: if_splits)
  have "m \<le> 0x1FF" if "nm_mode md' = Some m" "nm_kind md \<noteq> Directory" for m
    using that unfolding md'
    by (cases "nm_kind md") (auto simp: norm_metadata_def FILE_MODE_MASK_def SYMLINK_MODE_MASK_def
        PERMISSION_BITS_def intro: word_and_le1)
  moreover have "metadata_warnings md' = no_warnings"
    unfolding md' by (rule norm_metadata_warnings)
  moreover have "metadata_ok md'" using ok by (simp add: md' norm_metadata_def metadata_ok_def)
  ultimately show ?thesis
    using norm_metadata_mode_bound norm_metadata_idem
    by (auto simp: normalize_eq md' simp del: word_le_nat_alt)
qed

text \<open>
  A gap between the decoder and its documentation. The comment on \<^verbatim>\<open>decode_directory\<close> says that the
  decoded directory must contain valid metadata, but the loop over directory nodes never looks at
  their properties: replacing the properties of the child directories, by an out-of-range mtime for
  instance, never changes the verdict.
\<close>

theorem decode_ignores_directory_properties:
  "validate_directory (d\<lparr>dir_directories := map (\<lambda>n. n\<lparr>dn_node_properties := f n\<rparr>) (dir_directories d)\<rparr>) =
   validate_directory d"
proof -
  have "for_each (\<lambda>n. validate_node_digest (dn_name n) (dn_digest n))
      (map (\<lambda>n. n\<lparr>dn_node_properties := f n\<rparr>) ns) =
    for_each (\<lambda>n. validate_node_digest (dn_name n) (dn_digest n)) ns" for ns
    by (induction ns) simp_all
  then show ?thesis by (simp add: validate_directory_def directory_names_def comp_def)
qed

end
