(* ===== verification/Session_Types.thy ===== *)
theory Session_Types
  imports Tree
begin

text \<open>
  The value types of the session layer (\<^verbatim>\<open>crates/rfs-common/src/session.rs\<close>): inode identities, node
  times, the visible inode, lifecycle, counters and the session error. An \<^verbatim>\<open>i64\<close> newtype is a datatype
  over \<open>int\<close>; the field is private in the source, so identities come from \<open>inode_new\<close>, \<open>from_sqlite\<close> or
  \<open>ROOT\<close>, which establish \<open>valid_inode_id\<close>.
\<close>

section \<open>Errors\<close>

text \<open>The failures of the SQLite bindings that the store can meet.\<close>

datatype rusqlite_error =
    SqliteFailure string
  | InvalidColumnType string

datatype session_error =
    InternalError string
  | FailedPreconditionError string
  | NotFound string
  | NotDirectory string
  | IsDirectory string
  | Database string string rusqlite_error
  | Context string session_error

abbreviation session_context ::
  "string \<Rightarrow> ('a, session_error) result \<Rightarrow> ('a, session_error) result" where
  "session_context \<equiv> result_context Context"

fun session_root_cause :: "session_error \<Rightarrow> session_error" where
  "session_root_cause (Context op e) = session_root_cause e"
| "session_root_cause e = e"

interpretation session_ctx: result_context_error Context session_root_cause
  by unfold_locales simp

definition is_failed_precondition :: "session_error \<Rightarrow> bool" where
  "is_failed_precondition e =
     (case session_root_cause e of FailedPreconditionError _ \<Rightarrow> True | _ \<Rightarrow> False)"

lemma is_failed_precondition_simps [simp]:
  "is_failed_precondition (Context op e) = is_failed_precondition e"
  "is_failed_precondition (FailedPreconditionError r)"
  "\<not> is_failed_precondition (InternalError r)"
  "\<not> is_failed_precondition (Database a b c)"
  by (simp_all add: is_failed_precondition_def)

section \<open>Inode identities\<close>

datatype inode_id = InodeId (sqlite: int)

definition ROOT :: inode_id where
  "ROOT = InodeId 1"

definition inode_new :: "u64 \<Rightarrow> (inode_id, session_error) result" where
  "inode_new w =
     (case i64_try_from_u64 w of
        None \<Rightarrow> Err (InternalError ''validate external inode value: outside the supported range'')
      | Some v \<Rightarrow>
          if v = 0 then Err (InternalError ''validate external inode value 0: inode is not positive'')
          else Ok (InodeId v))"

text \<open>
  \<^verbatim>\<open>get\<close> calls \<^verbatim>\<open>expect\<close> on the conversion; \<open>get_no_panic\<close> shows that it succeeds on every valid identity.
\<close>

definition inode_get :: "inode_id \<Rightarrow> u64" where
  "inode_get i = word_of_int (sqlite i)"

definition from_sqlite :: "int \<Rightarrow> (inode_id, session_error) result" where
  "from_sqlite v =
     (if v \<le> 0 then Err (InternalError ''decode stored inode: value is not positive'')
      else Ok (InodeId v))"

definition valid_inode_id :: "inode_id \<Rightarrow> bool" where
  "valid_inode_id i \<longleftrightarrow> 0 < sqlite i \<and> is_i64 (sqlite i)"

text \<open>\<^verbatim>\<open>#[derive(PartialOrd, Ord)]\<close> on the newtype.\<close>

instantiation inode_id :: linorder
begin

definition less_eq_inode_id :: "inode_id \<Rightarrow> inode_id \<Rightarrow> bool" where
  "less_eq_inode_id a b \<longleftrightarrow> sqlite a \<le> sqlite b"

definition less_inode_id :: "inode_id \<Rightarrow> inode_id \<Rightarrow> bool" where
  "less_inode_id a b \<longleftrightarrow> sqlite a < sqlite b"

instance
  by standard (auto simp: less_eq_inode_id_def less_inode_id_def inode_id.expand)

end

lemma inode_id_eq_iff: "i = j \<longleftrightarrow> sqlite i = sqlite j"
  by (cases i; cases j) simp

lemma sqlite_ROOT [simp]: "sqlite ROOT = 1"
  by (simp add: ROOT_def)

lemma valid_ROOT [simp]: "valid_inode_id ROOT"
  by (simp add: valid_inode_id_def is_i64_def)

lemma from_sqlite_eq_Ok [result_simps]: "from_sqlite v = Ok i \<longleftrightarrow> 0 < v \<and> i = InodeId v"
  by (auto simp: from_sqlite_def)

lemma from_sqlite_sqlite [simp]: "valid_inode_id i \<Longrightarrow> from_sqlite (sqlite i) = Ok i"
  by (simp add: from_sqlite_def valid_inode_id_def)

lemma uint_inode_get: "valid_inode_id i \<Longrightarrow> uint (inode_get i) = sqlite i"
  by (simp add: inode_get_def valid_inode_id_def is_i64_def uint_word_of_int_u64)

lemma get_no_panic: "valid_inode_id i \<Longrightarrow> u64_try_from_i64 (sqlite i) = Some (inode_get i)"
  by (simp add: conv_simps inode_get_def valid_inode_id_def)

lemma inode_new_eq_Ok: "inode_new w = Ok i \<longleftrightarrow> valid_inode_id i \<and> inode_get i = w"
proof
  assume "inode_new w = Ok i"
  then have "i = InodeId (uint w)" "uint w \<noteq> 0" "uint w \<le> i64_max"
    by (auto simp: inode_new_def conv_simps split: if_splits)
  moreover have "0 \<le> uint w" by simp
  ultimately show "valid_inode_id i \<and> inode_get i = w"
    by (auto simp: valid_inode_id_def is_i64_def inode_get_def le_less simp del: uint_ge_0)
next
  assume i: "valid_inode_id i \<and> inode_get i = w"
  then have "uint w = sqlite i" using uint_inode_get by blast
  with i show "inode_new w = Ok i"
    by (auto simp: inode_new_def conv_simps valid_inode_id_def is_i64_def)
qed

section \<open>Node times\<close>

record node_time =
  nt_seconds :: int
  nt_nanos :: u32

definition SESSION_MIN_TIMESTAMP_SECONDS :: int where
  "SESSION_MIN_TIMESTAMP_SECONDS = - 62135596800"

definition SESSION_MAX_TIMESTAMP_SECONDS :: int where
  "SESSION_MAX_TIMESTAMP_SECONDS = 253402300799"

definition UNIX_EPOCH :: node_time where
  "UNIX_EPOCH = \<lparr>nt_seconds = 0, nt_nanos = 0\<rparr>"

definition node_time_new :: "int \<Rightarrow> u32 \<Rightarrow> node_time option" where
  "node_time_new seconds nanos =
     (if SESSION_MIN_TIMESTAMP_SECONDS \<le> seconds \<and> seconds \<le> SESSION_MAX_TIMESTAMP_SECONDS \<and>
         nanos < 1000000000
      then Some \<lparr>nt_seconds = seconds, nt_nanos = nanos\<rparr> else None)"

definition valid_node_time :: "node_time \<Rightarrow> bool" where
  "valid_node_time t \<longleftrightarrow> node_time_new (nt_seconds t) (nt_nanos t) = Some t"

lemma node_time_new_eq_Some: "node_time_new s n = Some t \<longleftrightarrow> valid_node_time t \<and> nt_seconds t = s \<and> nt_nanos t = n"
  by (auto simp: node_time_new_def valid_node_time_def split: if_splits)

section \<open>Visible values\<close>

record inode =
  i_inode :: inode_id
  i_parent :: inode_id
  i_name :: string
  i_kind :: node_kind
  i_size :: u64
  i_mode :: u32
  i_mtime :: node_time
  i_symlink_target :: "string option"

datatype session_lifecycle = Initializing | Active | Closed

fun lifecycle_text :: "session_lifecycle \<Rightarrow> string" where
  "lifecycle_text Initializing = ''initializing''"
| "lifecycle_text Active = ''active''"
| "lifecycle_text Closed = ''closed''"

record session_info =
  info_root_digest :: digest
  info_mountpoint :: string
  info_daemon_pid :: u32
  info_control_endpoint :: string
  info_closed :: bool

record io_counters =
  directory_downloads :: u64
  directory_cache_hits :: u64
  file_downloads :: u64
  file_cache_hits :: u64

end
