(* ===== verification/Store.thy ===== *)
theory Store
  imports Session_Types
begin

text \<open>
  The SQLite repository of a session (\<^verbatim>\<open>session/store.rs\<close>, \<^verbatim>\<open>session/schema.sql\<close>): the two tables, the
  statements the store runs, row validation, directory materialisation, the lifecycle. A statement's
  meaning is that of its SQL text under the schema: \<^verbatim>\<open>AUTOINCREMENT\<close> ids, the unique index on
  \<^verbatim>\<open>(parent_id, name)\<close> (null parents are distinct), the foreign key on \<^verbatim>\<open>parent_id\<close>, \<^verbatim>\<open>ORDER BY name\<close>
  bytewise. What the engine can fail with for reasons of its own (I/O, locks, a missing table) is the
  parameter \<open>sql_fault\<close>, indexed by the operation and the database it runs on. A transaction body maps
  a database to a result and the database as written so far, so that a failing body leaves partial
  writes that \<open>with_transaction\<close> has to undo.
\<close>

section \<open>Rows and tables\<close>

record inode_row =
  ir_id :: int
  ir_parent_id :: "int option"
  ir_name :: string
  ir_kind :: string
  ir_mode :: "int option"
  ir_mtime_seconds :: "int option"
  ir_mtime_nanos :: "int option"
  ir_tombstone :: int
  ir_file_remote_digest :: "string option"
  ir_file_overlay_path :: "string option"
  ir_file_content_dirty :: "int option"
  ir_symlink_target :: "string option"
  ir_directory_remote_digest :: "string option"
  ir_directory_loaded :: "int option"

text \<open>The columns of \<^verbatim>\<open>session_metadata\<close>, all nullable but the key, and the row decoded from them.\<close>

record session_metadata_columns =
  smc_session_id :: "string option"
  smc_daemon_pid :: "int option"
  smc_lifecycle :: "string option"
  smc_root_digest_hash :: "string option"
  smc_root_digest_size :: "int option"
  smc_mountpoint :: "string option"
  smc_created_at_seconds :: "int option"
  smc_closed_at_seconds :: "int option"
  smc_log_level :: "string option"
  smc_log_format :: "string option"

record session_metadata_row =
  smr_singleton :: int
  smr_session_id :: string
  smr_daemon_pid :: int
  smr_lifecycle :: string
  smr_root_digest_hash :: string
  smr_root_digest_size :: int
  smr_mountpoint :: string
  smr_created_at_seconds :: int
  smr_closed_at_seconds :: "int option"
  smr_log_level :: string
  smr_log_format :: string

text \<open>\<open>db_sequence\<close> is the row of \<^verbatim>\<open>inodes\<close> in \<^verbatim>\<open>sqlite_sequence\<close>; \<open>db_inodes\<close> is in rowid order.\<close>

record db =
  db_user_version :: int
  db_session :: "int \<rightharpoonup> session_metadata_columns"
  db_inodes :: "inode_row list"
  db_sequence :: int

definition empty_db :: db where
  "empty_db = \<lparr>db_user_version = 0, db_session = Map.empty, db_inodes = [], db_sequence = 0\<rparr>"

record store_env =
  sql_fault :: "string \<Rightarrow> db \<Rightarrow> rusqlite_error option"
  uuid_parse_ok :: "string \<Rightarrow> bool"

record session_metadata =
  md_daemon_pid :: u32
  md_state :: session_lifecycle
  md_root_digest :: digest
  md_mountpoint :: string

record store_inode =
  si_id :: inode_id
  si_parent :: "inode_id option"
  si_name :: string
  si_kind :: node_kind
  si_mode :: "u32 option"
  si_mtime :: "node_time option"
  si_tombstone :: bool
  si_file_remote_digest :: "digest option"
  si_file_overlay_path :: "string option"
  si_file_content_dirty :: "bool option"
  si_symlink_target :: "string option"
  si_directory_remote_digest :: "digest option"
  si_directory_loaded :: "bool option"

datatype remote_content =
    RemoteFile digest
  | RemoteDirectory digest
  | RemoteSymlink string

record new_remote_inode =
  nr_name :: string
  nr_mode :: "u32 option"
  nr_mtime :: "node_time option"
  nr_content :: remote_content

record session_store =
  database_path :: string
  connection :: db
  poisoned :: bool

definition SCHEMA_VERSION :: int where
  "SCHEMA_VERSION = 1"

definition database_error :: "string \<Rightarrow> string \<Rightarrow> rusqlite_error \<Rightarrow> session_error" where
  "database_error operation path source = Database operation path source"

text \<open>Running a statement that the engine may refuse.\<close>

definition sql :: "store_env \<Rightarrow> string \<Rightarrow> string \<Rightarrow> db \<Rightarrow> 'a \<Rightarrow> ('a, session_error) result" where
  "sql env path operation d x =
     (case sql_fault env operation d of
        Some e \<Rightarrow> Err (database_error operation path e)
      | None \<Rightarrow> Ok x)"

section \<open>Row validation\<close>

fun kind_text :: "node_kind \<Rightarrow> string" where
  "kind_text File = ''file''"
| "kind_text Directory = ''directory''"
| "kind_text Symlink = ''symlink''"

definition parse_kind :: "string \<Rightarrow> (node_kind, session_error) result" where
  "parse_kind s =
     (if s = ''file'' then Ok File
      else if s = ''directory'' then Ok Directory
      else if s = ''symlink'' then Ok Symlink
      else Err (InternalError ''stored inode has invalid kind''))"

definition validate_inode_name :: "string \<Rightarrow> (unit, session_error) result" where
  "validate_inode_name name =
     (if name = [] \<or> contains_char CHR ''/'' name \<or> name = ''.'' \<or> name = ''..''
      then Err (InternalError ''invalid inode name'') else Ok ())"

definition validate_inode_mtime ::
  "int option \<Rightarrow> int option \<Rightarrow> (node_time option, session_error) result" where
  "validate_inode_mtime seconds nanos =
     (case (seconds, nanos) of
        (None, None) \<Rightarrow> Ok None
      | (Some s, Some n) \<Rightarrow>
          and_then (ok_or (u32_try_from_i64 n) (InternalError ''stored inode has invalid mtime'')) (\<lambda>n'.
            ok_or (map_option Some (node_time_new s n')) (InternalError ''stored inode has invalid mtime''))
      | _ \<Rightarrow> Err (InternalError ''stored inode has partial mtime''))"

definition validate_stored_bool :: "int \<Rightarrow> (bool, session_error) result" where
  "validate_stored_bool v =
     (if v = 0 then Ok False else if v = 1 then Ok True
      else Err (InternalError ''stored inode has field with invalid boolean, want 0 or 1''))"

definition validate_stored_digest :: "string option \<Rightarrow> (digest option, session_error) result" where
  "validate_stored_digest v =
     transpose_opt (map_option (\<lambda>s.
       map_err (\<lambda>_. InternalError ''stored inode has invalid digest'') (digest_from_str s)) v)"

definition overlay_path_ok :: "string \<Rightarrow> bool" where
  "overlay_path_ok p \<longleftrightarrow> \<not> (p = [] \<or> take 1 p = ''/'' \<or> ''..'' \<in> set (split_on CHR ''/'' p))"

definition validate_file_inode :: "store_inode \<Rightarrow> (unit, session_error) result" where
  "validate_file_inode i =
     (if si_symlink_target i \<noteq> None \<or> si_directory_remote_digest i \<noteq> None \<or>
         si_directory_loaded i \<noteq> None \<or> si_file_content_dirty i = None
      then Err (InternalError ''file inode has invalid fields'')
      else if (case si_file_overlay_path i of None \<Rightarrow> False | Some p \<Rightarrow> \<not> overlay_path_ok p)
      then Err (InternalError ''file inode has an invalid overlay path'')
      else if si_file_overlay_path i = None \<and> si_file_content_dirty i = Some True
      then Err (InternalError ''file inode is dirty but has no overlay path'')
      else if si_file_remote_digest i = None \<and> si_file_overlay_path i = None
      then Err (InternalError ''file inode neither has a remote digest nor an overlay path for the file contents'')
      else if si_file_remote_digest i \<noteq> None \<and> si_file_overlay_path i \<noteq> None
      then Err (InternalError ''file inode specified both remote digest and an overlay path'')
      else Ok ())"

definition validate_symlink_inode :: "store_inode \<Rightarrow> (unit, session_error) result" where
  "validate_symlink_inode i =
     (if si_symlink_target i = None \<or> si_file_remote_digest i \<noteq> None \<or>
         si_file_overlay_path i \<noteq> None \<or> si_file_content_dirty i \<noteq> None \<or>
         si_directory_remote_digest i \<noteq> None \<or> si_directory_loaded i \<noteq> None
      then Err (InternalError ''symlink inode has invalid fields'') else Ok ())"

definition validate_directory_inode :: "store_inode \<Rightarrow> (unit, session_error) result" where
  "validate_directory_inode i =
     (if si_file_remote_digest i \<noteq> None \<or> si_file_overlay_path i \<noteq> None \<or>
         si_file_content_dirty i \<noteq> None \<or> si_symlink_target i \<noteq> None
      then Err (InternalError ''directory inode has invalid fields'')
      else if si_directory_loaded i = None
      then Err (InternalError ''directory inode did not specify a boolean for loaded'')
      else Ok ())"

definition validate_inode_kind :: "store_inode \<Rightarrow> (unit, session_error) result" where
  "validate_inode_kind i =
     (case si_kind i of
        File \<Rightarrow> validate_file_inode i
      | Symlink \<Rightarrow> validate_symlink_inode i
      | Directory \<Rightarrow> validate_directory_inode i)"

definition validate_inode_hierarchy :: "store_inode \<Rightarrow> (unit, session_error) result" where
  "validate_inode_hierarchy i =
     (if si_id i = ROOT then
        (case si_parent i of
           None \<Rightarrow>
             if si_name i \<noteq> [] then Err (InternalError ''root inode unexpected had name, expected empty name'')
             else if si_kind i \<noteq> Directory then Err (InternalError ''root inode kind: expected directory'')
             else if si_directory_remote_digest i = None then Err (InternalError ''root inode remote digest is missing'')
             else if si_directory_loaded i = None then Err (InternalError ''root inode was not loaded'')
             else Ok ()
         | Some p \<Rightarrow> Err (InternalError ''root inode unexpectedly had a parent inode''))
      else
        (case si_parent i of
           Some _ \<Rightarrow> session_context ''inode name validation failed'' (validate_inode_name (si_name i))
         | None \<Rightarrow> Err (InternalError ''inode is not root but has no parent'')))"

definition validate_inode :: "store_inode \<Rightarrow> (unit, session_error) result" where
  "validate_inode i =
     (if (case si_mode i of None \<Rightarrow> False | Some m \<Rightarrow> m > 0xFFF)
      then Err (InternalError ''inode has invalid mode'')
      else and_then (validate_inode_hierarchy i) (\<lambda>_. validate_inode_kind i))"

definition validate_inode_row :: "inode_row \<Rightarrow> (store_inode, session_error) result" where
  "validate_inode_row row =
     and_then (session_context ''decode stored inode identity'' (from_sqlite (ir_id row))) (\<lambda>ident.
     and_then (session_context ''decode parent identity of stored inode''
         (transpose_opt (map_option from_sqlite (ir_parent_id row)))) (\<lambda>parent.
     and_then (parse_kind (ir_kind row)) (\<lambda>kind.
     and_then (transpose_opt (map_option (\<lambda>m.
         ok_or (u32_try_from_i64 m) (InternalError ''stored inode has invalid mode'')) (ir_mode row))) (\<lambda>mode.
     and_then (session_context ''validate modification time of stored inode''
         (validate_inode_mtime (ir_mtime_seconds row) (ir_mtime_nanos row))) (\<lambda>mtime.
     and_then (session_context ''validate tombstone of stored inode''
         (validate_stored_bool (ir_tombstone row))) (\<lambda>tomb.
     and_then (session_context ''validate remote file digest of stored inode''
         (validate_stored_digest (ir_file_remote_digest row))) (\<lambda>fdig.
     and_then (session_context ''validate dirty state of stored inode''
         (transpose_opt (map_option validate_stored_bool (ir_file_content_dirty row)))) (\<lambda>dirty.
     and_then (session_context ''validate remote directory digest of stored inode''
         (validate_stored_digest (ir_directory_remote_digest row))) (\<lambda>ddig.
     and_then (session_context ''validate loaded state of stored inode''
         (transpose_opt (map_option validate_stored_bool (ir_directory_loaded row)))) (\<lambda>loaded.
     let result =
       \<lparr>si_id = ident, si_parent = parent, si_name = ir_name row, si_kind = kind, si_mode = mode,
        si_mtime = mtime, si_tombstone = tomb, si_file_remote_digest = fdig,
        si_file_overlay_path = ir_file_overlay_path row, si_file_content_dirty = dirty,
        si_symlink_target = ir_symlink_target row, si_directory_remote_digest = ddig,
        si_directory_loaded = loaded\<rparr>
     in and_then (session_context ''validate stored inode'' (validate_inode result)) (\<lambda>_.
          Ok result)))))))))))"

text \<open>\<open>seen\<close> is the \<^verbatim>\<open>HashSet\<close> of names.\<close>

fun validate_remote_children_from ::
  "string list \<Rightarrow> new_remote_inode list \<Rightarrow> (unit, session_error) result" where
  "validate_remote_children_from seen [] = Ok ()"
| "validate_remote_children_from seen (c # cs) =
     and_then (validate_inode_name (nr_name c)) (\<lambda>_.
       if nr_name c \<in> set seen then Err (InternalError ''duplicate child name'')
       else if (case nr_mode c of None \<Rightarrow> False | Some m \<Rightarrow> m > 0xFFF)
       then Err (InternalError ''child inode has invalid mode'')
       else validate_remote_children_from (nr_name c # seen) cs)"

definition validate_remote_children :: "new_remote_inode list \<Rightarrow> (unit, session_error) result" where
  "validate_remote_children children = validate_remote_children_from [] children"

definition ensure_inode_is_dir :: "store_inode \<Rightarrow> (unit, session_error) result" where
  "ensure_inode_is_dir i =
     (if si_kind i \<noteq> Directory then Err (NotDirectory ''inode is not a directory'') else Ok ())"

section \<open>Session metadata\<close>

definition parse_lifecycle :: "string \<Rightarrow> (session_lifecycle, session_error) result" where
  "parse_lifecycle s =
     (if s = ''initializing'' then Ok Initializing
      else if s = ''active'' then Ok Active
      else if s = ''closed'' then Ok Closed
      else Err (FailedPreconditionError ''inspect session metadata: invalid lifecycle''))"

definition get_column :: "string \<Rightarrow> 'a option \<Rightarrow> ('a, rusqlite_error) result" where
  "get_column name v = ok_or v (InvalidColumnType name)"

definition session_row_from_rusqlite ::
  "int \<Rightarrow> session_metadata_columns \<Rightarrow> (session_metadata_row, rusqlite_error) result" where
  "session_row_from_rusqlite key c =
     and_then (get_column ''session_id'' (smc_session_id c)) (\<lambda>sid.
     and_then (get_column ''daemon_pid'' (smc_daemon_pid c)) (\<lambda>pid.
     and_then (get_column ''lifecycle'' (smc_lifecycle c)) (\<lambda>life.
     and_then (get_column ''root_digest_hash'' (smc_root_digest_hash c)) (\<lambda>h.
     and_then (get_column ''root_digest_size'' (smc_root_digest_size c)) (\<lambda>sz.
     and_then (get_column ''mountpoint'' (smc_mountpoint c)) (\<lambda>mp.
     and_then (get_column ''created_at_seconds'' (smc_created_at_seconds c)) (\<lambda>created.
     and_then (get_column ''log_level'' (smc_log_level c)) (\<lambda>level.
     and_then (get_column ''log_format'' (smc_log_format c)) (\<lambda>fmt.
       Ok \<lparr>smr_singleton = key, smr_session_id = sid, smr_daemon_pid = pid, smr_lifecycle = life,
           smr_root_digest_hash = h, smr_root_digest_size = sz, smr_mountpoint = mp,
           smr_created_at_seconds = created, smr_closed_at_seconds = smc_closed_at_seconds c,
           smr_log_level = level, smr_log_format = fmt\<rparr>)))))))))"

definition validate_session :: "(string \<Rightarrow> bool) \<Rightarrow> session_metadata_row \<Rightarrow> (session_metadata, session_error) result" where
  "validate_session uuid_ok row =
     (if smr_singleton row \<noteq> 1 \<or> \<not> uuid_ok (smr_session_id row) \<or> smr_daemon_pid row \<le> 0 \<or>
         smr_created_at_seconds row < 0 \<or> smr_log_level row = [] \<or>
         smr_log_format row \<notin> {''text'', ''json''}
      then Err (FailedPreconditionError ''inspect session metadata: invalid metadata'')
      else and_then (parse_lifecycle (smr_lifecycle row)) (\<lambda>state.
        and_then (case (state, smr_closed_at_seconds row) of
             (Closed, Some seconds) \<Rightarrow>
               if seconds \<ge> 0 then Ok ()
               else Err (FailedPreconditionError ''inspect session metadata: closed session has invalid close time'')
           | (Closed, None) \<Rightarrow>
               Err (FailedPreconditionError ''inspect session metadata: closed session has invalid close time'')
           | (_, None) \<Rightarrow> Ok ()
           | (_, Some _) \<Rightarrow>
               Err (FailedPreconditionError ''inspect session metadata: non-closed session has close time'')) (\<lambda>_.
        and_then (ok_or (u32_try_from_i64 (smr_daemon_pid row))
            (FailedPreconditionError ''inspect session metadata: invalid daemon pid'')) (\<lambda>pid.
        and_then (map_err (\<lambda>_. FailedPreconditionError ''inspect session metadata: invalid root digest'')
            (digest_new (smr_root_digest_hash row) (smr_root_digest_size row))) (\<lambda>d.
          Ok \<lparr>md_daemon_pid = pid, md_state = state, md_root_digest = d, md_mountpoint = smr_mountpoint row\<rparr>)))))"

definition read_stored_session :: "store_env \<Rightarrow> string \<Rightarrow> db \<Rightarrow> (session_metadata, session_error) result" where
  "read_stored_session env path d =
     and_then (sql env path ''read session metadata'' d (db_session d 1)) (\<lambda>found.
     and_then (map_err (database_error ''read session metadata'' path)
         (transpose_opt (map_option (session_row_from_rusqlite 1) found))) (\<lambda>row.
     and_then (ok_or row (FailedPreconditionError ''db session is missing session metadata'')) (\<lambda>r.
       validate_session (uuid_parse_ok env) r)))"

definition ensure_active :: "store_env \<Rightarrow> string \<Rightarrow> db \<Rightarrow> (unit, session_error) result" where
  "ensure_active env path d =
     and_then (session_context ''read session lifecycle state'' (read_stored_session env path d)) (\<lambda>md.
       if md_state md \<noteq> Active
       then Err (FailedPreconditionError ''session lifecycle is not active'') else Ok ())"

section \<open>Queries\<close>

definition get_inode_by_id ::
  "store_env \<Rightarrow> string \<Rightarrow> db \<Rightarrow> inode_id \<Rightarrow> (store_inode option, session_error) result" where
  "get_inode_by_id env path d i =
     and_then (sql env path ''get inode by id'' d (find (\<lambda>r. ir_id r = sqlite i) (db_inodes d))) (\<lambda>row.
       session_context ''validate stored inode'' (transpose_opt (map_option validate_inode_row row)))"

definition lookup_child_in_dir_inode ::
  "store_env \<Rightarrow> string \<Rightarrow> db \<Rightarrow> inode_id \<Rightarrow> string \<Rightarrow> (store_inode option, session_error) result" where
  "lookup_child_in_dir_inode env path d parent name =
     and_then (sql env path ''lookup child by name in dir inode'' d
         (find (\<lambda>r. ir_parent_id r = Some (sqlite parent) \<and> ir_name r = name) (db_inodes d))) (\<lambda>row.
       session_context ''validate stored child of directory inode''
         (transpose_opt (map_option validate_inode_row row)))"

definition children_rows :: "db \<Rightarrow> int \<Rightarrow> inode_row list" where
  "children_rows d parent = sort_key ir_name (filter (\<lambda>r. ir_parent_id r = Some parent) (db_inodes d))"

definition get_directory_children_on ::
  "store_env \<Rightarrow> string \<Rightarrow> db \<Rightarrow> inode_id \<Rightarrow> (store_inode list, session_error) result" where
  "get_directory_children_on env path d parent =
     and_then (sql env path ''prepare children'' d ()) (\<lambda>_.
     and_then (sql env path ''list children'' d ()) (\<lambda>_.
     and_then (sql env path ''decode child'' d (children_rows d (sqlite parent))) (\<lambda>rows.
       session_context ''validate stored children of directory inode'' (collect validate_inode_row rows))))"

section \<open>Transactions\<close>

type_synonym 'a txn = "db \<Rightarrow> ('a, session_error) result \<times> db"

definition txn_read :: "(db \<Rightarrow> ('a, session_error) result) \<Rightarrow> 'a txn" where
  "txn_read f = (\<lambda>d. (f d, d))"

definition txn_then :: "'a txn \<Rightarrow> ('a \<Rightarrow> 'b txn) \<Rightarrow> 'b txn" where
  "txn_then m f = (\<lambda>d. case m d of (Inl e, d') \<Rightarrow> (Err e, d') | (Inr x, d') \<Rightarrow> f x d')"

definition txn_context :: "string \<Rightarrow> 'a txn \<Rightarrow> 'a txn" where
  "txn_context op m = (\<lambda>d. case m d of (r, d') \<Rightarrow> (session_context op r, d'))"

definition txn_return :: "'a \<Rightarrow> 'a txn" where
  "txn_return x = (\<lambda>d. (Ok x, d))"

definition txn_fail :: "session_error \<Rightarrow> 'a txn" where
  "txn_fail e = (\<lambda>d. (Err e, d))"

text \<open>An \<^verbatim>\<open>execute\<close>: nothing is written when the engine or a constraint refuses the statement.\<close>

definition txn_execute :: "store_env \<Rightarrow> string \<Rightarrow> string \<Rightarrow> (db \<Rightarrow> (db, rusqlite_error) result) \<Rightarrow> unit txn" where
  "txn_execute env path operation stmt = (\<lambda>d.
     case sql_fault env operation d of
       Some e \<Rightarrow> (Err (database_error operation path e), d)
     | None \<Rightarrow>
         (case stmt d of
            Inl e \<Rightarrow> (Err (database_error operation path e), d)
          | Inr d' \<Rightarrow> (Ok (), d')))"

fun txn_for :: "('a \<Rightarrow> unit txn) \<Rightarrow> 'a list \<Rightarrow> unit txn" where
  "txn_for f [] = txn_return ()"
| "txn_for f (x # xs) = txn_then (f x) (\<lambda>_. txn_for f xs)"

definition with_transaction ::
  "store_env \<Rightarrow> string \<Rightarrow> 'a txn \<Rightarrow> session_store \<Rightarrow> ('a, session_error) result \<times> session_store" where
  "with_transaction env operation body st =
     (if poisoned st then (Err (InternalError (operation @ '': connection lock is poisoned'')), st)
      else
        (case sql_fault env (''begin '' @ operation) (connection st) of
           Some e \<Rightarrow> (Err (database_error (''begin '' @ operation) (database_path st) e), st)
         | None \<Rightarrow>
             (case txn_context (''run '' @ operation @ '' transaction'') body (connection st) of
                (Inl e, _) \<Rightarrow> (Err e, st)
              | (Inr x, d') \<Rightarrow>
                  (case sql_fault env (''commit '' @ operation) d' of
                     Some e \<Rightarrow> (Err (database_error (''commit '' @ operation) (database_path st) e), st)
                   | None \<Rightarrow> (Ok x, st\<lparr>connection := d'\<rparr>)))))"

section \<open>Statements that write\<close>

text \<open>\<^verbatim>\<open>INSERT INTO inodes\<close>: the id is chosen by \<^verbatim>\<open>AUTOINCREMENT\<close>, then the constraints are checked.\<close>

definition next_rowid :: "db \<Rightarrow> int" where
  "next_rowid d = Max (set (db_sequence d # map ir_id (db_inodes d))) + 1"

definition insert_inode_stmt :: "inode_row \<Rightarrow> db \<Rightarrow> (db, rusqlite_error) result" where
  "insert_inode_stmt r d =
     (let i = next_rowid d in
      if i > i64_max then Err (SqliteFailure ''SQLITE_FULL'')
      else if (\<exists>r' \<in> set (db_inodes d). ir_parent_id r \<noteq> None \<and> ir_parent_id r' = ir_parent_id r \<and>
                ir_name r' = ir_name r)
      then Err (SqliteFailure ''SQLITE_CONSTRAINT_UNIQUE'')
      else if (case ir_parent_id r of None \<Rightarrow> False
               | Some p \<Rightarrow> p \<notin> set (i # map ir_id (db_inodes d)))
      then Err (SqliteFailure ''SQLITE_CONSTRAINT_FOREIGNKEY'')
      else Ok (d\<lparr>db_inodes := db_inodes d @ [r\<lparr>ir_id := i\<rparr>], db_sequence := i\<rparr>))"

text \<open>The row that \<^verbatim>\<open>insert_remote_inode\<close> binds; its id is assigned by the statement.\<close>

definition remote_row :: "inode_id option \<Rightarrow> new_remote_inode \<Rightarrow> inode_row" where
  "remote_row parent n =
     (let (kind, file_digest, file_dirty, target, dir_digest, dir_loaded) =
        (case nr_content n of
           RemoteFile dg \<Rightarrow> (File, Some (digest_to_string dg), Some 0, None, None, None)
         | RemoteDirectory dg \<Rightarrow> (Directory, None, None, None, Some (digest_to_string dg), Some 0)
         | RemoteSymlink t \<Rightarrow> (Symlink, None, None, Some t, None, None))
      in \<lparr>ir_id = 0, ir_parent_id = map_option sqlite parent, ir_name = nr_name n,
          ir_kind = kind_text kind, ir_mode = map_option uint (nr_mode n),
          ir_mtime_seconds = map_option nt_seconds (nr_mtime n),
          ir_mtime_nanos = map_option (\<lambda>t. uint (nt_nanos t)) (nr_mtime n),
          ir_tombstone = 0, ir_file_remote_digest = file_digest, ir_file_overlay_path = None,
          ir_file_content_dirty = file_dirty, ir_symlink_target = target,
          ir_directory_remote_digest = dir_digest, ir_directory_loaded = dir_loaded\<rparr>)"

definition insert_remote_inode ::
  "store_env \<Rightarrow> string \<Rightarrow> inode_id option \<Rightarrow> new_remote_inode \<Rightarrow> inode_id txn" where
  "insert_remote_inode env path parent n =
     txn_then (txn_execute env path ''insert remote inode'' (insert_inode_stmt (remote_row parent n))) (\<lambda>_.
       txn_read (\<lambda>d. from_sqlite (db_sequence d)))"

definition mark_loaded_stmt :: "inode_id \<Rightarrow> db \<Rightarrow> (db, rusqlite_error) result" where
  "mark_loaded_stmt parent d =
     Ok (d\<lparr>db_inodes := map (\<lambda>r. if ir_id r = sqlite parent then r\<lparr>ir_directory_loaded := Some 1\<rparr> else r)
             (db_inodes d)\<rparr>)"

definition mark_closed_stmt :: "int \<Rightarrow> db \<Rightarrow> (db, rusqlite_error) result" where
  "mark_closed_stmt seconds d =
     Ok (case db_session d 1 of
           None \<Rightarrow> d
         | Some c \<Rightarrow> d\<lparr>db_session := (db_session d)(1 \<mapsto>
             c\<lparr>smc_lifecycle := Some ''closed'', smc_closed_at_seconds := Some seconds\<rparr>)\<rparr>)"

definition insert_session_stmt ::
  "string \<Rightarrow> u32 \<Rightarrow> digest \<Rightarrow> string \<Rightarrow> int \<Rightarrow> db \<Rightarrow> (db, rusqlite_error) result" where
  "insert_session_stmt sid pid root mountpoint created d =
     (if db_session d 1 \<noteq> None then Err (SqliteFailure ''SQLITE_CONSTRAINT_PRIMARYKEY'')
      else Ok (d\<lparr>db_session := (db_session d)(1 \<mapsto>
        \<lparr>smc_session_id = Some sid, smc_daemon_pid = Some (uint pid), smc_lifecycle = Some ''active'',
         smc_root_digest_hash = Some (hash root), smc_root_digest_size = Some (size_bytes root),
         smc_mountpoint = Some mountpoint, smc_created_at_seconds = Some created,
         smc_closed_at_seconds = None, smc_log_level = Some ''info'', smc_log_format = Some ''text''\<rparr>)\<rparr>))"

definition insert_session ::
  "store_env \<Rightarrow> string \<Rightarrow> string \<Rightarrow> u32 \<Rightarrow> digest \<Rightarrow> string \<Rightarrow> int \<Rightarrow> unit txn" where
  "insert_session env path sid pid root mountpoint created =
     txn_execute env path ''insert session metadata'' (insert_session_stmt sid pid root mountpoint created)"

definition insert_root_inode :: "store_env \<Rightarrow> string \<Rightarrow> digest \<Rightarrow> unit txn" where
  "insert_root_inode env path root_digest =
     (let root = \<lparr>nr_name = [], nr_mode = None, nr_mtime = None, nr_content = RemoteDirectory root_digest\<rparr>
      in txn_then (insert_remote_inode env path None root) (\<lambda>i.
           if i \<noteq> ROOT then txn_fail (InternalError ''root inode was allocated an unexpected id'')
           else txn_return ()))"

section \<open>The store\<close>

text \<open>The clock: the whole seconds since the epoch, or \<open>None\<close> when it is set before the epoch.\<close>

definition now_seconds :: "u64 option \<Rightarrow> (int, session_error) result" where
  "now_seconds clock =
     and_then (ok_or clock (InternalError ''read current session time: value is outside the supported range'')) (\<lambda>s.
       ok_or (i64_try_from_u64 s) (InternalError ''read current session time: value is outside the supported range''))"

definition store_read ::
  "store_env \<Rightarrow> string \<Rightarrow> string \<Rightarrow> (db \<Rightarrow> ('a, session_error) result) \<Rightarrow> session_store \<Rightarrow> ('a, session_error) result" where
  "store_read env operation check query st =
     (if poisoned st then Err (InternalError (operation @ '': connection lock is poisoned''))
      else and_then (session_context check (ensure_active env (database_path st) (connection st))) (\<lambda>_.
        query (connection st)))"

definition store_inode_get ::
  "store_env \<Rightarrow> session_store \<Rightarrow> inode_id \<Rightarrow> (store_inode option, session_error) result" where
  "store_inode_get env st i =
     store_read env ''read inode'' ''check session lifecycle before reading inode''
       (\<lambda>d. get_inode_by_id env (database_path st) d i) st"

definition store_child ::
  "store_env \<Rightarrow> session_store \<Rightarrow> inode_id \<Rightarrow> string \<Rightarrow> (store_inode option, session_error) result" where
  "store_child env st parent name =
     and_then (session_context ''invalid name given to lookup in parent inode'' (validate_inode_name name)) (\<lambda>_.
       store_read env ''create sql db connection to read child'' ''check session lifecycle before reading child''
         (\<lambda>d. lookup_child_in_dir_inode env (database_path st) d parent name) st)"

definition get_directory_children ::
  "store_env \<Rightarrow> session_store \<Rightarrow> inode_id \<Rightarrow> (store_inode list, session_error) result" where
  "get_directory_children env st parent =
     store_read env ''list children'' ''check session lifecycle before listing children''
       (\<lambda>d. get_directory_children_on env (database_path st) d parent) st"

definition insert_child :: "store_env \<Rightarrow> string \<Rightarrow> inode_id \<Rightarrow> new_remote_inode \<Rightarrow> unit txn" where
  "insert_child env path p c = txn_context ''insert child in directory inode''
     (txn_then (insert_remote_inode env path (Some p) c) (\<lambda>_. txn_return ()))"

definition materialize_body ::
  "store_env \<Rightarrow> string \<Rightarrow> inode_id \<Rightarrow> new_remote_inode list \<Rightarrow> store_inode list txn" where
  "materialize_body env path parent children =
     txn_then (txn_context ''check session lifecycle before materializing directory children''
         (txn_read (ensure_active env path))) (\<lambda>_.
     txn_then (txn_context ''read parent inode to create its children''
         (txn_read (\<lambda>d. get_inode_by_id env path d parent))) (\<lambda>found.
     txn_then (txn_read (\<lambda>_. ok_or found
         (InternalError ''can't create children because parent inode is missing''))) (\<lambda>parent_inode.
     txn_then (txn_context ''can't create children for non-directory inode''
         (txn_read (\<lambda>_. ensure_inode_is_dir parent_inode))) (\<lambda>_.
     txn_then (txn_context ''read stored children of directory inode''
         (txn_read (\<lambda>d. get_directory_children_on env path d parent))) (\<lambda>stored_children.
     if si_directory_loaded parent_inode = Some True then txn_return stored_children
     else if stored_children \<noteq> [] then
       txn_fail (InternalError ''unloaded directory inode already has stored children'')
     else
     txn_then (txn_context ''validate children to create in directory inode''
         (txn_read (\<lambda>_. validate_remote_children children))) (\<lambda>_.
     txn_then (txn_for (insert_child env path parent) children) (\<lambda>_.
     txn_then (txn_execute env path ''mark directory loaded'' (mark_loaded_stmt parent)) (\<lambda>_.
       txn_context ''read children of directory inode after creation''
         (txn_read (\<lambda>d. get_directory_children_on env path d parent))))))))))"

definition get_or_create_remote_dir_children ::
  "store_env \<Rightarrow> inode_id \<Rightarrow> new_remote_inode list \<Rightarrow> session_store \<Rightarrow>
     (store_inode list, session_error) result \<times> session_store" where
  "get_or_create_remote_dir_children env parent children st =
     with_transaction env ''get or create directory children''
       (materialize_body env (database_path st) parent children) st"

definition close_body :: "store_env \<Rightarrow> string \<Rightarrow> int \<Rightarrow> unit txn" where
  "close_body env path seconds =
     txn_then (txn_context ''can't close already closed session'' (txn_read (ensure_active env path))) (\<lambda>_.
       txn_execute env path ''mark session closed'' (mark_closed_stmt seconds))"

definition store_close ::
  "store_env \<Rightarrow> u64 option \<Rightarrow> session_store \<Rightarrow> (unit, session_error) result \<times> session_store" where
  "store_close env clock st =
     (case session_context ''getting current time to set session close time in session state db''
         (now_seconds clock) of
        Inl e \<Rightarrow> (Err e, st)
      | Inr seconds \<Rightarrow>
          with_transaction env ''close session'' (close_body env (database_path st) seconds) st)"

text \<open>\<^verbatim>\<open>mountpoint.to_str()\<close> is \<open>None\<close> for a path that is not UTF-8.\<close>

definition initialize_database ::
  "store_env \<Rightarrow> u64 option \<Rightarrow> string \<Rightarrow> u32 \<Rightarrow> digest \<Rightarrow> string option \<Rightarrow> session_store \<Rightarrow>
     (unit, session_error) result \<times> session_store" where
  "initialize_database env clock sid pid root mountpoint st =
     (case mountpoint of
        None \<Rightarrow> (Err (InternalError ''mountpoint is not UTF-8''), st)
      | Some mp \<Rightarrow>
          if \<not> uuid_parse_ok env sid \<or> pid = 0 then (Err (InternalError ''invalid session identity''), st)
          else
            (case session_context ''determine current time for session creation'' (now_seconds clock) of
               Inl e \<Rightarrow> (Err e, st)
             | Inr now \<Rightarrow>
                 with_transaction env ''initialize database''
                   (txn_then (insert_session env (database_path st) sid pid root mp now) (\<lambda>_.
                      txn_context ''inserting root inode''
                        (insert_root_inode env (database_path st) root))) st))"

text \<open>The database file, \<open>None\<close> when it does not exist.\<close>

definition open_database ::
  "store_env \<Rightarrow> string \<Rightarrow> bool \<Rightarrow> db option \<Rightarrow> (db, session_error) result" where
  "open_database env path read_only file =
     and_then (case file of
         Some d \<Rightarrow> sql env path ''open connection'' d d
       | None \<Rightarrow>
           if read_only then Err (database_error ''open connection'' path (SqliteFailure ''SQLITE_CANTOPEN''))
           else sql env path ''open connection'' empty_db empty_db) (\<lambda>d.
     and_then (sql env path ''set busy timeout'' d ()) (\<lambda>_.
       if read_only then Ok d
       else and_then (sql env path ''set journal mode'' d ()) (\<lambda>_.
            and_then (sql env path ''enable foreign keys'' d ()) (\<lambda>_. Ok d))))"

definition schema_version :: "store_env \<Rightarrow> string \<Rightarrow> db \<Rightarrow> (int, session_error) result" where
  "schema_version env path d = sql env path ''read schema version'' d (db_user_version d)"

definition validate_schema_version :: "store_env \<Rightarrow> string \<Rightarrow> db \<Rightarrow> (unit, session_error) result" where
  "validate_schema_version env path d =
     and_then (schema_version env path d) (\<lambda>version.
       if version = SCHEMA_VERSION then Ok ()
       else Err (FailedPreconditionError ''unsupported state schema version''))"

text \<open>
  The schema statements are \<^verbatim>\<open>CREATE ... IF NOT EXISTS\<close>: on a database of this schema they change
  nothing, and a fresh database starts with both tables empty.
\<close>

definition prepare_schema :: "store_env \<Rightarrow> string \<Rightarrow> db \<Rightarrow> (db, session_error) result" where
  "prepare_schema env path d =
     and_then (schema_version env path d) (\<lambda>version.
     and_then (if version \<noteq> 0 then validate_schema_version env path d else Ok ()) (\<lambda>_.
     and_then (sql env path ''create schema'' d ()) (\<lambda>_.
       if version = 0
       then sql env path ''record schema version'' d (d\<lparr>db_user_version := SCHEMA_VERSION\<rparr>)
       else Ok d)))"

definition store_create ::
  "store_env \<Rightarrow> u64 option \<Rightarrow> string \<Rightarrow> string \<Rightarrow> u32 \<Rightarrow> digest \<Rightarrow> string option \<Rightarrow> db option \<Rightarrow>
     (session_store, session_error) result" where
  "store_create env clock path sid pid root mountpoint file =
     and_then (open_database env path False file) (\<lambda>d0.
     and_then (prepare_schema env path d0) (\<lambda>d.
       (case initialize_database env clock sid pid root mountpoint
               \<lparr>database_path = path, connection = d, poisoned = False\<rparr> of
          (r, st) \<Rightarrow> and_then r (\<lambda>_. Ok st))))"

definition store_inspect :: "store_env \<Rightarrow> string \<Rightarrow> db option \<Rightarrow> (session_metadata, session_error) result" where
  "store_inspect env path file =
     and_then (open_database env path True file) (\<lambda>d.
     and_then (validate_schema_version env path d) (\<lambda>_.
       read_stored_session env path d))"

section \<open>Transactions: laws\<close>

lemma txn_simps [simp]:
  "txn_read f d = (f d, d)" "txn_return x d = (Ok x, d)" "txn_fail e d = (Err e, d)"
  by (simp_all add: txn_read_def txn_return_def txn_fail_def)

lemma txn_then_eq_Ok:
  "txn_then m f d = (Ok y, d'') \<longleftrightarrow> (\<exists>x d'. m d = (Ok x, d') \<and> f x d' = (Ok y, d''))"
  by (auto simp: txn_then_def split: prod.splits sum.splits)

lemma txn_context_eq_Ok: "txn_context op m d = (Ok y, d') \<longleftrightarrow> m d = (Ok y, d')"
  by (auto simp: txn_context_def result_simps split: prod.splits)

lemma txn_execute_eq_Ok:
  "txn_execute env path op stmt d = (Ok u, d') \<longleftrightarrow> sql_fault env op d = None \<and> stmt d = Ok d'"
  by (auto simp: txn_execute_def split: option.splits sum.splits)

lemma txn_then_read [simp]:
  "txn_then (txn_read f) g d = (case f d of Inl e \<Rightarrow> (Err e, d) | Inr x \<Rightarrow> g x d)"
  "txn_then (txn_context op (txn_read f)) g d =
     (case f d of Inl e \<Rightarrow> (Err (Context op e), d) | Inr x \<Rightarrow> g x d)"
  by (simp_all add: txn_then_def txn_context_def split: sum.splits)

lemma txn_context_read [simp]: "txn_context op (txn_read f) d = (session_context op (f d), d)"
  by (simp add: txn_context_def)

lemma txn_then_Ok: "m d = (Ok x, d') \<Longrightarrow> txn_then m f d = f x d'"
  by (simp add: txn_then_def)

lemmas txn_Ok = txn_then_eq_Ok txn_context_eq_Ok txn_execute_eq_Ok

lemma sql_eq_Ok [result_simps]: "sql env path op d x = Ok y \<longleftrightarrow> sql_fault env op d = None \<and> y = x"
  by (auto simp: sql_def split: option.splits)

text \<open>
  The interface of a transactional store: a body either commits as a whole or leaves the store as it
  was. Any predicate on the store that a committing body establishes from itself is an invariant of
  the operation, whatever its outcome.
\<close>

locale transactional =
  fixes run :: "'b \<Rightarrow> 's \<Rightarrow> ('a, 'e) result \<times> 's"
    and commits :: "'b \<Rightarrow> 's \<Rightarrow> 'a \<Rightarrow> 's \<Rightarrow> bool"
  assumes run_Ok: "run b s = (Ok x, s') \<Longrightarrow> commits b s x s'"
    and run_Err: "run b s = (Err e, s') \<Longrightarrow> s' = s"
begin

lemma preserves:
  assumes "I s" and "\<And>x s'. I s \<Longrightarrow> commits b s x s' \<Longrightarrow> I s'"
  shows "I (snd (run b s))"
proof (cases "run b s")
  case (Pair r s')
  with assms run_Ok [of b s] run_Err [of b s] show ?thesis by (cases r) auto
qed

lemma changed_imp_committed: "run b s = (r, s') \<Longrightarrow> s' \<noteq> s \<Longrightarrow> \<exists>x. r = Ok x \<and> commits b s x s'"
  using run_Ok run_Err by (cases r) auto

end

definition txn_commits ::
  "string \<times> 'a txn \<Rightarrow> session_store \<Rightarrow> 'a \<Rightarrow> session_store \<Rightarrow> bool" where
  "txn_commits b st x st' \<longleftrightarrow> \<not> poisoned st \<and>
     (\<exists>d'. snd b (connection st) = (Ok x, d') \<and> st' = st\<lparr>connection := d'\<rparr>)"

lemma with_transaction_Ok:
  "with_transaction env op body st = (Ok x, st') \<Longrightarrow> txn_commits (op, body) st x st'"
  by (auto simp: with_transaction_def txn_commits_def txn_context_def result_context_eq_Ok
      split: if_splits option.splits prod.splits sum.splits)

lemma with_transaction_Err: "with_transaction env op body st = (Err e, st') \<Longrightarrow> st' = st"
  by (auto simp: with_transaction_def split: if_splits option.splits prod.splits sum.splits)

lemma with_transaction_run:
  assumes "body (connection st) = (Ok x, d')" and "\<not> poisoned st"
    and "sql_fault env (''begin '' @ op) (connection st) = None"
    and "sql_fault env (''commit '' @ op) d' = None"
  shows "with_transaction env op body st = (Ok x, st\<lparr>connection := d'\<rparr>)"
  using assms by (simp add: with_transaction_def txn_context_def)

lemma with_transaction_body_Err:
  assumes "body (connection st) = (Err e, d')" and "\<not> poisoned st"
    and "sql_fault env (''begin '' @ op) (connection st) = None"
  shows "with_transaction env op body st = (Err (Context (''run '' @ op @ '' transaction'') e), st)"
  using assms by (simp add: with_transaction_def txn_context_def)

interpretation sqlite_txn: transactional "\<lambda>b. with_transaction env (fst b) (snd b)" txn_commits
  by unfold_locales (auto dest: with_transaction_Ok with_transaction_Err)

lemma with_transaction_preserves:
  assumes "I (connection st)" and "\<And>x d'. body (connection st) = (Ok x, d') \<Longrightarrow> I d'"
  shows "I (connection (snd (with_transaction env op body st)))"
proof -
  have "I (connection (snd (with_transaction env (fst (op, body)) (snd (op, body)) st)))"
    by (rule sqlite_txn.preserves [where I = "\<lambda>s. I (connection s)"])
      (use assms in \<open>auto simp: txn_commits_def\<close>)
  then show ?thesis by simp
qed

end
