(* ===== verification/Store_Namespace.thy ===== *)
theory Store_Namespace
  imports Store
begin

text \<open>
  The laws of the session store: validated rows round-trip; the \<^verbatim>\<open>inodes\<close> table represents a namespace
  (\<open>represents\<close>), on which the queries are lookups and the materialisation of a directory is the
  function \<open>materialize\<close>; every reachable store satisfies \<open>wf_db\<close>.
\<close>

section \<open>Rows: laws\<close>

text \<open>Names as the session and the tree layer check them are the same names.\<close>

lemma validate_inode_name_eq_Ok [result_simps]: "validate_inode_name n = Ok u \<longleftrightarrow> valid_name n"
  by (auto simp: validate_inode_name_def valid_name_def contains_char_def)

interpretation kind_codec: text_codec kind_text parse_kind "\<lambda>_. True"
proof
  fix k :: node_kind
  show "parse_kind (kind_text k) = Ok k" by (cases k) (simp_all add: parse_kind_def)
qed

interpretation lifecycle_codec: text_codec lifecycle_text parse_lifecycle "\<lambda>_. True"
proof
  fix l :: session_lifecycle
  show "parse_lifecycle (lifecycle_text l) = Ok l" by (cases l) (simp_all add: parse_lifecycle_def)
qed

text \<open>The row that stores an inode.\<close>

definition row_of_inode :: "store_inode \<Rightarrow> inode_row" where
  "row_of_inode i =
     \<lparr>ir_id = sqlite (si_id i), ir_parent_id = map_option sqlite (si_parent i), ir_name = si_name i,
      ir_kind = kind_text (si_kind i), ir_mode = map_option uint (si_mode i),
      ir_mtime_seconds = map_option nt_seconds (si_mtime i),
      ir_mtime_nanos = map_option (\<lambda>t. uint (nt_nanos t)) (si_mtime i),
      ir_tombstone = of_bool (si_tombstone i),
      ir_file_remote_digest = map_option digest_to_string (si_file_remote_digest i),
      ir_file_overlay_path = si_file_overlay_path i,
      ir_file_content_dirty = map_option of_bool (si_file_content_dirty i),
      ir_symlink_target = si_symlink_target i,
      ir_directory_remote_digest = map_option digest_to_string (si_directory_remote_digest i),
      ir_directory_loaded = map_option of_bool (si_directory_loaded i)\<rparr>"

definition wf_inode :: "store_inode \<Rightarrow> bool" where
  "wf_inode i \<longleftrightarrow> valid_inode_id (si_id i) \<and> pred_option valid_inode_id (si_parent i) \<and>
     pred_option valid_node_time (si_mtime i) \<and> pred_option valid_digest (si_file_remote_digest i) \<and>
     pred_option valid_digest (si_directory_remote_digest i) \<and> validate_inode i = Ok ()"

lemma validate_stored_bool_of_bool [simp]: "validate_stored_bool (of_bool b) = Ok b"
  by (cases b) (simp_all add: validate_stored_bool_def)

lemma validate_stored_digest_text:
  "pred_option valid_digest x \<Longrightarrow> validate_stored_digest (map_option digest_to_string x) = Ok x"
  by (cases x) (simp_all add: validate_stored_digest_def digest_parse_print)

lemma validate_inode_mtime_row:
  "pred_option valid_node_time x \<Longrightarrow>
     validate_inode_mtime (map_option nt_seconds x) (map_option (\<lambda>t. uint (nt_nanos t)) x) = Ok x"
  by (cases x) (simp_all add: validate_inode_mtime_def u32_roundtrip valid_node_time_def)

lemma inode_eta:
  "\<lparr>si_id = si_id i, si_parent = si_parent i, si_name = si_name i, si_kind = si_kind i,
    si_mode = si_mode i, si_mtime = si_mtime i, si_tombstone = si_tombstone i,
    si_file_remote_digest = si_file_remote_digest i, si_file_overlay_path = si_file_overlay_path i,
    si_file_content_dirty = si_file_content_dirty i, si_symlink_target = si_symlink_target i,
    si_directory_remote_digest = si_directory_remote_digest i,
    si_directory_loaded = si_directory_loaded i\<rparr> = i"
  by (cases i) simp

lemma row_roundtrip:
  assumes "wf_inode i"
  shows "validate_inode_row (row_of_inode i) = Ok i"
proof -
  have ids: "from_sqlite (sqlite (si_id i)) = Ok (si_id i)"
    "transpose_opt (map_option from_sqlite (map_option sqlite (si_parent i))) = Ok (si_parent i)"
    using assms by (cases "si_parent i"; simp add: wf_inode_def)+
  have mode: "transpose_opt (map_option (\<lambda>m. ok_or (u32_try_from_i64 m) e)
      (map_option uint (si_mode i))) = Ok (si_mode i)" for e :: session_error
    by (cases "si_mode i") (simp_all add: u32_roundtrip)
  have bools: "transpose_opt (map_option validate_stored_bool (map_option of_bool x)) = Ok x" for x
    by (cases x) simp_all
  show ?thesis
    using assms unfolding validate_inode_row_def row_of_inode_def
    by (simp add: ids mode bools kind_codec.parse_print validate_inode_mtime_row
        validate_stored_digest_text wf_inode_def inode_eta Let_def)
qed

lemma row_of_inode_sel [simp]:
  "ir_id (row_of_inode i) = sqlite (si_id i)"
  "ir_parent_id (row_of_inode i) = map_option sqlite (si_parent i)"
  "ir_name (row_of_inode i) = si_name i"
  by (simp_all add: row_of_inode_def)

text \<open>The inode that a remote child becomes once the store has given it an identity.\<close>

definition inode_of_remote :: "inode_id \<Rightarrow> inode_id option \<Rightarrow> new_remote_inode \<Rightarrow> store_inode" where
  "inode_of_remote i parent n =
     \<lparr>si_id = i, si_parent = parent, si_name = nr_name n,
      si_kind = (case nr_content n of RemoteFile _ \<Rightarrow> File | RemoteDirectory _ \<Rightarrow> Directory | RemoteSymlink _ \<Rightarrow> Symlink),
      si_mode = nr_mode n, si_mtime = nr_mtime n, si_tombstone = False,
      si_file_remote_digest = (case nr_content n of RemoteFile d \<Rightarrow> Some d | _ \<Rightarrow> None),
      si_file_overlay_path = None,
      si_file_content_dirty = (case nr_content n of RemoteFile d \<Rightarrow> Some False | _ \<Rightarrow> None),
      si_symlink_target = (case nr_content n of RemoteSymlink t \<Rightarrow> Some t | _ \<Rightarrow> None),
      si_directory_remote_digest = (case nr_content n of RemoteDirectory d \<Rightarrow> Some d | _ \<Rightarrow> None),
      si_directory_loaded = (case nr_content n of RemoteDirectory d \<Rightarrow> Some False | _ \<Rightarrow> None)\<rparr>"

lemma remote_row_eq:
  "(remote_row parent n)\<lparr>ir_id := sqlite i\<rparr> = row_of_inode (inode_of_remote i parent n)"
  by (simp add: remote_row_def row_of_inode_def inode_of_remote_def split: remote_content.splits)

lemma remote_row_sel [simp]:
  "ir_parent_id (remote_row parent n) = map_option sqlite parent" "ir_name (remote_row parent n) = nr_name n"
  by (simp_all add: remote_row_def split: remote_content.splits)

lemma inode_of_remote_sel [simp]:
  "si_id (inode_of_remote i parent n) = i" "si_parent (inode_of_remote i parent n) = parent"
  "si_name (inode_of_remote i parent n) = nr_name n"
  by (simp_all add: inode_of_remote_def)

text \<open>
  What the types of a \<^verbatim>\<open>NewRemoteInode\<close> guarantee (its digest and time were made by their constructors),
  and what \<open>validate_remote_children\<close> checks on top.
\<close>

definition remote_typed :: "new_remote_inode \<Rightarrow> bool" where
  "remote_typed n \<longleftrightarrow> pred_option valid_node_time (nr_mtime n) \<and>
     (case nr_content n of RemoteFile d \<Rightarrow> valid_digest d | RemoteDirectory d \<Rightarrow> valid_digest d
      | RemoteSymlink _ \<Rightarrow> True)"

definition remote_checked :: "new_remote_inode \<Rightarrow> bool" where
  "remote_checked n \<longleftrightarrow> valid_name (nr_name n) \<and> pred_option (\<lambda>m. m \<le> 0xFFF) (nr_mode n)"

lemma validate_remote_children_from_eq_Ok:
  "validate_remote_children_from seen cs = Ok u \<longleftrightarrow>
     list_all remote_checked cs \<and> distinct (map nr_name cs) \<and> (\<forall>c \<in> set cs. nr_name c \<notin> set seen)"
proof (induction cs arbitrary: seen)
  case (Cons c cs)
  show ?case
  proof (cases "remote_checked c \<and> nr_name c \<notin> set seen")
    case True
    then have "validate_remote_children_from seen (c # cs) = validate_remote_children_from (nr_name c # seen) cs"
      by (cases "nr_mode c")
        (auto simp: remote_checked_def validate_inode_name_def valid_name_def contains_char_def dest: leD)
    with True Cons.IH show ?thesis by (auto simp: image_iff simp del: validate_remote_children_from.simps)
  next
    case False
    then have "validate_remote_children_from seen (c # cs) \<noteq> Ok u"
      by (cases "nr_mode c") (auto simp: remote_checked_def result_simps)
    with False show ?thesis by auto
  qed
qed simp

lemma validate_remote_children_eq_Ok [result_simps]:
  "validate_remote_children cs = Ok u \<longleftrightarrow> list_all remote_checked cs \<and> distinct (map nr_name cs)"
  by (simp add: validate_remote_children_def validate_remote_children_from_eq_Ok)

lemma mode_check_iff:
  "(case m of None \<Rightarrow> False | Some m \<Rightarrow> m > (0xFFF :: u32)) \<longleftrightarrow> \<not> pred_option (\<lambda>m. m \<le> 0xFFF) m"
  by (cases m) (simp_all add: not_le)

lemma inode_of_remote_wf:
  assumes "remote_typed n" "remote_checked n" "valid_inode_id i" "valid_inode_id p" "i \<noteq> ROOT"
  shows "wf_inode (inode_of_remote i (Some p) n)"
  using assms
  by (cases "nr_content n")
    (simp_all add: wf_inode_def inode_of_remote_def remote_typed_def remote_checked_def validate_inode_def
      mode_check_iff validate_inode_hierarchy_def validate_inode_kind_def validate_file_inode_def
      validate_directory_inode_def validate_symlink_inode_def result_simps)

section \<open>Namespaces\<close>

text \<open>
  The abstract state of the \<^verbatim>\<open>inodes\<close> table: the inodes in order of identity. Identities increase
  strictly from the root's; every other inode has a parent that is an older, loaded directory; no two
  inodes share parent and name.
\<close>

definition wf_namespace :: "store_inode list \<Rightarrow> bool" where
  "wf_namespace ns \<longleftrightarrow>
     ns \<noteq> [] \<and> si_id (hd ns) = ROOT \<and> sorted_wrt (<) (map si_id ns) \<and>
     (\<forall>n \<in> set ns. wf_inode n) \<and>
     (\<forall>n \<in> set ns. \<forall>p. si_parent n = Some p \<longrightarrow>
        (\<exists>q \<in> set ns. si_id q = p \<and> p < si_id n \<and> si_kind q = Directory \<and> si_directory_loaded q = Some True)) \<and>
     distinct (map (\<lambda>n. (si_parent n, si_name n)) ns)"

definition represents :: "db \<Rightarrow> store_inode list \<Rightarrow> bool" where
  "represents d ns \<longleftrightarrow> db_inodes d = map row_of_inode ns \<and> wf_namespace ns \<and>
     db_sequence d = sqlite (si_id (last ns))"

definition inode_by_id :: "store_inode list \<Rightarrow> inode_id \<Rightarrow> store_inode option" where
  "inode_by_id ns i = find (\<lambda>n. si_id n = i) ns"

definition child_by_name :: "store_inode list \<Rightarrow> inode_id \<Rightarrow> string \<Rightarrow> store_inode option" where
  "child_by_name ns p name = find (\<lambda>n. si_parent n = Some p \<and> si_name n = name) ns"

definition children_of :: "store_inode list \<Rightarrow> inode_id \<Rightarrow> store_inode list" where
  "children_of ns p = sort_key si_name (filter (\<lambda>n. si_parent n = Some p) ns)"

lemma represents_wf: "represents d ns \<Longrightarrow> wf_namespace ns"
  by (simp add: represents_def)

lemma collect_rows: "\<forall>n \<in> set ns. wf_inode n \<Longrightarrow> collect validate_inode_row (map row_of_inode ns) = Ok ns"
  by (induction ns) (simp_all add: row_roundtrip)

lemma represents_unique: "represents d ns \<Longrightarrow> represents d ms \<Longrightarrow> ns = ms"
  unfolding represents_def wf_namespace_def by (metis collect_rows sum.inject(2))

lemma validated_find:
  "wf_namespace ns \<Longrightarrow>
     transpose_opt (map_option validate_inode_row (map_option row_of_inode (find P ns))) = Ok (find P ns)"
  by (cases "find P ns") (auto simp: row_roundtrip wf_namespace_def dest!: find_SomeD)

lemma get_inode_by_id_eq:
  assumes "represents d ns" and "sql_fault env ''get inode by id'' d = None"
  shows "get_inode_by_id env path d i = Ok (inode_by_id ns i)"
  using assms validated_find [of ns "\<lambda>n. si_id n = i"]
  by (simp add: get_inode_by_id_def represents_def sql_def find_map comp_def inode_by_id_def
      inode_id_eq_iff)

lemma lookup_child_eq:
  assumes "represents d ns" and "sql_fault env ''lookup child by name in dir inode'' d = None"
  shows "lookup_child_in_dir_inode env path d p name = Ok (child_by_name ns p name)"
  using assms validated_find [of ns "\<lambda>n. si_parent n = Some p \<and> si_name n = name"]
  by (simp add: lookup_child_in_dir_inode_def represents_def sql_def find_map comp_def
      child_by_name_def inode_id_eq_iff [symmetric])

lemma get_children_eq:
  assumes "represents d ns" and "sql_fault env ''prepare children'' d = None"
    and "sql_fault env ''list children'' d = None" and "sql_fault env ''decode child'' d = None"
  shows "get_directory_children_on env path d p = Ok (children_of ns p)"
proof -
  have rows: "children_rows d (sqlite p) = map row_of_inode (children_of ns p)"
    using assms(1) by (simp add: children_rows_def children_of_def represents_def filter_map
        sort_key_map comp_def inode_id_eq_iff [symmetric])
  have "collect validate_inode_row (map row_of_inode (children_of ns p)) = Ok (children_of ns p)"
    using represents_wf [OF assms(1)] by (intro collect_rows) (simp add: wf_namespace_def children_of_def)
  with assms(2-) rows show ?thesis
    by (simp add: get_directory_children_on_def sql_def)
qed

section \<open>Materialising a directory\<close>

text \<open>The specification: number the children from the last identity on, and mark the parent loaded.\<close>

fun new_inodes :: "inode_id \<Rightarrow> int \<Rightarrow> new_remote_inode list \<Rightarrow> store_inode list" where
  "new_inodes p k [] = []"
| "new_inodes p k (c # cs) = inode_of_remote (InodeId (k + 1)) (Some p) c # new_inodes p (k + 1) cs"

definition mark_loaded :: "inode_id \<Rightarrow> store_inode \<Rightarrow> store_inode" where
  "mark_loaded p n = (if si_id n = p then n\<lparr>si_directory_loaded := Some True\<rparr> else n)"

definition materialize :: "inode_id \<Rightarrow> new_remote_inode list \<Rightarrow> store_inode list \<Rightarrow> store_inode list" where
  "materialize p cs ns = map (mark_loaded p) ns @ new_inodes p (sqlite (si_id (last ns))) cs"

definition seq_ok :: "db \<Rightarrow> bool" where
  "seq_ok d \<longleftrightarrow> (\<forall>r \<in> set (db_inodes d). ir_id r \<le> db_sequence d)"

lemma next_rowid_eq: "seq_ok d \<Longrightarrow> next_rowid d = db_sequence d + 1"
  unfolding next_rowid_def seq_ok_def by (subst Max_eq_iff [THEN iffD2, of _ "db_sequence d"]) auto

lemma insert_remote_inode_Ok:
  assumes "insert_remote_inode env path parent n d = (Ok i, d')" and "seq_ok d"
  shows "i = InodeId (db_sequence d + 1) \<and> db_sequence d + 1 \<le> i64_max \<and>
    d' = d\<lparr>db_inodes := db_inodes d @ [row_of_inode (inode_of_remote i parent n)],
           db_sequence := db_sequence d + 1\<rparr>"
proof -
  have "insert_inode_stmt (remote_row parent n) d = Ok d'" and i: "from_sqlite (db_sequence d') = Ok i"
    using assms(1) by (auto simp: insert_remote_inode_def txn_Ok)
  then have "db_sequence d + 1 \<le> i64_max" and d':
    "d' = d\<lparr>db_inodes := db_inodes d @ [(remote_row parent n)\<lparr>ir_id := db_sequence d + 1\<rparr>],
           db_sequence := db_sequence d + 1\<rparr>"
    by (auto simp: insert_inode_stmt_def next_rowid_eq [OF assms(2)] Let_def split: if_splits)
  moreover from i d' have "i = InodeId (db_sequence d + 1)" by (simp add: result_simps)
  ultimately show ?thesis using remote_row_eq [where i = i] by simp
qed

lemma find_append_None: "find P xs = None \<Longrightarrow> P x \<Longrightarrow> find P (xs @ [x]) = Some x"
  by (induction xs) (auto split: if_splits)

lemma find_append_last: "\<not> P x \<Longrightarrow> find P (xs @ [x]) = find P xs"
  by (induction xs) auto

lemma insert_child_eq_Ok:
  "insert_child env path p c d = (Ok u, d') \<longleftrightarrow> (\<exists>i. insert_remote_inode env path (Some p) c d = (Ok i, d'))"
  by (auto simp: insert_child_def txn_Ok)

lemma seq_ok_insert:
  "seq_ok d \<Longrightarrow> ir_id r = db_sequence d + 1 \<Longrightarrow>
     seq_ok (d\<lparr>db_inodes := db_inodes d @ [r], db_sequence := db_sequence d + 1\<rparr>)"
  by (auto simp: seq_ok_def)

lemma insert_children_Ok:
  assumes "txn_for (insert_child env path p) cs d = (Ok u, d')" and "seq_ok d"
  shows "d' = d\<lparr>db_inodes := db_inodes d @ map row_of_inode (new_inodes p (db_sequence d) cs),
                db_sequence := db_sequence d + int (length cs)\<rparr> \<and>
    (cs \<noteq> [] \<longrightarrow> db_sequence d + int (length cs) \<le> i64_max)"
  using assms
proof (induction cs arbitrary: d)
  case (Cons c cs)
  let ?i = "InodeId (db_sequence d + 1)"
  let ?d = "d\<lparr>db_inodes := db_inodes d @ [row_of_inode (inode_of_remote ?i (Some p) c)],
              db_sequence := db_sequence d + 1\<rparr>"
  obtain i d1 where one: "insert_remote_inode env path (Some p) c d = (Ok i, d1)"
    and rest: "txn_for (insert_child env path p) cs d1 = (Ok u, d')"
    using Cons.prems(1) by (auto simp: txn_then_eq_Ok insert_child_eq_Ok)
  have d1: "d1 = ?d" and b: "db_sequence d + 1 \<le> i64_max"
    using insert_remote_inode_Ok [OF one Cons.prems(2)] by auto
  have "seq_ok d1" unfolding d1 by (rule seq_ok_insert [OF Cons.prems(2)]) simp
  from Cons.IH [OF rest this] b show ?case
    by (cases cs) (auto simp: d1)
qed auto

lemma new_inodes_ids: "map si_id (new_inodes p k cs) = map InodeId [k + 1..k + int (length cs)]"
proof (induction cs arbitrary: k)
  case (Cons c cs)
  have "[k + 1..k + int (length (c # cs))] = (k + 1) # [k + 1 + 1..k + 1 + int (length cs)]"
    by (simp add: upto_rec1 algebra_simps)
  with Cons show ?case by simp
qed simp

lemma new_inodes_sel:
  "map si_name (new_inodes p k cs) = map nr_name cs"
  "n \<in> set (new_inodes p k cs) \<Longrightarrow> si_parent n = Some p"
  "n \<in> set (new_inodes p k cs) \<Longrightarrow> k < sqlite (si_id n) \<and> sqlite (si_id n) \<le> k + int (length cs)"
  "length (new_inodes p k cs) = length cs"
  by (induction cs arbitrary: k) (force simp: algebra_simps)+

lemma new_inodes_wf:
  assumes "list_all remote_checked cs" "list_all remote_typed cs" "valid_inode_id p" "1 \<le> k"
    and "cs \<noteq> [] \<longrightarrow> k + int (length cs) \<le> i64_max"
  shows "\<forall>n \<in> set (new_inodes p k cs). wf_inode n"
  using assms
proof (induction cs arbitrary: k)
  case (Cons c cs)
  then have "wf_inode (inode_of_remote (InodeId (k + 1)) (Some p) c)"
    by (intro inode_of_remote_wf) (auto simp: valid_inode_id_def is_i64_def ROOT_def)
  moreover have "\<forall>n \<in> set (new_inodes p (k + 1) cs). wf_inode n"
    using Cons by (intro Cons.IH) auto
  ultimately show ?case by simp
qed simp

lemma wf_namespaceD:
  assumes "wf_namespace ns"
  shows "ns \<noteq> []" "si_id (hd ns) = ROOT" "sorted_wrt (<) (map si_id ns)" "n \<in> set ns \<Longrightarrow> wf_inode n"
    "distinct (map (\<lambda>n. (si_parent n, si_name n)) ns)"
    "n \<in> set ns \<Longrightarrow> si_parent n = Some p \<Longrightarrow>
       \<exists>q \<in> set ns. si_id q = p \<and> p < si_id n \<and> si_kind q = Directory \<and> si_directory_loaded q = Some True"
  using assms by (simp_all add: wf_namespace_def)

lemma wf_namespace_ids_le_last:
  assumes "wf_namespace ns" and "n \<in> set ns"
  shows "si_id n \<le> si_id (last ns)"
proof -
  obtain ms x where "ns = ms @ [x]" using wf_namespaceD(1) [OF assms(1)] by (metis rev_exhaust)
  with assms(2) wf_namespaceD(3) [OF assms(1)] show ?thesis by (auto simp: sorted_wrt_append)
qed

lemma wf_namespace_last_pos:
  assumes "wf_namespace ns"
  shows "1 \<le> sqlite (si_id (last ns)) \<and> sqlite (si_id (last ns)) \<le> i64_max"
  using wf_namespaceD(4) [OF assms last_in_set] wf_namespaceD(1) [OF assms]
  by (simp add: wf_inode_def valid_inode_id_def is_i64_def)

lemma represents_seq_ok: "represents d ns \<Longrightarrow> seq_ok d"
  using wf_namespace_ids_le_last [of ns]
  by (auto simp: represents_def seq_ok_def less_eq_inode_id_def)

lemma mark_loaded_sel [simp]:
  "si_id (mark_loaded p n) = si_id n" "si_parent (mark_loaded p n) = si_parent n"
  "si_name (mark_loaded p n) = si_name n" "si_kind (mark_loaded p n) = si_kind n"
  by (simp_all add: mark_loaded_def)

lemma mark_loaded_wf: "wf_inode n \<Longrightarrow> (si_id n = p \<Longrightarrow> si_kind n = Directory) \<Longrightarrow> wf_inode (mark_loaded p n)"
  by (cases "si_id n = p")
    (auto simp: wf_inode_def mark_loaded_def validate_inode_def validate_inode_hierarchy_def
      validate_inode_kind_def validate_directory_inode_def result_simps split: if_splits option.splits)

lemma mark_loaded_row:
  "(if sqlite (si_id n) = sqlite p then (row_of_inode n)\<lparr>ir_directory_loaded := Some 1\<rparr> else row_of_inode n) =
     row_of_inode (mark_loaded p n)"
  by (simp add: mark_loaded_def row_of_inode_def inode_id_eq_iff)

lemma wf_namespace_unique: "wf_namespace ns \<Longrightarrow> m \<in> set ns \<Longrightarrow> n \<in> set ns \<Longrightarrow> si_id m = si_id n \<Longrightarrow> m = n"
  using strict_sorted_iff [of "map si_id ns"] by (auto simp: wf_namespace_def distinct_map dest: inj_onD)

lemma pair_image_disjoint: "(\<And>x. (a, x) \<notin> S) \<Longrightarrow> S \<inter> Pair a ` T = {}"
  by auto

lemma materialize_wf:
  assumes wf: "wf_namespace ns" and q: "q \<in> set ns" "si_id q = p" "si_kind q = Directory"
    and empty: "children_of ns p = []"
    and cs: "list_all remote_checked cs" "distinct (map nr_name cs)" "list_all remote_typed cs"
    and bound: "cs \<noteq> [] \<longrightarrow> sqlite (si_id (last ns)) + int (length cs) \<le> i64_max"
  shows "wf_namespace (materialize p cs ns)"
proof -
  let ?k = "sqlite (si_id (last ns))" let ?new = "new_inodes p ?k cs" let ?old = "map (mark_loaded p) ns"
  have p: "valid_inode_id p" and pk: "sqlite p \<le> ?k"
    using wf q wf_namespace_ids_le_last [OF wf q(1)]
    by (auto simp: wf_namespace_def wf_inode_def less_eq_inode_id_def)
  have ids: "sorted_wrt (<) (map si_id (?old @ ?new))"
  proof -
    have "sorted_wrt (<) (map si_id ?old)"
      using wf by (simp add: wf_namespace_def comp_def)
    moreover have "sorted_wrt (<) (map si_id ?new)"
      unfolding new_inodes_ids by (simp add: sorted_wrt_map less_inode_id_def)
    moreover have "si_id m < si_id n" if "m \<in> set ?old" "n \<in> set ?new" for m n
      using that wf_namespace_ids_le_last [OF wf] new_inodes_sel(3) [OF that(2)]
      by (force simp: less_eq_inode_id_def less_inode_id_def)
    ultimately show ?thesis unfolding map_append sorted_wrt_append by force
  qed
  have wfs: "\<forall>n \<in> set (?old @ ?new). wf_inode n"
  proof -
    have "wf_inode (mark_loaded p n)" if "n \<in> set ns" for n
      using wf_namespaceD(4) [OF wf that] wf_namespace_unique [OF wf that q(1)] q
      by (intro mark_loaded_wf) auto
    then show ?thesis
      using new_inodes_wf [OF cs(1,3) p _ bound] wf_namespace_last_pos [OF wf] by auto
  qed
  have parents: "\<exists>r \<in> set (?old @ ?new). si_id r = a \<and> a < si_id n \<and> si_kind r = Directory \<and>
      si_directory_loaded r = Some True" if "n \<in> set (?old @ ?new)" "si_parent n = Some a" for n a
  proof (cases "n \<in> set ?old")
    case True
    then obtain m where "m \<in> set ns" "n = mark_loaded p m" by auto
    with wf_namespaceD(6) [OF wf, of m a] that(2) obtain r where "r \<in> set ns" "si_id r = a"
      "a < si_id n" "si_kind r = Directory" "si_directory_loaded r = Some True" by auto
    then show ?thesis by (intro bexI [of _ "mark_loaded p r"]) (auto simp: mark_loaded_def)
  next
    case False
    with that have "a = p" "?k < sqlite (si_id n)" using new_inodes_sel(2,3) by auto
    with pk q show ?thesis
      by (intro bexI [of _ "mark_loaded p q"]) (auto simp: mark_loaded_def less_inode_id_def)
  qed
  have names: "distinct (map (\<lambda>n. (si_parent n, si_name n)) (?old @ ?new))"
  proof -
    have new: "map (\<lambda>n. (si_parent n, si_name n)) ?new = map (Pair (Some p)) (map nr_name cs)"
      unfolding new_inodes_sel(1) [of p ?k cs, symmetric] using new_inodes_sel(2) by auto
    have "(Some p, x) \<notin> (\<lambda>n. (si_parent n, si_name n)) ` set ?old" for x
    proof -
      have "filter (\<lambda>n. si_parent n = Some p) ns = []"
        using arg_cong [OF empty, of set] by (simp add: children_of_def flip: set_empty)
      then show ?thesis by (auto simp: filter_empty_conv)
    qed
    then have "set (map (\<lambda>n. (si_parent n, si_name n)) ?old) \<inter> set (map (Pair (Some p)) (map nr_name cs)) = {}"
      unfolding set_map by (rule pair_image_disjoint)
    moreover have "distinct (map (\<lambda>n. (si_parent n, si_name n)) ?old)"
      using wf_namespaceD(5) [OF wf] by (simp add: comp_def)
    moreover have "distinct (map (Pair (Some p)) (map nr_name cs))"
      using cs(2) unfolding distinct_map [of "Pair (Some p)"] by (simp add: inj_on_def)
    ultimately show ?thesis unfolding map_append new distinct_append by blast
  qed
  show ?thesis
    using wf_namespaceD(1,2) [OF wf] ids wfs parents names unfolding wf_namespace_def materialize_def
    by (simp add: hd_append hd_map)
qed

lemma materialize_represents:
  assumes d: "represents d ns" and q: "inode_by_id ns p = Some q" "si_kind q = Directory"
    and empty: "children_of ns p = []"
    and cs: "list_all remote_checked cs" "distinct (map nr_name cs)" "list_all remote_typed cs"
    and ins: "txn_for (insert_child env path p) cs d = (Ok u, d1)"
    and upd: "mark_loaded_stmt p d1 = Ok d2"
  shows "represents d2 (materialize p cs ns) \<and> db_session d2 = db_session d \<and>
    db_user_version d2 = db_user_version d"
proof -
  let ?new = "new_inodes p (db_sequence d) cs"
  have q': "q \<in> set ns" "si_id q = p" using q(1) by (auto simp: inode_by_id_def dest: find_SomeD)
  have rows: "db_inodes d = map row_of_inode ns" and sq: "db_sequence d = sqlite (si_id (last ns))"
    and wf: "wf_namespace ns" using d by (simp_all add: represents_def)
  have d1: "d1 = d\<lparr>db_inodes := map row_of_inode (ns @ ?new), db_sequence := db_sequence d + int (length cs)\<rparr>"
    and bound: "cs \<noteq> [] \<longrightarrow> db_sequence d + int (length cs) \<le> i64_max"
    using insert_children_Ok [OF ins represents_seq_ok [OF d]] rows by simp_all
  have "sqlite p \<le> db_sequence d"
    using wf_namespace_ids_le_last [OF wf q'(1)] q'(2) sq by (simp add: less_eq_inode_id_def)
  then have "mark_loaded p n = n" if "n \<in> set ?new" for n
    using new_inodes_sel(3) [OF that] by (auto simp: mark_loaded_def inode_id_eq_iff)
  then have new: "map (mark_loaded p) ?new = ?new" by (simp add: map_idI)
  have "db_inodes d2 = map row_of_inode (map (mark_loaded p) (ns @ ?new))"
    using upd unfolding d1 mark_loaded_stmt_def by (auto simp: mark_loaded_row)
  then have "db_inodes d2 = map row_of_inode (materialize p cs ns)"
    unfolding map_append [of "mark_loaded p"] new by (simp add: materialize_def sq)
  moreover have "db_sequence d2 = sqlite (si_id (last (materialize p cs ns)))"
  proof (cases cs rule: rev_cases)
    case Nil
    with upd d1 sq wf_namespaceD(1) [OF wf] show ?thesis
      by (auto simp: mark_loaded_stmt_def materialize_def last_map)
  next
    case (snoc cs' c)
    then have "?new \<noteq> []" using new_inodes_sel(4) [of p "db_sequence d" cs] by auto
    then have "si_id (last ?new) = last (map si_id ?new)" by (simp add: last_map)
    also have "\<dots> = InodeId (db_sequence d + int (length cs))"
      unfolding new_inodes_ids using snoc by (simp add: upto_rec2)
    finally show ?thesis
      using upd d1 \<open>?new \<noteq> []\<close> unfolding materialize_def sq [symmetric] by (auto simp: mark_loaded_stmt_def)
  qed
  moreover have "wf_namespace (materialize p cs ns)"
    using materialize_wf [OF wf q' q(2) empty cs] bound sq by simp
  ultimately show ?thesis
    using upd d1 by (auto simp: represents_def mark_loaded_stmt_def)
qed

lemma unloaded_no_children:
  assumes "wf_namespace ns" "inode_by_id ns p = Some q" "si_directory_loaded q \<noteq> Some True"
  shows "children_of ns p = []"
proof -
  have q: "q \<in> set ns" "si_id q = p" using assms(2) by (auto simp: inode_by_id_def dest: find_SomeD)
  have "si_parent n \<noteq> Some p" if "n \<in> set ns" for n
    using wf_namespaceD(6) [OF assms(1) that, of p] wf_namespace_unique [OF assms(1) q(1)] q(2) assms(3)
    by metis
  then show ?thesis by (simp add: children_of_def filter_empty_conv)
qed

lemma children_of_materialize:
  assumes "children_of ns p = []"
  shows "children_of (materialize p cs ns) p = sort_key si_name (new_inodes p (sqlite (si_id (last ns))) cs)"
proof -
  have "filter (\<lambda>n. si_parent n = Some p) ns = []"
    using arg_cong [OF assms, of set] by (simp add: children_of_def flip: set_empty)
  then have "filter (\<lambda>n. si_parent n = Some p) (map (mark_loaded p) ns) = []"
    by (auto simp: filter_empty_conv)
  moreover have "filter (\<lambda>n. si_parent n = Some p) (new_inodes p k cs) = new_inodes p k cs" for k
    using new_inodes_sel(2) by (simp add: filter_id_conv)
  ultimately show ?thesis by (simp add: children_of_def materialize_def)
qed

lemma inode_by_id_materialize: "inode_by_id ns p = Some q \<Longrightarrow> inode_by_id (materialize p cs ns) p = Some (mark_loaded p q)"
  by (induction ns) (auto simp: inode_by_id_def materialize_def split: if_splits)

section \<open>The session row\<close>

definition session_of :: "(string \<Rightarrow> bool) \<Rightarrow> db \<Rightarrow> session_metadata option" where
  "session_of uuid_ok d = Option.bind (db_session d 1) (\<lambda>c.
     case session_row_from_rusqlite 1 c of Inl _ \<Rightarrow> None
     | Inr r \<Rightarrow> (case validate_session uuid_ok r of Inl _ \<Rightarrow> None | Inr md \<Rightarrow> Some md))"

lemma session_of_eq_Some:
  "session_of uuid_ok d = Some md \<longleftrightarrow>
     (\<exists>c r. db_session d 1 = Some c \<and> session_row_from_rusqlite 1 c = Ok r \<and> validate_session uuid_ok r = Ok md)"
proof (cases "db_session d 1")
  case (Some c)
  then show ?thesis
    by (cases "session_row_from_rusqlite 1 c"; cases "validate_session uuid_ok (projr (session_row_from_rusqlite 1 c))")
      (simp_all add: session_of_def)
qed (simp add: session_of_def)

lemma read_stored_session_eq_Ok:
  "read_stored_session env path d = Ok md \<longleftrightarrow>
     sql_fault env ''read session metadata'' d = None \<and> session_of (uuid_parse_ok env) d = Some md"
  by (auto simp: read_stored_session_def session_of_def result_simps split: sum.splits bind_splits)

lemma ensure_active_eq_Ok:
  "ensure_active env path d = Ok u \<longleftrightarrow>
     sql_fault env ''read session metadata'' d = None \<and>
     (\<exists>md. session_of (uuid_parse_ok env) d = Some md \<and> md_state md = Active)"
  by (auto simp: ensure_active_def result_simps read_stored_session_eq_Ok)

lemma ensure_active_inactive:
  assumes "session_of (uuid_parse_ok env) d = Some md" "md_state md \<noteq> Active" "sql_fault env ''read session metadata'' d = None"
  shows "\<exists>e. ensure_active env path d = Err e \<and> is_failed_precondition e"
proof -
  have "read_stored_session env path d = Ok md" using assms by (simp add: read_stored_session_eq_Ok)
  with assms(2) show ?thesis by (simp add: ensure_active_def)
qed

text \<open>What holds of every database that the store has created.\<close>

definition wf_db :: "(string \<Rightarrow> bool) \<Rightarrow> db \<Rightarrow> bool" where
  "wf_db uuid_ok d \<longleftrightarrow> db_user_version d = SCHEMA_VERSION \<and> (\<exists>ns. represents d ns) \<and>
     (\<exists>md. session_of uuid_ok d = Some md \<and> md_state md \<noteq> Initializing)"

section \<open>Operations characterised\<close>

lemma get_inode_by_id_OkD:
  "represents d ns \<Longrightarrow> get_inode_by_id env path d i = Ok x \<Longrightarrow> x = inode_by_id ns i"
  using get_inode_by_id_eq [of d ns env path i]
  by (cases "sql_fault env ''get inode by id'' d") (auto simp: get_inode_by_id_def sql_def)

lemma get_children_OkD:
  "represents d ns \<Longrightarrow> get_directory_children_on env path d p = Ok xs \<Longrightarrow> xs = children_of ns p"
  using get_children_eq [of d ns env path p]
  by (auto simp: get_directory_children_on_def sql_def split: option.splits)

lemma materialize_body_Ok:
  assumes d: "represents d ns" and cs: "list_all remote_typed cs"
    and run: "materialize_body env path p cs d = (Ok xs, d')"
  shows "\<exists>q. inode_by_id ns p = Some q \<and> si_kind q = Directory \<and>
    (if si_directory_loaded q = Some True then d' = d \<and> xs = children_of ns p
     else validate_remote_children cs = Ok () \<and> represents d' (materialize p cs ns) \<and>
       xs = sort_key si_name (new_inodes p (sqlite (si_id (last ns))) cs) \<and>
       db_session d' = db_session d \<and> db_user_version d' = db_user_version d \<and>
       (\<exists>d1. txn_for (insert_child env path p) cs d = (Ok (), d1)))"
proof -
  obtain found q u v w stored where
    g: "get_inode_by_id env path d p = Ok found" "found = Some q" "ensure_inode_is_dir q = Ok u"
      "get_directory_children_on env path d p = Ok stored" and
    rest: "(if si_directory_loaded q = Some True then txn_return stored
      else if stored \<noteq> [] then txn_fail (InternalError ''unloaded directory inode already has stored children'')
      else txn_then (txn_context ''validate children to create in directory inode''
             (txn_read (\<lambda>_. validate_remote_children cs))) (\<lambda>_.
           txn_then (txn_for (insert_child env path p) cs) (\<lambda>_.
           txn_then (txn_execute env path ''mark directory loaded'' (mark_loaded_stmt p)) (\<lambda>_.
             txn_context ''read children of directory inode after creation''
               (txn_read (\<lambda>d. get_directory_children_on env path d p)))))) d = (Ok xs, d')"
    using run by (auto simp: materialize_body_def ok_or_def split: sum.splits option.splits)
  have q: "inode_by_id ns p = Some q" and stored: "stored = children_of ns p" and dir: "si_kind q = Directory"
    using get_inode_by_id_OkD [OF d g(1)] g(2,3) get_children_OkD [OF d g(4)]
    by (simp_all add: ensure_inode_is_dir_def split: if_splits)
  show ?thesis
  proof (cases "si_directory_loaded q = Some True")
    case True
    with rest stored q dir show ?thesis by simp
  next
    case False
    have empty: "children_of ns p = []" by (rule unloaded_no_children [OF represents_wf [OF d] q False])
    from rest False stored empty obtain d1 where
      v: "validate_remote_children cs = Ok ()" and i: "txn_for (insert_child env path p) cs d = (Ok (), d1)" and
      m: "mark_loaded_stmt p d1 = Ok d'" and l: "get_directory_children_on env path d' p = Ok xs"
      by (auto simp: txn_Ok result_context_eq_Ok split: sum.splits)
    have r: "represents d' (materialize p cs ns)" "db_session d' = db_session d"
      "db_user_version d' = db_user_version d"
      using materialize_represents [OF d q dir empty _ _ cs i m] v by (simp_all add: result_simps)
    with get_children_OkD [OF r(1) l] False v q dir empty i show ?thesis by (simp add: children_of_materialize)
  qed
qed

lemma session_of_cong: "db_session d' = db_session d \<Longrightarrow> session_of uuid_ok d' = session_of uuid_ok d"
  by (simp add: session_of_def)

lemma materialize_body_wf:
  assumes "wf_db u d" "list_all remote_typed cs" "materialize_body env path p cs d = (Ok xs, d')"
  shows "wf_db u d'"
proof -
  obtain ns where "represents d ns" using assms(1) by (auto simp: wf_db_def)
  from materialize_body_Ok [OF this assms(2,3)] assms(1) show ?thesis
    by (auto simp: wf_db_def session_of_cong [of d' d] split: if_splits)
qed

text \<open>Closing.\<close>

lemma session_of_closed:
  assumes "session_of u d = Some md" "md_state md = Active" "0 \<le> s" "mark_closed_stmt s d = Ok d'"
  shows "session_of u d' = Some (md\<lparr>md_state := Closed\<rparr>)"
proof -
  obtain c r where c: "db_session d 1 = Some c" "session_row_from_rusqlite 1 c = Ok r" "validate_session u r = Ok md"
    using assms(1) by (auto simp: session_of_eq_Some)
  let ?c = "c\<lparr>smc_lifecycle := Some ''closed'', smc_closed_at_seconds := Some s\<rparr>"
  let ?r = "r\<lparr>smr_lifecycle := ''closed'', smr_closed_at_seconds := Some s\<rparr>"
  have row: "session_row_from_rusqlite 1 ?c = Ok ?r"
    using c(2) by (auto simp: session_row_from_rusqlite_def get_column_def result_simps)
  have "validate_session u ?r = Ok (md\<lparr>md_state := Closed\<rparr>)"
    using c(3) assms(3) by (auto simp: validate_session_def result_simps parse_lifecycle_def split: if_splits)
  with row c(1) assms(4) show ?thesis
    by (auto simp: session_of_def mark_closed_stmt_def)
qed

lemma now_seconds_OkD: "now_seconds clock = Ok s \<Longrightarrow> 0 \<le> s \<and> s \<le> i64_max"
  by (auto simp: now_seconds_def result_simps conv_simps split: if_splits)

lemma mark_closed_sel:
  "mark_closed_stmt s d = Ok d' \<Longrightarrow> db_inodes d' = db_inodes d \<and> db_sequence d' = db_sequence d \<and>
     db_user_version d' = db_user_version d"
  by (auto simp: mark_closed_stmt_def split: option.splits)

lemma close_body_Ok:
  assumes "close_body env path s d = (Ok u, d')"
  shows "\<exists>md. session_of (uuid_parse_ok env) d = Some md \<and> md_state md = Active \<and> mark_closed_stmt s d = Ok d'"
  using assms by (auto simp: close_body_def txn_execute_eq_Ok ensure_active_eq_Ok split: sum.splits)

lemma close_body_wf:
  assumes "close_body env path s d = (Ok x, d')" "wf_db (uuid_parse_ok env) d" "0 \<le> s"
  shows "wf_db (uuid_parse_ok env) d'"
proof -
  obtain md where md: "session_of (uuid_parse_ok env) d = Some md" "md_state md = Active"
    and m: "mark_closed_stmt s d = Ok d'"
    using close_body_Ok [OF assms(1)] by blast
  from session_of_closed [OF md assms(3) m] mark_closed_sel [OF m] assms(2) show ?thesis
    by (simp add: wf_db_def represents_def)
qed

lemma store_close_Ok:
  assumes "store_close env clock st = (Ok u, st')"
  shows "\<exists>s. now_seconds clock = Ok s \<and> txn_commits (''close session'', close_body env (database_path st) s) st u st'"
  using assms by (auto simp: store_close_def result_context_eq_Ok dest!: with_transaction_Ok split: sum.splits)

text \<open>Creation.\<close>

definition root_inode :: "digest \<Rightarrow> store_inode" where
  "root_inode root = inode_of_remote ROOT None
     \<lparr>nr_name = [], nr_mode = None, nr_mtime = None, nr_content = RemoteDirectory root\<rparr>"

lemma root_namespace_wf: "valid_digest root \<Longrightarrow> wf_namespace [root_inode root]"
  by (simp add: wf_namespace_def root_inode_def wf_inode_def inode_of_remote_def validate_inode_def
      validate_inode_hierarchy_def validate_inode_kind_def validate_directory_inode_def)

lemma insert_session_session_of:
  assumes "insert_session_stmt sid pid root mp now d = Ok d'" "uuid_ok sid" "pid \<noteq> 0" "valid_digest root" "0 \<le> now"
  shows "session_of uuid_ok d' =
    Some \<lparr>md_daemon_pid = pid, md_state = Active, md_root_digest = root, md_mountpoint = mp\<rparr>"
proof -
  have "0 < uint pid" using assms(3) by (simp add: uint_0_iff less_le)
  with assms show ?thesis
    by (auto simp: insert_session_stmt_def session_of_def session_row_from_rusqlite_def get_column_def
        validate_session_def parse_lifecycle_def u32_roundtrip digest_new_valid split: if_splits)
qed

lemma initialize_database_Ok:
  assumes run: "initialize_database env clock sid pid root mp st = (Ok u, st')"
    and fresh: "db_inodes (connection st) = []" "db_sequence (connection st) = 0" and root: "valid_digest root"
  shows "represents (connection st') [root_inode root] \<and>
    db_user_version (connection st') = db_user_version (connection st) \<and>
    session_of (uuid_parse_ok env) (connection st') =
      Some \<lparr>md_daemon_pid = pid, md_state = Active, md_root_digest = root, md_mountpoint = the mp\<rparr>"
proof -
  let ?d = "connection st"
  obtain m now d1 d2 i where mp: "mp = Some m" and ok: "uuid_parse_ok env sid" "pid \<noteq> 0" and
    now: "now_seconds clock = Ok now" and
    d1: "insert_session_stmt sid pid root m now ?d = Ok d1" and
    d2: "insert_remote_inode env (database_path st) None
      \<lparr>nr_name = [], nr_mode = None, nr_mtime = None, nr_content = RemoteDirectory root\<rparr> d1 = (Ok i, d2)" and
    st': "st' = st\<lparr>connection := d2\<rparr>"
    using run
    by (fastforce simp: initialize_database_def insert_session_def insert_root_inode_def txn_Ok
        txn_commits_def result_context_eq_Ok split: option.splits if_splits sum.splits
        dest!: with_transaction_Ok)
  have sel: "db_inodes d1 = []" "db_sequence d1 = 0" "db_user_version d1 = db_user_version ?d"
    using d1 fresh by (auto simp: insert_session_stmt_def split: if_splits)
  then have "seq_ok d1" by (simp add: seq_ok_def)
  from insert_remote_inode_Ok [OF d2 this] sel
  have "d2 = d1\<lparr>db_inodes := [row_of_inode (root_inode root)], db_sequence := 1\<rparr>"
    by (simp add: root_inode_def ROOT_def)
  with sel root_namespace_wf [OF root] session_of_cong [of d2 d1]
    insert_session_session_of [where uuid_ok = "uuid_parse_ok env", OF d1 ok root] now_seconds_OkD [OF now] st' mp
  show ?thesis by (simp add: represents_def root_inode_def)
qed

lemma store_create_empty_file:
  "store_create env clock path sid pid root mp (Some empty_db) = store_create env clock path sid pid root mp None"
  by (simp add: store_create_def open_database_def)

lemma store_create_fresh:
  assumes "store_create env clock path sid pid root mp None = Ok st" and "valid_digest root"
  shows "represents (connection st) [root_inode root] \<and> wf_db (uuid_parse_ok env) (connection st) \<and>
    session_of (uuid_parse_ok env) (connection st) =
      Some \<lparr>md_daemon_pid = pid, md_state = Active, md_root_digest = root, md_mountpoint = the mp\<rparr>"
proof -
  obtain d where d: "prepare_schema env path empty_db = Ok d"
    and i: "initialize_database env clock sid pid root mp
      \<lparr>database_path = path, connection = d, poisoned = False\<rparr> = (Ok (), st)"
    using assms(1) by (auto simp: store_create_def open_database_def result_simps split_beta)
      (metis prod.collapse)
  have "d = empty_db\<lparr>db_user_version := SCHEMA_VERSION\<rparr>"
    using d by (auto simp: prepare_schema_def schema_version_def result_simps empty_db_def split: if_splits)
  with initialize_database_Ok [OF i _ _ assms(2)] show ?thesis
    by (auto simp: wf_db_def empty_db_def)
qed

lemma with_transaction_fixed:
  "with_transaction env op body st = (r, st') \<Longrightarrow> poisoned st' = poisoned st \<and> database_path st' = database_path st"
  by (cases r) (auto dest!: with_transaction_Ok with_transaction_Err simp: txn_commits_def)

lemma initialize_database_fixed:
  "initialize_database env clock sid pid root mp st = (r, st') \<Longrightarrow> poisoned st' = poisoned st"
  unfolding initialize_database_def
  by (cases mp; cases "now_seconds clock"; simp split: if_splits) (auto dest: with_transaction_fixed)

lemma store_create_not_poisoned:
  assumes "store_create env clock path sid pid root mp file = Ok st"
  shows "\<not> poisoned st"
proof -
  obtain d where "initialize_database env clock sid pid root mp
      \<lparr>database_path = path, connection = d, poisoned = False\<rparr> = (Ok (), st)"
    using assms by (auto simp: store_create_def result_simps split_beta) (metis prod.collapse)
  then show ?thesis using initialize_database_fixed by fastforce
qed

section \<open>Reachable stores\<close>

text \<open>
  The stores that the operations can produce, from a fresh database on. Each operation may run with
  other engine failures than the one before; only the \<^verbatim>\<open>uuid\<close> crate's parser stays the same.
\<close>

inductive reachable_store :: "(string \<Rightarrow> bool) \<Rightarrow> session_store \<Rightarrow> bool" for uuid_ok where
  created: "uuid_parse_ok env = uuid_ok \<Longrightarrow> valid_digest root \<Longrightarrow>
     store_create env clock path sid pid root mp None = Ok st \<Longrightarrow> reachable_store uuid_ok st"
| materialized: "reachable_store uuid_ok st \<Longrightarrow> uuid_parse_ok env = uuid_ok \<Longrightarrow> list_all remote_typed cs \<Longrightarrow>
     get_or_create_remote_dir_children env p cs st = (r, st') \<Longrightarrow> reachable_store uuid_ok st'"
| closed: "reachable_store uuid_ok st \<Longrightarrow> uuid_parse_ok env = uuid_ok \<Longrightarrow>
     store_close env clock st = (r', st') \<Longrightarrow> reachable_store uuid_ok st'"

lemma get_or_create_wf:
  assumes "wf_db u (connection st)" "list_all remote_typed cs"
  shows "wf_db u (connection (snd (get_or_create_remote_dir_children env p cs st)))"
  unfolding get_or_create_remote_dir_children_def
  using assms materialize_body_wf by (intro with_transaction_preserves [where I = "wf_db u"]) blast+

lemma store_close_wf:
  assumes "wf_db (uuid_parse_ok env) (connection st)"
  shows "wf_db (uuid_parse_ok env) (connection (snd (store_close env clock st)))"
proof (cases "now_seconds clock")
  case (Inr s)
  then have "0 \<le> s" by (blast dest: now_seconds_OkD)
  then have "wf_db (uuid_parse_ok env) (connection (snd (with_transaction env ''close session''
      (close_body env (database_path st) s) st)))"
    using assms close_body_wf by (intro with_transaction_preserves [where I = "wf_db (uuid_parse_ok env)"]) blast+
  with Inr show ?thesis by (simp add: store_close_def)
qed (use assms in \<open>simp add: store_close_def\<close>)

lemma reachable_store_wf: "reachable_store u st \<Longrightarrow> wf_db u (connection st)"
proof (induction rule: reachable_store.induct)
  case (created env root clock path sid pid mp st)
  then show ?case using store_create_fresh by blast
next
  case (materialized st env cs p r st')
  then show ?case using get_or_create_wf by (metis snd_conv)
next
  case (closed st env clock r' st')
  then show ?case using store_close_wf by (metis snd_conv)
qed

lemma get_or_create_Ok:
  assumes "represents (connection st) ns" "list_all remote_typed cs"
    and "get_or_create_remote_dir_children env p cs st = (Ok xs, st')"
  shows "\<exists>q. inode_by_id ns p = Some q \<and> si_kind q = Directory \<and>
    db_session (connection st') = db_session (connection st) \<and>
    (if si_directory_loaded q = Some True then st' = st \<and> xs = children_of ns p
     else validate_remote_children cs = Ok () \<and> represents (connection st') (materialize p cs ns) \<and>
       xs = sort_key si_name (new_inodes p (sqlite (si_id (last ns))) cs))"
proof -
  obtain d' where b: "materialize_body env (database_path st) p cs (connection st) = (Ok xs, d')"
    and st': "st' = st\<lparr>connection := d'\<rparr>"
    using with_transaction_Ok [OF assms(3) [unfolded get_or_create_remote_dir_children_def]]
    by (auto simp: txn_commits_def)
  show ?thesis
    using materialize_body_Ok [OF assms(1,2) b] unfolding st' by (auto split: if_splits)
qed

lemma represents_sequence_pos: "represents d ns \<Longrightarrow> 1 \<le> db_sequence d"
  using wf_namespaceD(1) [of ns] wf_namespaceD(4) [of ns "last ns"] by (auto simp: represents_def wf_inode_def valid_inode_id_def)

section \<open>Success\<close>

definition no_faults :: "store_env \<Rightarrow> bool" where
  "no_faults env \<longleftrightarrow> (\<forall>op d. sql_fault env op d = None)"

lemma insert_remote_inode_total:
  assumes "no_faults env" "seq_ok d" "0 \<le> db_sequence d" "db_sequence d + 1 \<le> i64_max"
    and "sqlite p \<in> set (map ir_id (db_inodes d))"
    and "\<forall>r \<in> set (db_inodes d). ir_parent_id r = Some (sqlite p) \<longrightarrow> ir_name r \<noteq> nr_name c"
  shows "insert_remote_inode env path (Some p) c d =
    (Ok (InodeId (db_sequence d + 1)),
     d\<lparr>db_inodes := db_inodes d @ [row_of_inode (inode_of_remote (InodeId (db_sequence d + 1)) (Some p) c)],
       db_sequence := db_sequence d + 1\<rparr>)"
  using assms remote_row_eq [where parent = "Some p" and n = c and i = "InodeId (db_sequence d + 1)"]
  by (auto simp: insert_remote_inode_def txn_then_def txn_execute_def no_faults_def insert_inode_stmt_def
      next_rowid_eq Let_def from_sqlite_def split: if_splits)

lemma insert_children_total:
  assumes "no_faults env" "seq_ok d" "0 \<le> db_sequence d"
    and "cs \<noteq> [] \<longrightarrow> db_sequence d + int (length cs) \<le> i64_max"
    and "sqlite p \<in> set (map ir_id (db_inodes d))" "distinct (map nr_name cs)"
    and "\<forall>r \<in> set (db_inodes d). ir_parent_id r = Some (sqlite p) \<longrightarrow> ir_name r \<notin> set (map nr_name cs)"
  shows "\<exists>d'. txn_for (insert_child env path p) cs d = (Ok (), d')"
  using assms
proof (induction cs arbitrary: d)
  case (Cons c cs)
  let ?d = "d\<lparr>db_inodes := db_inodes d @ [row_of_inode (inode_of_remote (InodeId (db_sequence d + 1)) (Some p) c)],
       db_sequence := db_sequence d + 1\<rparr>"
  have "insert_remote_inode env path (Some p) c d = (Ok (InodeId (db_sequence d + 1)), ?d)"
    using Cons.prems by (intro insert_remote_inode_total) auto
  then have one: "insert_child env path p c d = (Ok (), ?d)" by (simp add: insert_child_eq_Ok)
  have "\<exists>d'. txn_for (insert_child env path p) cs ?d = (Ok (), d')"
    using Cons.prems by (intro Cons.IH seq_ok_insert) (auto simp: inode_id_eq_iff)
  with one show ?case by (simp add: txn_then_def)
qed simp

lemma mark_loaded_total: "\<exists>d'. mark_loaded_stmt p d = Ok d'"
  by (simp add: mark_loaded_stmt_def)

lemma materialize_body_total:
  assumes "no_faults env" and d: "represents d ns" and "session_of (uuid_parse_ok env) d = Some md" "md_state md = Active"
    and q: "inode_by_id ns p = Some q" "si_kind q = Directory"
    and cs: "list_all remote_typed cs" "list_all remote_checked cs" "distinct (map nr_name cs)"
    and bound: "sqlite (si_id (last ns)) + int (length cs) \<le> i64_max"
  shows "\<exists>xs d'. materialize_body env path p cs d = (Ok xs, d')"
proof -
  have nf: "sql_fault env op x = None" for op x using assms(1) by (simp add: no_faults_def)
  have pre: "ensure_active env path d = Ok ()" "get_inode_by_id env path d p = Ok (Some q)"
    "ensure_inode_is_dir q = Ok ()" "get_directory_children_on env path d p = Ok (children_of ns p)"
    using assms nf get_inode_by_id_eq [OF d] get_children_eq [OF d]
    by (simp_all add: ensure_active_eq_Ok ensure_inode_is_dir_def)
  show ?thesis
  proof (cases "si_directory_loaded q = Some True")
    case False
    have empty: "children_of ns p = []" by (rule unloaded_no_children [OF represents_wf [OF d] q(1) False])
    have q': "q \<in> set ns" "si_id q = p" using q(1) by (auto simp: inode_by_id_def dest: find_SomeD)
    have rows: "db_inodes d = map row_of_inode ns" "db_sequence d = sqlite (si_id (last ns))"
      using d by (simp_all add: represents_def)
    have "filter (\<lambda>n. si_parent n = Some p) ns = []"
      using arg_cong [OF empty, of set] by (simp add: children_of_def flip: set_empty)
    then obtain d1 where i: "txn_for (insert_child env path p) cs d = (Ok (), d1)"
      using insert_children_total [OF assms(1) represents_seq_ok [OF d], of cs p path] q' rows bound cs(3)
        wf_namespace_last_pos [OF represents_wf [OF d]]
      by (auto simp: filter_empty_conv inode_id_eq_iff [symmetric])
    obtain d2 where m: "mark_loaded_stmt p d1 = Ok d2" using mark_loaded_total by blast
    have "represents d2 (materialize p cs ns)"
      using materialize_represents [OF d q empty cs(2,3,1) i m] by blast
    then have "get_directory_children_on env path d2 p = Ok (children_of (materialize p cs ns) p)"
      using nf by (intro get_children_eq)
    moreover have "validate_remote_children cs = Ok ()" using cs by (simp add: result_simps)
    moreover have "txn_execute env path ''mark directory loaded'' (mark_loaded_stmt p) d1 = (Ok (), d2)"
      using nf m by (simp add: txn_execute_eq_Ok)
    ultimately show ?thesis
      using False pre i empty by (simp add: materialize_body_def txn_then_Ok)
  qed (use pre in \<open>simp add: materialize_body_def\<close>)
qed

lemma wf_namespace_child_by_name:
  assumes "wf_namespace ns"
  shows "child_by_name ns p name = Some n \<longleftrightarrow> n \<in> set (children_of ns p) \<and> si_name n = name"
proof
  assume "child_by_name ns p name = Some n"
  then show "n \<in> set (children_of ns p) \<and> si_name n = name"
    by (auto simp: child_by_name_def children_of_def dest: find_SomeD)
next
  assume n: "n \<in> set (children_of ns p) \<and> si_name n = name"
  then obtain m where m: "child_by_name ns p name = Some m"
    by (cases "child_by_name ns p name") (auto simp: child_by_name_def children_of_def find_None_iff)
  then have "m \<in> set ns" "si_parent m = si_parent n" "si_name m = si_name n" "n \<in> set ns"
    using n by (auto simp: child_by_name_def children_of_def dest!: find_SomeD)
  then have "m = n"
    using wf_namespaceD(5) [OF assms] by (auto simp: distinct_map dest: inj_onD)
  with m show "child_by_name ns p name = Some n" by simp
qed

lemma children_of_strictly_sorted:
  assumes "wf_namespace ns"
  shows "sorted_wrt (<) (map si_name (children_of ns p))"
proof -
  have "distinct (map (\<lambda>n. (si_parent n, si_name n)) (filter (\<lambda>n. si_parent n = Some p) ns))"
    using wf_namespaceD(5) [OF assms] by (rule distinct_map_filter)
  then have "distinct (map si_name (filter (\<lambda>n. si_parent n = Some p) ns))"
    by (auto simp: distinct_map inj_on_def)
  then show ?thesis unfolding children_of_def by (rule sort_key_strict)
qed

section \<open>Properties\<close>

text \<open>
  C26 The invariant of the session database. In every store that a sequence of creations,
  materialisations and closes can produce, whatever the engine failures on the way, the schema version
  is 1, the session row is valid, and the inode table represents a namespace: identities increase from
  the root's, parents are older loaded directories, and no directory has two entries of one name.
\<close>

theorem store_invariant:
  assumes "reachable_store uuid_ok st"
  shows "wf_db uuid_ok (connection st)"
  using assms by (rule reachable_store_wf)

definition demo_env :: store_env where
  "demo_env = \<lparr>sql_fault = (\<lambda>_ _. None), uuid_parse_ok = (\<lambda>s. s = ''id'')\<rparr>"

definition demo_store :: session_store where
  "demo_store = (case store_create demo_env (Some 7) ''db'' ''id'' 1 demo_digest (Some ''/m'') None of
     Inr st \<Rightarrow> st | Inl _ \<Rightarrow> undefined)"

lemma demo_env_no_faults: "no_faults demo_env"
  by (simp add: no_faults_def demo_env_def)

lemma demo_store_creates: "is_ok (store_create demo_env (Some 7) path ''id'' 1 demo_digest (Some ''/m'') None)"
  by (simp add: store_create_def open_database_def prepare_schema_def schema_version_def sql_def demo_env_def
        initialize_database_def now_seconds_def conv_simps with_transaction_def insert_session_def
        insert_session_stmt_def insert_root_inode_def insert_remote_inode_def insert_inode_stmt_def
        txn_then_def txn_context_def txn_execute_def empty_db_def next_rowid_def from_sqlite_def ROOT_def
        remote_row_def Let_def)

lemma demo_store_created:
  "store_create demo_env (Some 7) ''db'' ''id'' 1 demo_digest (Some ''/m'') None = Ok demo_store"
  using demo_store_creates [of "''db''"] by (auto simp: is_ok_iff demo_store_def)

lemmas demo_store_fresh = store_create_fresh [OF demo_store_created demo_digest_valid]

lemma demo_store_reachable: "reachable_store (\<lambda>s. s = ''id'') demo_store"
  by (rule created [OF _ demo_digest_valid demo_store_created]) (simp add: demo_env_def)

theorem store_invariant_witness: "wf_db (\<lambda>s. s = ''id'') (connection demo_store)"
  by (rule store_invariant [OF demo_store_reachable])

definition demo_children :: "new_remote_inode list" where
  "demo_children =
     [\<lparr>nr_name = ''b'', nr_mode = Some 0x1A4, nr_mtime = None, nr_content = RemoteFile demo_digest\<rparr>,
      \<lparr>nr_name = ''a'', nr_mode = None, nr_mtime = None, nr_content = RemoteSymlink ''b''\<rparr>]"

lemma demo_children_ok:
  "list_all remote_typed demo_children" "list_all remote_checked demo_children"
  "distinct (map nr_name demo_children)"
  by (simp_all add: demo_children_def remote_typed_def remote_checked_def demo_digest_valid valid_name_def)

lemma demo_store_facts:
  "represents (connection demo_store) [root_inode demo_digest]"
  "\<not> poisoned demo_store"
  "inode_by_id [root_inode demo_digest] ROOT = Some (root_inode demo_digest)"
  "si_kind (root_inode demo_digest) = Directory" "si_directory_loaded (root_inode demo_digest) = Some False"
  "sqlite (si_id (root_inode demo_digest)) = 1"
proof -
  show "\<not> poisoned demo_store"
    by (rule store_create_not_poisoned [OF demo_store_created])
qed (use demo_store_fresh in \<open>simp_all add: inode_by_id_def root_inode_def inode_of_remote_def\<close>)

text \<open>
  C27 Materialising a directory succeeds when it should: without engine failures, on an active session,
  for a stored directory, a well-typed child set with valid distinct names and modes at most 0o7777, and
  enough identities left, \<^verbatim>\<open>get_or_create_remote_dir_children\<close> returns a child list.
\<close>

theorem materialize_succeeds:
  assumes "no_faults env" "represents (connection st) ns" "\<not> poisoned st"
    and "session_of (uuid_parse_ok env) (connection st) = Some md" "md_state md = Active"
    and "inode_by_id ns p = Some q" "si_kind q = Directory"
    and "list_all remote_typed cs" "list_all remote_checked cs" "distinct (map nr_name cs)"
    and "sqlite (si_id (last ns)) + int (length cs) \<le> i64_max"
  shows "\<exists>xs st'. get_or_create_remote_dir_children env p cs st = (Ok xs, st')"
proof -
  obtain xs d' where "materialize_body env (database_path st) p cs (connection st) = (Ok xs, d')"
    using materialize_body_total [OF assms(1,2,4-11)] by blast
  then have "get_or_create_remote_dir_children env p cs st = (Ok xs, st\<lparr>connection := d'\<rparr>)"
    unfolding get_or_create_remote_dir_children_def
    using assms(1,3) by (intro with_transaction_run) (auto simp: no_faults_def)
  then show ?thesis by blast
qed

theorem materialize_succeeds_witness:
  "\<exists>xs st'. get_or_create_remote_dir_children demo_env ROOT demo_children demo_store = (Ok xs, st')"
proof -
  from demo_store_fresh obtain md where "session_of (uuid_parse_ok demo_env) (connection demo_store) = Some md"
    "md_state md = Active" by auto
  then show ?thesis
    using demo_store_facts demo_children_ok
    by (intro materialize_succeeds [OF demo_env_no_faults]) (auto simp: demo_children_def)
qed

text \<open>
  C11 What materialising does (refinement). When the call succeeds, the stored parent is a directory. If
  it was loaded the store is unchanged and the result is its children; otherwise the child set passed
  validation, the new table represents \<open>materialize\<close> of the old namespace (the children appended in
  the given order with consecutive fresh identities, the parent marked loaded, everything else as it
  was), and the result is the new children sorted by name. The session row never changes.
\<close>

theorem materialize_refines:
  assumes "represents (connection st) ns" "list_all remote_typed cs"
    and "get_or_create_remote_dir_children env p cs st = (Ok xs, st')"
  shows "\<exists>q. inode_by_id ns p = Some q \<and> si_kind q = Directory \<and>
    db_session (connection st') = db_session (connection st) \<and>
    (if si_directory_loaded q = Some True then st' = st \<and> xs = children_of ns p
     else validate_remote_children cs = Ok () \<and> represents (connection st') (materialize p cs ns) \<and>
       xs = sort_key si_name (new_inodes p (sqlite (si_id (last ns))) cs))"
  by (rule get_or_create_Ok [OF assms])

theorem materialize_refines_witness:
  "\<exists>xs st'. get_or_create_remote_dir_children demo_env ROOT demo_children demo_store = (Ok xs, st') \<and>
     map si_name xs = [''a'', ''b''] \<and> map (sqlite \<circ> si_id) xs = [3, 2]"
proof -
  from demo_store_fresh obtain md where md: "session_of (uuid_parse_ok demo_env) (connection demo_store) = Some md"
    "md_state md = Active" by auto
  obtain xs d' where "materialize_body demo_env (database_path demo_store) ROOT demo_children (connection demo_store) = (Ok xs, d')"
    using materialize_body_total [OF demo_env_no_faults demo_store_facts(1) md demo_store_facts(3,4) demo_children_ok,
        of "database_path demo_store"] demo_store_facts(6) by (auto simp: demo_children_def)
  then have run: "get_or_create_remote_dir_children demo_env ROOT demo_children demo_store =
      (Ok xs, demo_store\<lparr>connection := d'\<rparr>)"
    unfolding get_or_create_remote_dir_children_def
    using demo_store_facts(2) demo_env_no_faults by (intro with_transaction_run) (auto simp: no_faults_def)
  have "xs = sort_key si_name (new_inodes ROOT 1 demo_children)"
    using materialize_refines [OF demo_store_facts(1) demo_children_ok(1) run] demo_store_facts(3,5,6) by simp
  with run show ?thesis by (simp add: demo_children_def inode_of_remote_def)
qed

text \<open>
  C6 Atomicity. A materialisation, close or initialisation that reports an error leaves the store as it
  was, even when rows had been written before the failing statement.
\<close>

theorem store_operations_atomic:
  "(get_or_create_remote_dir_children env p cs st = (Err e, st') \<longrightarrow> st' = st) \<and>
   (store_close env clock st = (Err e, st') \<longrightarrow> st' = st) \<and>
   (initialize_database env clock sid pid root mp st = (Err e, st') \<longrightarrow> st' = st)"
  by (auto simp: get_or_create_remote_dir_children_def store_close_def initialize_database_def
      split: sum.splits option.splits if_splits dest: with_transaction_Err)

definition failing_env :: store_env where
  "failing_env = \<lparr>sql_fault = (\<lambda>op d. if op = ''insert remote inode'' \<and> length (db_inodes d) = 2
     then Some (SqliteFailure ''SQLITE_FULL'') else None), uuid_parse_ok = (\<lambda>s. s = ''id'')\<rparr>"

lemma failing_env_fails:
  "\<exists>e. fst (get_or_create_remote_dir_children failing_env ROOT demo_children demo_store) = Err e"
proof -
  let ?d = "connection demo_store"
  have "length (db_inodes ?d) = 1" using demo_store_facts(1) by (simp add: represents_def)
  have "\<not> is_ok (fst (get_or_create_remote_dir_children failing_env ROOT demo_children demo_store))"
  proof
    assume "is_ok (fst (get_or_create_remote_dir_children failing_env ROOT demo_children demo_store))"
    then obtain xs st' where "get_or_create_remote_dir_children failing_env ROOT demo_children demo_store = (Ok xs, st')"
      by (metis is_ok_iff prod.collapse)
    then obtain d' where b: "materialize_body failing_env (database_path demo_store) ROOT demo_children ?d = (Ok xs, d')"
      unfolding get_or_create_remote_dir_children_def by (auto simp: txn_commits_def dest!: with_transaction_Ok)
    obtain d1 where "txn_for (insert_child failing_env (database_path demo_store) ROOT) demo_children ?d = (Ok (), d1)"
      using materialize_body_Ok [OF demo_store_facts(1) demo_children_ok(1) b] demo_store_facts(3,5) by auto
    then obtain i2 d2 d3 i3 where one:
      "insert_remote_inode failing_env (database_path demo_store) (Some ROOT) (demo_children ! 0) ?d = (Ok i2, d2)"
      "insert_remote_inode failing_env (database_path demo_store) (Some ROOT) (demo_children ! 1) d2 = (Ok i3, d3)"
      by (simp add: demo_children_def txn_then_eq_Ok insert_child_eq_Ok) blast
    have "length (db_inodes d2) = 2"
      using insert_remote_inode_Ok [OF one(1) represents_seq_ok [OF demo_store_facts(1)]]
        \<open>length (db_inodes ?d) = 1\<close> by simp
    with one(2) show False
      by (auto simp: insert_remote_inode_def txn_Ok failing_env_def)
  qed
  then show ?thesis by (simp add: not_is_ok_iff)
qed

theorem store_operations_atomic_witness:
  "\<exists>e. get_or_create_remote_dir_children failing_env ROOT demo_children demo_store = (Err e, demo_store)"
  using failing_env_fails store_operations_atomic [of failing_env ROOT demo_children demo_store]
  by (metis prod.collapse)

text \<open>
  Materialisation is idempotent. Once it has succeeded for a directory, every later call for that
  directory, with whatever child set, returns the same children and leaves the store unchanged.
\<close>

theorem materialize_idempotent:
  assumes "represents (connection st) ns" "list_all remote_typed cs" "list_all remote_typed cs'"
    and "get_or_create_remote_dir_children env p cs st = (Ok xs, st')"
    and "get_or_create_remote_dir_children env' p cs' st' = (Ok ys, st'')"
  shows "ys = xs \<and> st'' = st'"
proof -
  obtain d1 where b: "materialize_body env (database_path st) p cs (connection st) = (Ok xs, d1)"
    and st': "st' = st\<lparr>connection := d1\<rparr>"
    using with_transaction_Ok [OF assms(4) [unfolded get_or_create_remote_dir_children_def]]
    by (auto simp: txn_commits_def)
  obtain d2 where b': "materialize_body env' (database_path st') p cs' (connection st') = (Ok ys, d2)"
    and st'': "st'' = st'\<lparr>connection := d2\<rparr>"
    using with_transaction_Ok [OF assms(5) [unfolded get_or_create_remote_dir_children_def]]
    by (auto simp: txn_commits_def)
  obtain q where q: "inode_by_id ns p = Some q" "si_kind q = Directory"
    using materialize_body_Ok [OF assms(1,2) b] by blast
  show ?thesis
  proof (cases "si_directory_loaded q = Some True")
    case True
    then have "st' = st" "xs = children_of ns p"
      using materialize_body_Ok [OF assms(1,2) b] q st' by auto
    with materialize_body_Ok [OF assms(1,3), of env' "database_path st" p ys d2] b' True q st''
    show ?thesis by auto
  next
    case False
    then have r: "represents (connection st') (materialize p cs ns)"
      and xs: "xs = children_of (materialize p cs ns) p"
      using materialize_body_Ok [OF assms(1,2) b] q st'
        unloaded_no_children [OF represents_wf [OF assms(1)] q(1) False]
      by (auto simp: children_of_materialize)
    have "inode_by_id (materialize p cs ns) p = Some (mark_loaded p q)"
      by (rule inode_by_id_materialize [OF q(1)])
    moreover have "si_directory_loaded (mark_loaded p q) = Some True"
      using q(1) by (auto simp: mark_loaded_def inode_by_id_def dest: find_SomeD)
    ultimately show ?thesis
      using materialize_body_Ok [OF r assms(3) b'] xs st'' by auto
  qed
qed

lemma demo_store_run:
  "\<exists>xs st'. get_or_create_remote_dir_children demo_env ROOT demo_children demo_store = (Ok xs, st') \<and>
     (\<exists>ys st''. get_or_create_remote_dir_children demo_env ROOT [] st' = (Ok ys, st''))"
proof -
  let ?ns = "[root_inode demo_digest]" let ?u = "uuid_parse_ok demo_env"
  obtain md where md: "session_of ?u (connection demo_store) = Some md" "md_state md = Active"
    using demo_store_fresh by auto
  have run: "\<exists>xs d'. get_or_create_remote_dir_children demo_env ROOT cs st = (Ok xs, st\<lparr>connection := d'\<rparr>) \<and>
      materialize_body demo_env (database_path st) ROOT cs (connection st) = (Ok xs, d')"
    if "\<not> poisoned st" "\<exists>xs d'. materialize_body demo_env (database_path st) ROOT cs (connection st) = (Ok xs, d')"
    for cs st
    using that demo_env_no_faults with_transaction_run [of "materialize_body demo_env (database_path st) ROOT cs" st]
    unfolding get_or_create_remote_dir_children_def no_faults_def by blast
  obtain xs d' where r: "get_or_create_remote_dir_children demo_env ROOT demo_children demo_store =
      (Ok xs, demo_store\<lparr>connection := d'\<rparr>)"
    and b: "materialize_body demo_env (database_path demo_store) ROOT demo_children (connection demo_store) = (Ok xs, d')"
    using run [of demo_store demo_children] demo_store_facts(2,6)
      materialize_body_total [OF demo_env_no_faults demo_store_facts(1) md demo_store_facts(3,4) demo_children_ok]
    by (fastforce simp: demo_children_def)
  have d': "represents d' (materialize ROOT demo_children ?ns)" "db_session d' = db_session (connection demo_store)"
    using materialize_body_Ok [OF demo_store_facts(1) demo_children_ok(1) b] demo_store_facts(3,5) by auto
  have "inode_by_id (materialize ROOT demo_children ?ns) ROOT = Some (mark_loaded ROOT (root_inode demo_digest))"
    by (simp add: materialize_def inode_by_id_def root_inode_def)
  then have "\<exists>ys d''. materialize_body demo_env (database_path demo_store) ROOT [] d' = (Ok ys, d'')"
    using materialize_body_total [OF demo_env_no_faults d'(1), of md ROOT _ "[]"] md session_of_cong [OF d'(2), of ?u]
      demo_store_facts(4) wf_namespace_last_pos [OF represents_wf [OF d'(1)]] by simp
  then show ?thesis using r run [of "demo_store\<lparr>connection := d'\<rparr>" "[]"] demo_store_facts(2) by fastforce
qed

theorem materialize_idempotent_witness:
  "\<exists>xs st'. get_or_create_remote_dir_children demo_env ROOT demo_children demo_store = (Ok xs, st') \<and>
     get_or_create_remote_dir_children demo_env ROOT [] st' = (Ok xs, st')"
proof -
  obtain xs st' ys st'' where r: "get_or_create_remote_dir_children demo_env ROOT demo_children demo_store = (Ok xs, st')"
    "get_or_create_remote_dir_children demo_env ROOT [] st' = (Ok ys, st'')"
    using demo_store_run by blast
  with materialize_idempotent [OF demo_store_facts(1) demo_children_ok(1) _ r] show ?thesis by simp
qed

text \<open>
  Lookup agrees with listing. In a store whose table represents a namespace, looking a name up below
  a parent finds an inode exactly when the listing of that parent holds an inode of that name, and the
  same one; listings are strictly sorted by name, bytewise.
\<close>

theorem lookup_agrees_with_listing:
  assumes "represents (connection st) ns" "store_child env st p name = Ok found"
    and "get_directory_children env' st p = Ok xs"
  shows "(found = Some n \<longleftrightarrow> n \<in> set xs \<and> si_name n = name) \<and> sorted_wrt (<) (map si_name xs)"
proof -
  have "lookup_child_in_dir_inode env (database_path st) (connection st) p name = Ok found"
    using assms(2) by (auto simp: store_child_def store_read_def result_simps split: if_splits)
  moreover from this have "sql_fault env ''lookup child by name in dir inode'' (connection st) = None"
    by (auto simp: lookup_child_in_dir_inode_def result_simps)
  ultimately have "found = child_by_name ns p name"
    using lookup_child_eq [OF assms(1)] by simp
  moreover have "xs = children_of ns p"
    using assms(3) get_children_OkD [OF assms(1)]
    by (auto simp: get_directory_children_def store_read_def result_simps split: if_splits)
  ultimately show ?thesis
    using wf_namespace_child_by_name children_of_strictly_sorted represents_wf [OF assms(1)] by auto
qed

theorem lookup_agrees_with_listing_witness:
  "\<exists>found xs. store_child demo_env demo_store ROOT ''a'' = Ok found \<and>
     get_directory_children demo_env demo_store ROOT = Ok xs \<and> (found = None \<longleftrightarrow> xs = [])"
proof -
  have nf: "sql_fault demo_env op d = None" for op d using demo_env_no_faults by (simp add: no_faults_def)
  have active: "ensure_active demo_env path (connection demo_store) = Ok ()" for path
    using demo_store_fresh nf by (auto simp: ensure_active_eq_Ok)
  have l: "store_child demo_env demo_store ROOT ''a'' = Ok (child_by_name [root_inode demo_digest] ROOT ''a'')"
    using active demo_store_facts(2) lookup_child_eq [OF demo_store_facts(1) nf]
    by (simp add: store_child_def store_read_def validate_inode_name_def contains_char_def)
  have c: "get_directory_children demo_env demo_store ROOT = Ok (children_of [root_inode demo_digest] ROOT)"
    using active demo_store_facts(2) get_children_eq [OF demo_store_facts(1) nf nf nf]
    by (simp add: get_directory_children_def store_read_def)
  have "children_of [root_inode demo_digest] ROOT = []" by (simp add: children_of_def root_inode_def)
  with l c lookup_agrees_with_listing [OF demo_store_facts(1) l c] show ?thesis by auto
qed

lemma store_close_transition:
  assumes "store_close env clock st = (Ok u, st')"
  shows "\<exists>md. session_of (uuid_parse_ok env) (connection st) = Some md \<and> md_state md = Active \<and>
    session_of (uuid_parse_ok env) (connection st') = Some (md\<lparr>md_state := Closed\<rparr>) \<and>
    db_inodes (connection st') = db_inodes (connection st)"
proof -
  obtain s d' where s: "now_seconds clock = Ok s"
    and b: "close_body env (database_path st) s (connection st) = (Ok u, d')" and st': "st' = st\<lparr>connection := d'\<rparr>"
    using store_close_Ok [OF assms] by (auto simp: txn_commits_def)
  obtain md where md: "session_of (uuid_parse_ok env) (connection st) = Some md" "md_state md = Active"
    and m: "mark_closed_stmt s (connection st) = Ok d'"
    using close_body_Ok [OF b] by blast
  have "0 \<le> s" using now_seconds_OkD [OF s] by simp
  from session_of_closed [OF md this m] mark_closed_sel [OF m] md show ?thesis unfolding st' by simp
qed

text \<open>
  C28 Closing. A close that succeeds found the session active. Of the whole store it changes two columns of the session row, the lifecycle,
  which becomes closed, and the close time, which becomes the time of the clock: the other columns of the row, any other row,
  the inodes, the identity counter, the schema version, the path and the connection's health are as before. The row still
  validates, to the same session in the closed state.
\<close>

theorem close_transition:
  assumes "store_close env clock st = (Ok u, st')"
  shows "\<exists>md c now. session_of (uuid_parse_ok env) (connection st) = Some md \<and> md_state md = Active \<and>
    session_of (uuid_parse_ok env) (connection st') = Some (md\<lparr>md_state := Closed\<rparr>) \<and>
    clock = Some now \<and> db_session (connection st) 1 = Some c \<and>
    st' = st\<lparr>connection := (connection st)\<lparr>db_session := (db_session (connection st))
      (1 \<mapsto> c\<lparr>smc_lifecycle := Some ''closed'', smc_closed_at_seconds := Some (uint now)\<rparr>)\<rparr>\<rparr>"
proof -
  obtain s d' where s: "now_seconds clock = Ok s"
    and b: "close_body env (database_path st) s (connection st) = (Ok u, d')" and st': "st' = st\<lparr>connection := d'\<rparr>"
    using store_close_Ok [OF assms] by (auto simp: txn_commits_def)
  have m: "mark_closed_stmt s (connection st) = Ok d'" using close_body_Ok [OF b] by blast
  obtain now where now: "clock = Some now" "s = uint now"
    using s by (auto simp: now_seconds_def result_simps conv_simps split: if_splits)
  obtain md where md: "session_of (uuid_parse_ok env) (connection st) = Some md" "md_state md = Active"
    "session_of (uuid_parse_ok env) (connection st') = Some (md\<lparr>md_state := Closed\<rparr>)"
    using store_close_transition [OF assms] by blast
  obtain c where "db_session (connection st) 1 = Some c" using md(1) by (auto simp: session_of_eq_Some)
  with m md now st' show ?thesis by (auto simp: mark_closed_stmt_def)
qed

lemma demo_closed:
  "\<exists>st' md. store_close demo_env (Some 9) demo_store = (Ok (), st') \<and> \<not> poisoned st' \<and>
     session_of (uuid_parse_ok demo_env) (connection st') = Some md \<and> md_state md = Closed"
proof -
  have nf: "sql_fault demo_env op d = None" for op d using demo_env_no_faults by (simp add: no_faults_def)
  have active: "ensure_active demo_env path (connection demo_store) = Ok ()" for path
    using demo_store_fresh nf by (auto simp: ensure_active_eq_Ok)
  obtain d' where m: "mark_closed_stmt 9 (connection demo_store) = Ok d'"
    by (simp add: mark_closed_stmt_def)
  then have "close_body demo_env (database_path demo_store) 9 (connection demo_store) = (Ok (), d')"
    using active nf by (simp add: close_body_def txn_execute_eq_Ok)
  then have "with_transaction demo_env ''close session'' (close_body demo_env (database_path demo_store) 9) demo_store =
      (Ok (), demo_store\<lparr>connection := d'\<rparr>)"
    using demo_store_facts(2) nf by (intro with_transaction_run)
  then have "store_close demo_env (Some 9) demo_store = (Ok (), demo_store\<lparr>connection := d'\<rparr>)"
    by (simp add: store_close_def now_seconds_def conv_simps)
  moreover have "\<exists>md. session_of (uuid_parse_ok demo_env) d' = Some md \<and> md_state md = Closed"
    using demo_store_fresh session_of_closed [OF _ _ _ m] by fastforce
  ultimately show ?thesis using demo_store_facts(2) by fastforce
qed

theorem close_transition_witness:
  "\<exists>st' md. store_close demo_env (Some 9) demo_store = (Ok (), st') \<and>
     session_of (uuid_parse_ok demo_env) (connection st') = Some md \<and> md_state md = Closed"
proof -
  obtain st' where c: "store_close demo_env (Some 9) demo_store = (Ok (), st')" using demo_closed by blast
  from close_transition [OF this] c show ?thesis by auto
qed

text \<open>
  C29 A session that is not active refuses everything. With a stored lifecycle other than active and a
  readable session row, reading an inode, looking a child up, listing, materialising and closing all
  fail with a failed precondition, and the store stays as it is; in particular a second close fails.
\<close>

theorem inactive_session_refuses:
  assumes "session_of (uuid_parse_ok env) (connection st) = Some md" "md_state md \<noteq> Active"
    and "no_faults env" "\<not> poisoned st" "valid_name name" "now_seconds clock = Ok s"
  shows "(\<exists>e. store_inode_get env st i = Err e \<and> is_failed_precondition e) \<and>
    (\<exists>e. store_child env st p name = Err e \<and> is_failed_precondition e) \<and>
    (\<exists>e. get_directory_children env st p = Err e \<and> is_failed_precondition e) \<and>
    (\<exists>e. get_or_create_remote_dir_children env p cs st = (Err e, st) \<and> is_failed_precondition e) \<and>
    (\<exists>e. store_close env clock st = (Err e, st) \<and> is_failed_precondition e)"
proof -
  obtain e where e: "ensure_active env (database_path st) (connection st) = Err e" "is_failed_precondition e"
    using ensure_active_inactive [OF assms(1,2)] assms(3) unfolding no_faults_def by blast
  have "validate_inode_name name = Ok ()" using assms(5) by (simp add: result_simps)
  moreover have "\<exists>e'. materialize_body env (database_path st) p cs (connection st) = (Err e', connection st) \<and>
      is_failed_precondition e'"
    using e by (simp add: materialize_body_def)
  moreover have "\<exists>e'. close_body env (database_path st) s (connection st) = (Err e', connection st) \<and>
      is_failed_precondition e'"
    using e by (simp add: close_body_def)
  ultimately show ?thesis
    using e assms(3,4,6)
    by (auto simp: store_inode_get_def store_child_def get_directory_children_def store_read_def
        get_or_create_remote_dir_children_def store_close_def with_transaction_body_Err no_faults_def)
qed

theorem inactive_session_refuses_witness:
  "\<exists>st' e. store_close demo_env (Some 9) demo_store = (Ok (), st') \<and>
     store_close demo_env (Some 10) st' = (Err e, st') \<and> is_failed_precondition e"
proof -
  obtain st' md where c: "store_close demo_env (Some 9) demo_store = (Ok (), st')" "\<not> poisoned st'"
    "session_of (uuid_parse_ok demo_env) (connection st') = Some md" "md_state md = Closed"
    using demo_closed by blast
  then show ?thesis
    using inactive_session_refuses [OF c(3) _ demo_env_no_faults c(2), of "''a''" "Some 10" 10 ROOT ROOT "[]"]
    by (auto simp: valid_name_def now_seconds_def conv_simps)
qed

text \<open>
  C30 Rows are lossless. When \<^verbatim>\<open>insert_remote_inode\<close> stores a typed and checked child below a stored parent, reading the identity it
  returns through \<^verbatim>\<open>get_inode_by_id\<close> gives the child back, column by column: parent, name, kind, mode, time and the content of its
  kind, with nothing in the columns of the other kinds. That identity had no inode before, and every other
  identity reads as before.
\<close>

theorem stored_inode_lossless:
  assumes "represents d ns" "inode_by_id ns p \<noteq> None" "remote_typed n" "remote_checked n"
    and "insert_remote_inode env path (Some p) n d = (Ok i, d')" "no_faults env'"
  shows "\<exists>x. get_inode_by_id env' path' d' i = Ok (Some x) \<and> si_id x = i \<and> si_parent x = Some p \<and> si_name x = nr_name n \<and>
    si_mode x = nr_mode n \<and> si_mtime x = nr_mtime n \<and> \<not> si_tombstone x \<and> si_file_overlay_path x = None \<and>
    (case nr_content n of
       RemoteFile dg \<Rightarrow> si_kind x = File \<and> si_file_remote_digest x = Some dg \<and> si_file_content_dirty x = Some False \<and>
         si_symlink_target x = None \<and> si_directory_remote_digest x = None \<and> si_directory_loaded x = None
     | RemoteDirectory dg \<Rightarrow> si_kind x = Directory \<and> si_directory_remote_digest x = Some dg \<and> si_directory_loaded x = Some False \<and>
         si_symlink_target x = None \<and> si_file_remote_digest x = None \<and> si_file_content_dirty x = None
     | RemoteSymlink t \<Rightarrow> si_kind x = Symlink \<and> si_symlink_target x = Some t \<and>
         si_file_remote_digest x = None \<and> si_file_content_dirty x = None \<and> si_directory_remote_digest x = None \<and> si_directory_loaded x = None) \<and>
    get_inode_by_id env' path' d i = Ok None \<and>
    (\<forall>j. j \<noteq> i \<longrightarrow> get_inode_by_id env' path' d' j = get_inode_by_id env' path' d j)"
proof -
  let ?x = "inode_of_remote i (Some p) n"
  note ins = insert_remote_inode_Ok [OF assms(5) represents_seq_ok [OF assms(1)]]
  have wf: "wf_namespace ns" by (rule represents_wf [OF assms(1)])
  have rows: "db_inodes d = map row_of_inode ns" "db_inodes d' = map row_of_inode ns @ [row_of_inode ?x]"
    using ins assms(1) by (simp_all add: represents_def)
  have fresh: "find (\<lambda>r. ir_id r = sqlite i) (db_inodes d) = None"
    using represents_seq_ok [OF assms(1)] ins by (auto simp: find_None_iff seq_ok_def)
  have "valid_inode_id p" using assms(2) wf_namespaceD(4) [OF wf] by (auto simp: inode_by_id_def wf_inode_def dest: find_SomeD)
  moreover have "valid_inode_id i" "i \<noteq> ROOT"
    using ins represents_sequence_pos [OF assms(1)] by (simp_all add: valid_inode_id_def ROOT_def is_i64_def)
  ultimately have "wf_inode ?x" using assms(3,4) by (intro inode_of_remote_wf)
  then have "validate_inode_row (row_of_inode ?x) = Ok ?x" by (rule row_roundtrip)
  moreover have "find (\<lambda>r. ir_id r = sqlite i) (db_inodes d') = Some (row_of_inode ?x)"
    using fresh rows by (simp add: find_append_None)
  ultimately have "get_inode_by_id env' path' d' i = Ok (Some ?x)"
    using assms(6) by (simp add: get_inode_by_id_def sql_def no_faults_def)
  moreover have "get_inode_by_id env' path' d i = Ok None"
    using fresh assms(6) by (simp add: get_inode_by_id_def sql_def no_faults_def)
  moreover have "get_inode_by_id env' path' d' j = get_inode_by_id env' path' d j" if "j \<noteq> i" for j
  proof -
    have "find (\<lambda>r. ir_id r = sqlite j) (db_inodes d') = find (\<lambda>r. ir_id r = sqlite j) (db_inodes d)"
      using that rows by (simp add: find_append_last inode_id_eq_iff)
    then show ?thesis using assms(6) by (simp add: get_inode_by_id_def sql_def no_faults_def)
  qed
  ultimately show ?thesis by (intro exI [of _ ?x]) (simp add: inode_of_remote_def split: remote_content.splits)
qed

theorem stored_inode_lossless_witness:
  "\<exists>i d' x. insert_remote_inode demo_env ''db'' (Some ROOT) (demo_children ! 0) (connection demo_store) = (Ok i, d') \<and>
     get_inode_by_id demo_env ''db'' d' i = Ok (Some x) \<and> si_name x = ''b'' \<and> si_file_remote_digest x = Some demo_digest"
proof -
  let ?d = "connection demo_store" and ?n = "demo_children ! 0"
  have seq: "db_sequence ?d = 1" "db_inodes ?d = [row_of_inode (root_inode demo_digest)]"
    using demo_store_facts(1,6) by (simp_all add: represents_def)
  obtain i d' where r: "insert_remote_inode demo_env ''db'' (Some ROOT) ?n ?d = (Ok i, d')"
    using insert_remote_inode_total [OF demo_env_no_faults represents_seq_ok [OF demo_store_facts(1)], of ROOT ?n "''db''"] seq
    by (auto simp: root_inode_def inode_of_remote_def)
  have n: "remote_typed ?n" "remote_checked ?n" using demo_children_ok(1,2) by (simp_all add: demo_children_def)
  have "inode_by_id [root_inode demo_digest] ROOT \<noteq> None" using demo_store_facts(3) by simp
  from stored_inode_lossless [OF demo_store_facts(1) this n r demo_env_no_faults, of "''db''"] r show ?thesis
    by (auto simp: demo_children_def)
qed

text \<open>
  Creating a store. On a path without a database file, a successful creation holds exactly the
  unloaded root inode with identity 1 and an active session row for the given process, digest and
  mountpoint. On a database that already describes a session it fails: nothing is taken over.
\<close>

theorem create_fresh_or_refused:
  assumes "valid_digest root"
  shows "(\<forall>st. store_create env clock path sid pid root mp None = Ok st \<longrightarrow>
      represents (connection st) [root_inode root] \<and>
      session_of (uuid_parse_ok env) (connection st) =
        Some \<lparr>md_daemon_pid = pid, md_state = Active, md_root_digest = root, md_mountpoint = the mp\<rparr>) \<and>
    (\<forall>d :: db. db_session d 1 \<noteq> None \<longrightarrow> \<not> is_ok (store_create env clock path sid pid root mp (Some d)))"
proof (intro conjI allI impI)
  fix d :: db assume d: "db_session d 1 \<noteq> None"
  have "\<not> is_ok (fst (initialize_database env clock sid pid root mp st))"
    if "db_session (connection st) 1 \<noteq> None" for st
  proof
    assume "is_ok (fst (initialize_database env clock sid pid root mp st))"
    then obtain st' where "initialize_database env clock sid pid root mp st = (Ok (), st')"
      by (auto simp: is_ok_iff) (metis prod.collapse)
    then obtain m now d1 where "insert_session_stmt sid pid root m now (connection st) = Ok d1"
      by (auto simp: initialize_database_def insert_session_def txn_Ok txn_commits_def
          split: option.splits if_splits sum.splits dest!: with_transaction_Ok)
    with that show False by (auto simp: insert_session_stmt_def)
  qed
  moreover have "db_session d1 1 \<noteq> None" if "prepare_schema env path d = Ok d1" for d1
    using that d by (auto simp: prepare_schema_def schema_version_def result_simps split: if_splits)
  ultimately show "\<not> is_ok (store_create env clock path sid pid root mp (Some d))"
    by (auto simp: store_create_def open_database_def result_simps split_beta is_ok_iff split: if_splits)
qed (use store_create_fresh [OF _ assms] in blast)+

theorem create_fresh_or_refused_witness:
  "represents (connection demo_store) [root_inode demo_digest] \<and>
   \<not> is_ok (store_create demo_env (Some 8) ''db'' ''id'' 1 demo_digest (Some ''/m'') (Some (connection demo_store)))"
proof -
  have "db_session (connection demo_store) 1 \<noteq> None"
    using demo_store_fresh by (auto simp: session_of_eq_Some)
  then show ?thesis
    using create_fresh_or_refused [OF demo_digest_valid] demo_store_created by blast
qed

end
