(* ===== verification/Cache.thy ===== *)
theory Cache
  imports Session_Types
begin

text \<open>
  The verified blob cache (\<^verbatim>\<open>session/cache.rs\<close>), the overlay reader (\<^verbatim>\<open>session/overlay.rs\<close>) and the local
  filesystem helpers of \<^verbatim>\<open>session.rs\<close>. A local filesystem is a map from paths to contents and a set of
  directories; every call that can fail for reasons of the operating system consults \<open>io_fault\<close>. The
  remote store is the parameter \<open>stream\<close> (\<^verbatim>\<open>BlobStore::stream_blob\<close>), which acts on a pending blob only by
  writing to it (\<open>stream_writes\<close>). Download coordination is modelled twice: in the sequential operations,
  and as a step relation in which any number of readers interleave.
\<close>

section \<open>The local filesystem\<close>

datatype io_error = IoNotFound | IoAlreadyExists | IoInvalidInput | IoInvalidData | IoWriteZero | IoOther string

record local_fs =
  fs_files :: "string \<rightharpoonup> bytes"
  fs_dirs :: "string set"

text \<open>
  \<open>temp_write content bytes\<close> is the number of bytes one \<^verbatim>\<open>write\<close> to the temporary file accepts (after
  interrupted calls have been retried), \<open>read_count content offset size\<close> the number a \<^verbatim>\<open>pread\<close> returns.
\<close>

record fs_env =
  io_fault :: "string \<Rightarrow> string \<Rightarrow> local_fs \<Rightarrow> io_error option"
  temp_write :: "bytes \<Rightarrow> bytes \<Rightarrow> (nat, io_error) result"
  read_count :: "bytes \<Rightarrow> nat \<Rightarrow> nat \<Rightarrow> nat"

definition fs_error :: "string \<Rightarrow> string \<Rightarrow> io_error \<Rightarrow> session_error" where
  "fs_error operation path source = InternalError operation"

definition path_join :: "string \<Rightarrow> string \<Rightarrow> string" where
  "path_join base p =
     (if take 1 p = ''/'' then p
      else if base = [] \<or> last base = CHR ''/'' then base @ p
      else base @ ''/'' @ p)"

text \<open>\<^verbatim>\<open>Path::parent\<close> of a path without trailing separators.\<close>

definition path_parent :: "string \<Rightarrow> string" where
  "path_parent p = rev (drop 1 (dropWhile (\<lambda>c. c \<noteq> CHR ''/'') (rev p)))"

definition path_exists :: "string \<Rightarrow> local_fs \<Rightarrow> bool" where
  "path_exists p fs \<longleftrightarrow> fs_files fs p \<noteq> None \<or> p \<in> fs_dirs fs"

definition create_dir :: "fs_env \<Rightarrow> string \<Rightarrow> local_fs \<Rightarrow> (unit, io_error) result \<times> local_fs" where
  "create_dir env p fs =
     (case io_fault env ''create directory'' p fs of
        Some e \<Rightarrow> (Err e, fs)
      | None \<Rightarrow>
          if path_exists p fs then (Err IoAlreadyExists, fs)
          else if path_parent p \<notin> fs_dirs fs then (Err IoNotFound, fs)
          else (Ok (), fs\<lparr>fs_dirs := insert p (fs_dirs fs)\<rparr>))"

definition create_dir_if_absent ::
  "fs_env \<Rightarrow> string \<Rightarrow> local_fs \<Rightarrow> (unit, session_error) result \<times> local_fs" where
  "create_dir_if_absent env p fs =
     (case create_dir env p fs of
        (Inr _, fs') \<Rightarrow> (Ok (), fs')
      | (Inl IoAlreadyExists, fs') \<Rightarrow> (Ok (), fs')
      | (Inl e, fs') \<Rightarrow> (Err (fs_error ''create directory'' p e), fs'))"

definition read_file_range ::
  "fs_env \<Rightarrow> string \<Rightarrow> u64 \<Rightarrow> usize \<Rightarrow> local_fs \<Rightarrow> (bytes, session_error) result" where
  "read_file_range env path offset sz fs =
     (case (io_fault env ''open file range'' path fs, fs_files fs path) of
        (Some e, _) \<Rightarrow> Err (fs_error ''open file range'' path e)
      | (None, None) \<Rightarrow> Err (fs_error ''open file range'' path IoNotFound)
      | (None, Some content) \<Rightarrow>
          (case io_fault env ''inspect file range'' path fs of
             Some e \<Rightarrow> Err (fs_error ''inspect file range'' path e)
           | None \<Rightarrow>
               let len = (of_nat (length content) :: u64);
                   available = saturating_sub_u64 len offset;
                   requested = (sz :: u64);
                   read_size = min available requested
               in (case io_fault env ''read file range'' path fs of
                     Some e \<Rightarrow> Err (fs_error ''read file range'' path e)
                   | None \<Rightarrow>
                       let cnt = min (read_count env content (unat offset) (unat read_size)) (unat read_size)
                       in Ok (take cnt (drop (unat offset) content)))))"

section \<open>Pending blobs\<close>

text \<open>
  \<open>pb_hashed\<close> is the input fed to the running SHA-256 so far; finalising it hashes their concatenation.
\<close>

record pending_blob =
  pb_expected :: digest
  pb_destination :: string
  pb_temporary :: bytes
  pb_hashed :: bytes
  pb_written :: u64

definition pending_new :: "digest \<Rightarrow> string \<Rightarrow> pending_blob" where
  "pending_new expected destination =
     \<lparr>pb_expected = expected, pb_destination = destination, pb_temporary = [], pb_hashed = [], pb_written = 0\<rparr>"

definition pending_write ::
  "fs_env \<Rightarrow> pending_blob \<Rightarrow> bytes \<Rightarrow> (nat, io_error) result \<times> pending_blob" where
  "pending_write env p bs =
     (case u64_try_from_i64 (size_bytes (pb_expected p)) of
        None \<Rightarrow> (Err IoInvalidInput, p)
      | Some expected \<Rightarrow>
          let additional = (case u64_try_from_len (length bs) of None \<Rightarrow> u64_max | Some n \<Rightarrow> n) in
          if saturating_add_u64 (pb_written p) additional > expected then (Err IoInvalidData, p)
          else
            (case temp_write env (pb_temporary p) bs of
               Inl e \<Rightarrow> (Err e, p)
             | Inr cnt \<Rightarrow>
                 (Ok cnt, p\<lparr>pb_temporary := pb_temporary p @ take cnt bs,
                             pb_hashed := pb_hashed p @ take cnt bs,
                             pb_written := pb_written p + of_nat cnt\<rparr>)))"

text \<open>\<^verbatim>\<open>Write::write_all\<close>, the provided method of the standard library.\<close>

function pending_write_all ::
  "fs_env \<Rightarrow> pending_blob \<Rightarrow> bytes \<Rightarrow> (unit, io_error) result \<times> pending_blob" where
  "pending_write_all env p bs =
     (if bs = [] then (Ok (), p)
      else (case pending_write env p bs of
              (Inl e, p') \<Rightarrow> (Err e, p')
            | (Inr n, p') \<Rightarrow>
                if n = 0 then (Err IoWriteZero, p')
                else pending_write_all env p' (drop n bs)))"
  by pat_completeness auto
termination
  by (relation "measure (\<lambda>(env, p, bs). length bs)") auto

declare pending_write_all.simps [simp del]

definition pending_verify :: "(bytes \<Rightarrow> string) \<Rightarrow> pending_blob \<Rightarrow> (unit, session_error) result" where
  "pending_verify sha p =
     (case Option.bind (i64_try_from_u64 (pb_written p))
             (\<lambda>n. case digest_new (sha (pb_hashed p)) n of Inl _ \<Rightarrow> None | Inr d \<Rightarrow> Some d) of
        None \<Rightarrow> Err (InternalError ''panic: pending bytes are bounded by a valid digest'')
      | Some actual \<Rightarrow>
          if actual = pb_expected p then Ok ()
          else Err (InternalError ''verify pending blob''))"

section \<open>Download locks\<close>

text \<open>
  An \<^verbatim>\<open>Arc<DownloadLock>\<close> is a number; its participant counter lives in \<open>lk_participants\<close>, and
  \<open>lk_gate_poisoned\<close> says whether its gate is poisoned.
\<close>

record lock_state =
  lk_map :: "digest \<rightharpoonup> nat"
  lk_participants :: "nat \<Rightarrow> nat"
  lk_next :: nat
  lk_gate_poisoned :: "nat \<Rightarrow> bool"
  lk_map_poisoned :: bool

definition no_locks :: lock_state where
  "no_locks = \<lparr>lk_map = Map.empty, lk_participants = (\<lambda>_. 0), lk_next = 0, lk_gate_poisoned = (\<lambda>_. False),
     lk_map_poisoned = False\<rparr>"

definition acquire_download_lock ::
  "digest \<Rightarrow> lock_state \<Rightarrow> (nat, session_error) result \<times> lock_state" where
  "acquire_download_lock d lk =
     (if lk_map_poisoned lk
      then (Err (InternalError ''coordinate blob downloads: lock map is poisoned''), lk)
      else
        let (l, lk') = (case lk_map lk d of
               Some l \<Rightarrow> (l, lk)
             | None \<Rightarrow> (lk_next lk,
                 lk\<lparr>lk_map := (lk_map lk)(d \<mapsto> lk_next lk),
                    lk_participants := (lk_participants lk)(lk_next lk := 0),
                    lk_next := lk_next lk + 1\<rparr>))
        in (Ok l, lk'\<lparr>lk_participants := (lk_participants lk')(l := lk_participants lk' l + 1)\<rparr>))"

definition release_download_lock ::
  "digest \<Rightarrow> nat \<Rightarrow> lock_state \<Rightarrow> (unit, session_error) result \<times> lock_state" where
  "release_download_lock d l lk =
     (if lk_map_poisoned lk
      then (Err (InternalError ''release blob download coordination: lock map is poisoned''), lk)
      else
        let previous = lk_participants lk l;
            lk' = lk\<lparr>lk_participants := (lk_participants lk)(l := previous - 1)\<rparr>
        in (Ok (), if previous = 1 \<and> lk_map lk' d = Some l
                   then lk'\<lparr>lk_map := (lk_map lk')(d := None)\<rparr> else lk'))"

section \<open>The cached blob store\<close>

record cached_blob_store =
  cb_root :: string
  cb_fs :: local_fs
  cb_locks :: lock_state

type_synonym stream = "digest \<Rightarrow> pending_blob \<Rightarrow> (unit, string) result \<times> pending_blob"

definition cache_open :: "fs_env \<Rightarrow> string \<Rightarrow> local_fs \<Rightarrow> (cached_blob_store, session_error) result \<times> local_fs" where
  "cache_open env root fs =
     (case create_dir_if_absent env root fs of
        (Inl e, fs') \<Rightarrow> (Err (Context ''initialize verified blob cache'' e), fs')
      | (Inr _, fs') \<Rightarrow> (Ok \<lparr>cb_root = root, cb_fs = fs', cb_locks = no_locks\<rparr>, fs'))"

text \<open>The \<^verbatim>\<open>assert!\<close> that the hash has two characters holds of every valid digest.\<close>

definition cache_path :: "string \<Rightarrow> digest \<Rightarrow> string" where
  "cache_path root d =
     path_join (path_join root (take 2 (hash d))) (hash d @ ''-'' @ show_int (size_bytes d))"

definition cache_contains :: "cached_blob_store \<Rightarrow> digest \<Rightarrow> bool" where
  "cache_contains s d = path_exists (cache_path (cb_root s) d) (cb_fs s)"

definition start_pending_blob ::
  "fs_env \<Rightarrow> cached_blob_store \<Rightarrow> digest \<Rightarrow> (pending_blob, session_error) result \<times> cached_blob_store" where
  "start_pending_blob env s d =
     (let destination = cache_path (cb_root s) d;
          shard = path_join (cb_root s) (take 2 (hash d))
      in case create_dir_if_absent env shard (cb_fs s) of
           (Inl e, fs') \<Rightarrow> (Err (Context ''create cache shard for blob'' e), s\<lparr>cb_fs := fs'\<rparr>)
         | (Inr _, fs') \<Rightarrow>
             (if shard \<notin> fs_dirs fs'
              then Err (fs_error ''create pending blob'' shard (IoOther ''not a directory''))
              else (case io_fault env ''create pending blob'' shard fs' of
                      Some e \<Rightarrow> Err (fs_error ''create pending blob'' shard e)
                    | None \<Rightarrow>
                        (case io_fault env ''secure pending blob'' shard fs' of
                           Some e \<Rightarrow> Err (fs_error ''secure pending blob'' shard e)
                         | None \<Rightarrow> Ok (pending_new d destination))),
              s\<lparr>cb_fs := fs'\<rparr>))"

definition persist_noclobber ::
  "fs_env \<Rightarrow> string \<Rightarrow> bytes \<Rightarrow> local_fs \<Rightarrow> (unit, io_error) result \<times> local_fs" where
  "persist_noclobber env destination content fs =
     (case io_fault env ''admit verified blob'' destination fs of
        Some e \<Rightarrow> (Err e, fs)
      | None \<Rightarrow>
          if path_exists destination fs then (Err IoAlreadyExists, fs)
          else (Ok (), fs\<lparr>fs_files := (fs_files fs)(destination \<mapsto> content)\<rparr>))"

definition admit_pending_blob ::
  "fs_env \<Rightarrow> (bytes \<Rightarrow> string) \<Rightarrow> cached_blob_store \<Rightarrow> pending_blob \<Rightarrow>
     (unit, session_error) result \<times> cached_blob_store" where
  "admit_pending_blob env sha s p =
     (case pending_verify sha p of
        Inl e \<Rightarrow> (Err e, s)
      | Inr _ \<Rightarrow>
          (case io_fault env ''flush pending blob'' (pb_destination p) (cb_fs s) of
             Some e \<Rightarrow> (Err (fs_error ''flush pending blob'' (pb_destination p) e), s)
           | None \<Rightarrow>
               (case io_fault env ''sync pending blob'' (pb_destination p) (cb_fs s) of
                  Some e \<Rightarrow> (Err (fs_error ''sync pending blob'' (pb_destination p) e), s)
                | None \<Rightarrow>
                    (case persist_noclobber env (pb_destination p) (pb_temporary p) (cb_fs s) of
                       (Inr _, fs') \<Rightarrow> (Ok (), s\<lparr>cb_fs := fs'\<rparr>)
                     | (Inl IoAlreadyExists, fs') \<Rightarrow> (Ok (), s\<lparr>cb_fs := fs'\<rparr>)
                     | (Inl e, fs') \<Rightarrow>
                         (Err (fs_error ''admit verified blob'' (pb_destination p) e), s\<lparr>cb_fs := fs'\<rparr>)))))"

definition fill_cache_after_lock ::
  "fs_env \<Rightarrow> (bytes \<Rightarrow> string) \<Rightarrow> stream \<Rightarrow> digest \<Rightarrow> cached_blob_store \<Rightarrow>
     (bool, session_error) result \<times> cached_blob_store" where
  "fill_cache_after_lock env sha stream d s =
     (if cache_contains s d then (Ok False, s)
      else (case start_pending_blob env s d of
              (Inl e, s1) \<Rightarrow> (Err e, s1)
            | (Inr pending, s1) \<Rightarrow>
                (case stream d pending of
                   (Inl e, _) \<Rightarrow> (Err (InternalError ''stream remote blob''), s1)
                 | (Inr _, pending') \<Rightarrow>
                     (case admit_pending_blob env sha s1 pending' of
                        (Inl e, s2) \<Rightarrow> (Err e, s2)
                      | (Inr _, s2) \<Rightarrow> (Ok True, s2)))))"

definition ensure_cached ::
  "fs_env \<Rightarrow> (bytes \<Rightarrow> string) \<Rightarrow> stream \<Rightarrow> digest \<Rightarrow> cached_blob_store \<Rightarrow>
     (bool, session_error) result \<times> cached_blob_store" where
  "ensure_cached env sha stream d s =
     (if cache_contains s d then (Ok False, s)
      else (case acquire_download_lock d (cb_locks s) of
              (Inl e, lk) \<Rightarrow> (Err e, s\<lparr>cb_locks := lk\<rparr>)
            | (Inr l, lk) \<Rightarrow>
                let s1 = s\<lparr>cb_locks := lk\<rparr> in
                if lk_gate_poisoned lk l then
                  (case release_download_lock d l lk of
                     (Inl e, lk2) \<Rightarrow> (Err e, s1\<lparr>cb_locks := lk2\<rparr>)
                   | (Inr _, lk2) \<Rightarrow>
                       (Err (InternalError ''wait for blob download: download gate is poisoned''),
                        s1\<lparr>cb_locks := lk2\<rparr>))
                else
                  (case fill_cache_after_lock env sha stream d s1 of
                     (r, s2) \<Rightarrow>
                       (case release_download_lock d l (cb_locks s2) of
                          (Inl e, lk2) \<Rightarrow> (Err e, s2\<lparr>cb_locks := lk2\<rparr>)
                        | (Inr _, lk2) \<Rightarrow> (r, s2\<lparr>cb_locks := lk2\<rparr>)))))"

definition read_cached_blob :: "fs_env \<Rightarrow> cached_blob_store \<Rightarrow> digest \<Rightarrow> (bytes, session_error) result" where
  "read_cached_blob env s d =
     (let path = cache_path (cb_root s) d in
      case (io_fault env ''read admitted blob'' path (cb_fs s), fs_files (cb_fs s) path) of
        (Some IoNotFound, _) \<Rightarrow> Err (InternalError ''read admitted blob: entry is missing'')
      | (Some e, _) \<Rightarrow> Err (fs_error ''read admitted blob'' path e)
      | (None, None) \<Rightarrow>
          if path \<in> fs_dirs (cb_fs s)
          then Err (fs_error ''read admitted blob'' path (IoOther ''is a directory''))
          else Err (InternalError ''read admitted blob: entry is missing'')
      | (None, Some content) \<Rightarrow> Ok content)"

definition read_blob ::
  "fs_env \<Rightarrow> (bytes \<Rightarrow> string) \<Rightarrow> stream \<Rightarrow> digest \<Rightarrow> cached_blob_store \<Rightarrow>
     (bytes \<times> bool, session_error) result \<times> cached_blob_store" where
  "read_blob env sha stream d s =
     (case ensure_cached env sha stream d s of
        (Inl e, s') \<Rightarrow> (Err e, s')
      | (Inr downloaded, s') \<Rightarrow>
          (and_then (read_cached_blob env s' d) (\<lambda>bs. Ok (bs, downloaded)), s'))"

definition cache_read_range ::
  "fs_env \<Rightarrow> (bytes \<Rightarrow> string) \<Rightarrow> stream \<Rightarrow> digest \<Rightarrow> u64 \<Rightarrow> usize \<Rightarrow> cached_blob_store \<Rightarrow>
     (bytes \<times> bool, session_error) result \<times> cached_blob_store" where
  "cache_read_range env sha stream d offset sz s =
     (case ensure_cached env sha stream d s of
        (Inl e, s') \<Rightarrow> (Err e, s')
      | (Inr downloaded, s') \<Rightarrow>
          (and_then (read_file_range env (cache_path (cb_root s') d) offset sz (cb_fs s'))
             (\<lambda>bs. Ok (bs, downloaded)), s'))"

section \<open>The overlay\<close>

record overlay_store =
  ov_root :: string

definition overlay_open ::
  "fs_env \<Rightarrow> string \<Rightarrow> local_fs \<Rightarrow> (overlay_store, session_error) result \<times> local_fs" where
  "overlay_open env root fs =
     (case create_dir_if_absent env root fs of
        (Inl e, fs1) \<Rightarrow> (Err e, fs1)
      | (Inr _, fs1) \<Rightarrow>
          (case create_dir_if_absent env (path_join root ''data'') fs1 of
             (Inl e, fs2) \<Rightarrow> (Err e, fs2)
           | (Inr _, fs2) \<Rightarrow>
               (case create_dir_if_absent env (path_join root ''tmp'') fs2 of
                  (Inl e, fs3) \<Rightarrow> (Err e, fs3)
                | (Inr _, fs3) \<Rightarrow> (Ok \<lparr>ov_root = root\<rparr>, fs3))))"

definition overlay_read_range ::
  "fs_env \<Rightarrow> overlay_store \<Rightarrow> string \<Rightarrow> u64 \<Rightarrow> usize \<Rightarrow> local_fs \<Rightarrow> (bytes, session_error) result" where
  "overlay_read_range env ov relative offset sz fs =
     read_file_range env (path_join (path_join (ov_root ov) ''data'') relative) offset sz fs"

section \<open>Cache paths\<close>

lemma valid_digest_hash_hd: "valid_digest d \<Longrightarrow> length (hash d) = 64 \<and> CHR ''/'' \<notin> set (hash d)"
  using valid_hash_no_slash by (auto simp: valid_digest_def valid_hash_def)

lemma path_join_relative:
  "p \<noteq> [] \<Longrightarrow> CHR ''/'' \<notin> set p \<Longrightarrow>
     path_join base p = (if base = [] \<or> last base = CHR ''/'' then base @ p else base @ ''/'' @ p)"
  by (cases p) (auto simp: path_join_def)

lemma cache_path_eq:
  assumes "valid_digest d"
  shows "cache_path root d =
    path_join root (take 2 (hash d)) @ ''/'' @ hash d @ ''-'' @ show_int (size_bytes d)"
proof -
  obtain a b r where h: "hash d = a # b # r" "CHR ''/'' \<notin> set (hash d)"
    using valid_digest_hash_hd [OF assms] by (cases "hash d" rule: remdups_adj.cases) auto
  then have "path_join root (take 2 (hash d)) \<noteq> [] \<and> last (path_join root (take 2 (hash d))) \<noteq> CHR ''/''"
    by (auto simp: path_join_def)
  with h show ?thesis by (auto simp: cache_path_def path_join_def [of "path_join _ _"])
qed

lemma cache_path_inj:
  assumes "valid_digest d" "valid_digest d'" "cache_path root d = cache_path root d'"
  shows "d = d'"
proof -
  note l = valid_digest_hash_hd [OF assms(1)] valid_digest_hash_hd [OF assms(2)]
  have "length (path_join root (take 2 (hash d))) = length (path_join root (take 2 (hash d')))"
  proof -
    have "take 2 (hash e) \<noteq> []" "CHR ''/'' \<notin> set (take 2 (hash e))" "length (take 2 (hash e)) = 2"
      if "valid_digest e" for e
      using valid_digest_hash_hd [OF that] by (auto dest: in_set_takeD)
    with assms(1,2) show ?thesis by (simp add: path_join_relative)
  qed
  with assms(3) have "hash d @ ''-'' @ show_int (size_bytes d) = hash d' @ ''-'' @ show_int (size_bytes d')"
    unfolding cache_path_eq [OF assms(1)] cache_path_eq [OF assms(2)] by simp
  with l have "hash d = hash d'" "show_int (size_bytes d) = show_int (size_bytes d')" by simp_all
  moreover from assms(1,2) have "0 \<le> size_bytes d" "0 \<le> size_bytes d'" by (simp_all add: valid_digest_def)
  ultimately show ?thesis
    by (auto simp: show_int_nonneg dest!: show_nat_inj intro!: digest.equality)
qed

section \<open>Pending blobs: laws\<close>

text \<open>The contract of \<^verbatim>\<open>Write::write\<close>: it accepts at most the bytes it was given.\<close>

definition temp_write_ok :: "fs_env \<Rightarrow> bool" where
  "temp_write_ok env \<longleftrightarrow> (\<forall>content bs n. temp_write env content bs = Ok n \<longrightarrow> n \<le> length bs)"

definition pending_inv :: "pending_blob \<Rightarrow> bool" where
  "pending_inv p \<longleftrightarrow> valid_digest (pb_expected p) \<and> pb_hashed p = pb_temporary p \<and>
     unat (pb_written p) = length (pb_temporary p) \<and>
     int (length (pb_temporary p)) \<le> size_bytes (pb_expected p)"

definition same_target :: "pending_blob \<Rightarrow> pending_blob \<Rightarrow> bool" where
  "same_target p q \<longleftrightarrow> pb_expected q = pb_expected p \<and> pb_destination q = pb_destination p"

lemma pending_new_inv: "valid_digest d \<Longrightarrow> pending_inv (pending_new d dest)"
  by (simp add: pending_inv_def pending_new_def valid_digest_def)

lemma pending_write_inv:
  assumes "pending_inv p" "temp_write_ok env" "pending_write env p bs = (r, q)"
  shows "pending_inv q \<and> same_target p q"
proof -
  have v: "0 \<le> size_bytes (pb_expected p)" "size_bytes (pb_expected p) \<le> i64_max"
    using assms(1) by (simp_all add: pending_inv_def valid_digest_def)
  obtain w where w: "u64_try_from_i64 (size_bytes (pb_expected p)) = Some w" "uint w = size_bytes (pb_expected p)"
    using v uint_word_of_int_u64 [of "size_bytes (pb_expected p)"] by (simp add: conv_simps)
  let ?add = "case u64_try_from_len (length bs) of None \<Rightarrow> u64_max | Some n \<Rightarrow> n"
  have len: "unat ?add = min (length bs) (2 ^ 64 - 1)" by (simp add: u64_try_from_len_def unat_of_nat)
  show ?thesis
  proof (cases "q = p")
    case False
    with assms(3) w(1) obtain n where n: "temp_write env (pb_temporary p) bs = Ok n"
      and le: "\<not> saturating_add_u64 (pb_written p) ?add > w"
      and q: "q = p\<lparr>pb_temporary := pb_temporary p @ take n bs, pb_hashed := pb_hashed p @ take n bs,
        pb_written := pb_written p + of_nat n\<rparr>"
      by (auto simp: pending_write_def Let_def split: if_splits sum.splits)
    have nb: "n \<le> length bs" using assms(2) n by (auto simp: temp_write_ok_def)
    have "min (unat (pb_written p) + min (length bs) (2 ^ 64 - 1)) (2 ^ 64 - 1) \<le> unat w"
      using le by (simp add: not_less word_le_nat_alt unat_saturating_add len)
    moreover have "unat w < 2 ^ 63"
      using v w(2) by (simp add: unat_eq_nat_uint)
    ultimately have b: "unat (pb_written p) + length bs \<le> unat w" by simp
    have "unat (pb_written p + of_nat n) = unat (pb_written p) + n"
      using b nb \<open>unat w < 2 ^ 63\<close> by (simp add: unat_word_ariths unat_of_nat)
    moreover have "int (length (pb_temporary p)) + int n \<le> size_bytes (pb_expected p)"
    proof -
      have "unat (pb_written p) = length (pb_temporary p)" using assms(1) by (simp add: pending_inv_def)
      moreover
      have "int (unat w) = size_bytes (pb_expected p)" using w(2) v(1) by (simp add: unat_eq_nat_uint)
      ultimately show ?thesis using b nb by linarith
    qed
    ultimately show ?thesis
      using assms(1) nb by (simp add: q pending_inv_def same_target_def)
  qed (use assms(1) in \<open>simp add: same_target_def\<close>)
qed

lemma pending_write_all_inv:
  assumes "pending_inv p" "temp_write_ok env"
  shows "pending_inv (snd (pending_write_all env p bs)) \<and> same_target p (snd (pending_write_all env p bs))"
  using assms
proof (induction env p bs rule: pending_write_all.induct)
  case (1 env p bs)
  show ?case
  proof (cases "bs = []")
    case False
    obtain r q where rq: "pending_write env p bs = (r, q)" by fastforce
    have inv: "pending_inv q" "same_target p q"
      using pending_write_inv [OF "1.prems"(1,2) rq] by auto
    show ?thesis
    proof (cases r)
      case (Inr n)
      show ?thesis
      proof (cases "n = 0")
        case nz: False
        have "pending_inv (snd (pending_write_all env q (drop n bs))) \<and>
            same_target q (snd (pending_write_all env q (drop n bs)))"
          using "1.IH" [OF False rq [symmetric] Inr nz] inv(1) "1.prems"(2) by simp
        with False rq Inr nz inv(2) show ?thesis
          by (simp add: pending_write_all.simps [of env p bs] same_target_def)
      qed (use False rq Inr inv in \<open>simp add: pending_write_all.simps [of env p bs]\<close>)
    qed (use False rq inv in \<open>simp add: pending_write_all.simps [of env p bs]\<close>)
  qed (use "1.prems" in \<open>simp add: pending_write_all.simps same_target_def\<close>)
qed

definition write_chunks :: "fs_env \<Rightarrow> bytes list \<Rightarrow> pending_blob \<Rightarrow> pending_blob" where
  "write_chunks env bss p = fold (\<lambda>bs q. snd (pending_write_all env q bs)) bss p"

lemma write_chunks_inv:
  "pending_inv p \<Longrightarrow> temp_write_ok env \<Longrightarrow>
     pending_inv (write_chunks env bss p) \<and> same_target p (write_chunks env bss p)"
proof (induction bss arbitrary: p)
  case (Cons bs bss)
  let ?q = "snd (pending_write_all env p bs)"
  have q: "pending_inv ?q" "same_target p ?q" using pending_write_all_inv Cons.prems by auto
  have "pending_inv (write_chunks env bss ?q) \<and> same_target ?q (write_chunks env bss ?q)"
    using Cons.IH [OF q(1)] Cons.prems by simp
  with q(2) show ?case by (simp add: write_chunks_def same_target_def)
qed (simp add: write_chunks_def same_target_def)

text \<open>The \<^verbatim>\<open>expect\<close>s of \<^verbatim>\<open>verify\<close> never fire, and what passes has the expected digest.\<close>

lemma pending_verify_eq:
  assumes "pending_inv p" "sha256_hex_ok sha"
  shows "pending_verify sha p =
    (if for_bytes sha (pb_temporary p) = pb_expected p then Ok () else Err (InternalError ''verify pending blob''))"
proof -
  have len: "int (length (pb_temporary p)) \<le> i64_max" and u: "uint (pb_written p) = int (length (pb_temporary p))"
    using assms(1) by (auto simp: pending_inv_def valid_digest_def uint_nat)
  then have "as_i64 (length (pb_temporary p)) = int (length (pb_temporary p))"
    by (intro as_i64_small) simp
  then have fb: "for_bytes sha (pb_temporary p) = \<lparr>hash = sha (pb_temporary p), size_bytes = int (length (pb_temporary p))\<rparr>"
    by (simp add: for_bytes_def)
  have "digest_new (sha (pb_temporary p)) (int (length (pb_temporary p))) = Ok (for_bytes sha (pb_temporary p))"
    using digest_new_valid [of "for_bytes sha (pb_temporary p)"] for_bytes_valid [OF assms(2), of "pb_temporary p"]
      len fb by simp
  with len u assms(1) show ?thesis
    by (simp add: pending_verify_def conv_simps pending_inv_def)
qed

section \<open>Admission\<close>

text \<open>Every file under a cache path holds the content its digest names.\<close>

definition cache_ok :: "(bytes \<Rightarrow> string) \<Rightarrow> string \<Rightarrow> local_fs \<Rightarrow> bool" where
  "cache_ok sha root fs \<longleftrightarrow>
     (\<forall>d content. valid_digest d \<and> fs_files fs (cache_path root d) = Some content \<longrightarrow> for_bytes sha content = d)"

definition stream_writes :: "fs_env \<Rightarrow> stream \<Rightarrow> bool" where
  "stream_writes env stream \<longleftrightarrow>
     (\<forall>d p. \<exists>bss. snd (stream d p) = write_chunks env bss p)"

lemma create_dir_if_absent_files:
  "create_dir_if_absent env p fs = (r, fs') \<Longrightarrow> fs_files fs' = fs_files fs"
  by (auto simp: create_dir_if_absent_def create_dir_def split: option.splits if_splits sum.splits
      io_error.splits prod.splits)

lemma start_pending_blob_effect:
  assumes "start_pending_blob env s d = (r, s')"
  shows "cb_root s' = cb_root s \<and> cb_locks s' = cb_locks s \<and> fs_files (cb_fs s') = fs_files (cb_fs s) \<and>
    (\<forall>p. r = Ok p \<longrightarrow> p = pending_new d (cache_path (cb_root s) d))"
  using assms
  by (auto simp: start_pending_blob_def Let_def dest: create_dir_if_absent_files
      split: prod.splits sum.splits if_splits option.splits)

lemma admit_pending_blob_effect:
  assumes "admit_pending_blob env sha s p = (r, s')"
  shows "cb_root s' = cb_root s \<and> cb_locks s' = cb_locks s \<and>
    (fs_files (cb_fs s') = fs_files (cb_fs s) \<or>
     r = Ok () \<and> pending_verify sha p = Ok () \<and>
       fs_files (cb_fs s') = (fs_files (cb_fs s))(pb_destination p \<mapsto> pb_temporary p))"
  using assms
  by (auto simp: admit_pending_blob_def persist_noclobber_def
      split: sum.splits option.splits if_splits prod.splits io_error.splits)

text \<open>What one download can do to the files: nothing, or add the verified blob.\<close>

definition admitted :: "(bytes \<Rightarrow> string) \<Rightarrow> digest \<Rightarrow> cached_blob_store \<Rightarrow> cached_blob_store \<Rightarrow> bool" where
  "admitted sha d s s' \<longleftrightarrow> (\<exists>content. for_bytes sha content = d \<and>
     fs_files (cb_fs s') = (fs_files (cb_fs s))(cache_path (cb_root s) d \<mapsto> content))"

lemma fill_cache_effect:
  assumes "fill_cache_after_lock env sha stream d s = (r, s')"
    and d: "valid_digest d" "sha256_hex_ok sha" "temp_write_ok env" "stream_writes env stream"
  shows "cb_root s' = cb_root s \<and> cb_locks s' = cb_locks s \<and>
    (fs_files (cb_fs s') = fs_files (cb_fs s) \<or> r = Ok True \<and> admitted sha d s s')"
proof (cases "cache_contains s d")
  case False
  obtain r1 s1 where s1: "start_pending_blob env s d = (r1, s1)" by fastforce
  note e1 = start_pending_blob_effect [OF s1]
  show ?thesis
  proof (cases r1)
    case (Inr p)
    with e1 have p: "p = pending_new d (cache_path (cb_root s) d)" by blast
    obtain r2 q where q: "stream d p = (r2, q)" by fastforce
    obtain bss where "snd (stream d p) = write_chunks env bss p"
      using d(4) unfolding stream_writes_def by blast
    then have inv: "pending_inv q" "same_target p q"
      using write_chunks_inv [OF pending_new_inv [OF d(1)] d(3)] q p by auto
    show ?thesis
    proof (cases r2)
      case ok: (Inr u)
      obtain r3 s3 where s3: "admit_pending_blob env sha s1 q = (r3, s3)" by fastforce
      have "r = (case r3 of Inl e \<Rightarrow> Err e | Inr _ \<Rightarrow> Ok True)" "s' = s3"
        using assms(1) False s1 Inr q ok s3 by (auto simp: fill_cache_after_lock_def split: sum.splits)
      with admit_pending_blob_effect [OF s3] e1 inv p pending_verify_eq [OF inv(1) d(2)] show ?thesis
        by (auto simp: admitted_def same_target_def pending_new_def split: if_splits)
    qed (use assms(1) False s1 Inr q e1 in \<open>auto simp: fill_cache_after_lock_def\<close>)
  qed (use assms(1) False s1 e1 in \<open>auto simp: fill_cache_after_lock_def\<close>)
qed (use assms(1) in \<open>simp add: fill_cache_after_lock_def\<close>)

lemma acquire_Ok:
  "acquire_download_lock d lk = (Ok l, lk') \<Longrightarrow> \<not> lk_map_poisoned lk \<and> \<not> lk_map_poisoned lk' \<and>
     lk_map lk' d = Some l \<and> (\<forall>d'. d' \<noteq> d \<longrightarrow> lk_map lk' d' = lk_map lk d')"
  by (auto simp: acquire_download_lock_def Let_def split: if_splits option.splits)

lemma release_Ok:
  "\<not> lk_map_poisoned lk \<Longrightarrow> \<exists>lk'. release_download_lock d l lk = (Ok (), lk')"
  by (simp add: release_download_lock_def Let_def)

lemma ensure_cached_effect:
  assumes "ensure_cached env sha stream d s = (r, s')"
    and d: "valid_digest d" "sha256_hex_ok sha" "temp_write_ok env" "stream_writes env stream"
  shows "cb_root s' = cb_root s \<and>
    (fs_files (cb_fs s') = fs_files (cb_fs s) \<or> r = Ok True \<and> admitted sha d s s')"
proof (cases "cache_contains s d")
  case False
  obtain ra lk where a: "acquire_download_lock d (cb_locks s) = (ra, lk)" by fastforce
  show ?thesis
  proof (cases ra)
    case (Inr l)
    have np: "\<not> lk_map_poisoned lk" using acquire_Ok a Inr by blast
    let ?s1 = "s\<lparr>cb_locks := lk\<rparr>"
    obtain lk2 where rel: "release_download_lock d l lk = (Ok (), lk2)" using release_Ok [OF np] by blast
    show ?thesis
    proof (cases "lk_gate_poisoned lk l")
      case nogate: False
      obtain r2 s2 where f: "fill_cache_after_lock env sha stream d ?s1 = (r2, s2)" by fastforce
      note fe = fill_cache_effect [OF f d]
      then have "r = r2" "s' = s2\<lparr>cb_locks := lk2\<rparr>"
        using assms(1) False a Inr nogate f rel by (auto simp: ensure_cached_def Let_def)
      with fe show ?thesis by (auto simp: admitted_def)
    qed (use assms(1) False a Inr rel in \<open>auto simp: ensure_cached_def Let_def\<close>)
  qed (use assms(1) False a in \<open>auto simp: ensure_cached_def\<close>)
qed (use assms(1) in \<open>simp add: ensure_cached_def\<close>)

lemma cache_ok_cong: "fs_files fs' = fs_files fs \<Longrightarrow> cache_ok sha root fs' = cache_ok sha root fs"
  by (simp add: cache_ok_def)

lemma admitted_cache_ok:
  "admitted sha d s s' \<Longrightarrow> valid_digest d \<Longrightarrow> cache_ok sha (cb_root s) (cb_fs s) \<Longrightarrow> cache_ok sha (cb_root s) (cb_fs s')"
  by (auto simp: admitted_def cache_ok_def split: if_splits dest: cache_path_inj)

lemma ensure_cached_ok:
  assumes "ensure_cached env sha stream d s = (r, s')" "cache_ok sha (cb_root s) (cb_fs s)"
    and d: "valid_digest d" "sha256_hex_ok sha" "temp_write_ok env" "stream_writes env stream"
  shows "cache_ok sha (cb_root s') (cb_fs s')"
  using ensure_cached_effect [OF assms(1) d] admitted_cache_ok [OF _ d(1) assms(2)] assms(2)
    cache_ok_cong [of "cb_fs s'" "cb_fs s" sha] by auto

section \<open>Interleaved downloads\<close>

text \<open>
  Readers of the cache as threads. A reader joins the cohort of a digest, enters its gate (or finds it
  poisoned), downloads while holding it, drops it, and leaves the cohort. Each transition is one
  critical section of \<open>ensure_cached\<close>: \<open>acquire_download_lock\<close>, locking the gate, unlocking it,
  \<open>release_download_lock\<close>.
\<close>

datatype reader = Idle | Joined digest nat | Holding digest nat | Leaving digest nat

record cohort =
  co_locks :: lock_state
  co_readers :: "nat \<Rightarrow> reader"

fun engaged :: "reader \<Rightarrow> (digest \<times> nat) option" where
  "engaged Idle = None"
| "engaged (Joined d l) = Some (d, l)"
| "engaged (Holding d l) = Some (d, l)"
| "engaged (Leaving d l) = Some (d, l)"

inductive cohort_step :: "cohort \<Rightarrow> cohort \<Rightarrow> bool" where
  join: "co_readers c t = Idle \<Longrightarrow> acquire_download_lock d (co_locks c) = (Ok l, lk) \<Longrightarrow>
     cohort_step c \<lparr>co_locks = lk, co_readers = (co_readers c)(t := Joined d l)\<rparr>"
| enter: "co_readers c t = Joined d l \<Longrightarrow> \<not> lk_gate_poisoned (co_locks c) l \<Longrightarrow>
     (\<And>t' d'. co_readers c t' \<noteq> Holding d' l) \<Longrightarrow>
     cohort_step c (c\<lparr>co_readers := (co_readers c)(t := Holding d l)\<rparr>)"
| refused: "co_readers c t = Joined d l \<Longrightarrow> lk_gate_poisoned (co_locks c) l \<Longrightarrow>
     cohort_step c (c\<lparr>co_readers := (co_readers c)(t := Leaving d l)\<rparr>)"
| unlock: "co_readers c t = Holding d l \<Longrightarrow>
     cohort_step c (c\<lparr>co_readers := (co_readers c)(t := Leaving d l)\<rparr>)"
| leave: "co_readers c t = Leaving d l \<Longrightarrow> release_download_lock d l (co_locks c) = (Ok (), lk) \<Longrightarrow>
     cohort_step c \<lparr>co_locks = lk, co_readers = (co_readers c)(t := Idle)\<rparr>"

definition idle_cohort :: cohort where
  "idle_cohort = \<lparr>co_locks = no_locks, co_readers = (\<lambda>_. Idle)\<rparr>"

definition members :: "(nat \<Rightarrow> reader) \<Rightarrow> digest \<Rightarrow> nat \<Rightarrow> nat set" where
  "members rd d l = {t. engaged (rd t) = Some (d, l)}"

definition cohort_inv :: "cohort \<Rightarrow> bool" where
  "cohort_inv c \<longleftrightarrow>
     finite {t. co_readers c t \<noteq> Idle} \<and>
     (\<forall>t d l. engaged (co_readers c t) = Some (d, l) \<longrightarrow> lk_map (co_locks c) d = Some l) \<and>
     (\<forall>d l. lk_map (co_locks c) d = Some l \<longrightarrow> l < lk_next (co_locks c) \<and>
        lk_participants (co_locks c) l = card (members (co_readers c) d l) \<and> members (co_readers c) d l \<noteq> {}) \<and>
     (\<forall>d d' l. lk_map (co_locks c) d = Some l \<and> lk_map (co_locks c) d' = Some l \<longrightarrow> d = d') \<and>
     (\<forall>t t' d d' l. co_readers c t = Holding d l \<and> co_readers c t' = Holding d' l \<longrightarrow> t = t')"

lemma members_finite: "finite {t. rd t \<noteq> Idle} \<Longrightarrow> finite (members rd d l)"
  by (rule finite_subset [rotated]) (auto simp: members_def)

lemma members_upd:
  "members (rd(t := r)) d l = (if engaged r = Some (d, l) then insert t (members rd d l) else members rd d l - {t})"
  by (auto simp: members_def)

lemma finite_upd: "finite {t. rd t \<noteq> Idle} \<Longrightarrow> finite {t. (rd(t0 := r)) t \<noteq> Idle}"
  by (rule finite_subset [of _ "insert t0 {t. rd t \<noteq> Idle}"]) auto

lemma members_same_engagement:
  "engaged (rd t) = engaged r \<Longrightarrow> members (rd(t := r)) d l = members rd d l"
  by (auto simp: members_def)

lemma cohort_invD:
  assumes "cohort_inv c"
  shows "finite {t. co_readers c t \<noteq> Idle}"
    "engaged (co_readers c t) = Some (d, l) \<Longrightarrow> lk_map (co_locks c) d = Some l"
    "lk_map (co_locks c) d = Some l \<Longrightarrow> l < lk_next (co_locks c)"
    "lk_map (co_locks c) d = Some l \<Longrightarrow> lk_participants (co_locks c) l = card (members (co_readers c) d l)"
    "lk_map (co_locks c) d = Some l \<Longrightarrow> members (co_readers c) d l \<noteq> {}"
    "lk_map (co_locks c) d = Some l \<Longrightarrow> lk_map (co_locks c) d' = Some l \<Longrightarrow> d = d'"
    "co_readers c t = Holding d l \<Longrightarrow> co_readers c t' = Holding d' l \<Longrightarrow> t = t'"
  using assms unfolding cohort_inv_def by blast+

lemma cohort_invI:
  assumes "finite {t. co_readers c t \<noteq> Idle}"
    "\<And>t d l. engaged (co_readers c t) = Some (d, l) \<Longrightarrow> lk_map (co_locks c) d = Some l"
    "\<And>d l. lk_map (co_locks c) d = Some l \<Longrightarrow> l < lk_next (co_locks c) \<and>
       lk_participants (co_locks c) l = card (members (co_readers c) d l) \<and> members (co_readers c) d l \<noteq> {}"
    "\<And>d d' l. lk_map (co_locks c) d = Some l \<Longrightarrow> lk_map (co_locks c) d' = Some l \<Longrightarrow> d = d'"
    "\<And>t t' d d' l. co_readers c t = Holding d l \<Longrightarrow> co_readers c t' = Holding d' l \<Longrightarrow> t = t'"
  shows "cohort_inv c"
  using assms unfolding cohort_inv_def by blast

lemma cohort_inv_same_engagement:
  assumes inv: "cohort_inv c" and eq: "engaged (co_readers c t) = engaged r"
    and hold: "\<And>d l. r = Holding d l \<Longrightarrow> (\<And>t' d'. co_readers c t' \<noteq> Holding d' l)"
  shows "cohort_inv (c\<lparr>co_readers := (co_readers c)(t := r)\<rparr>)"
proof (rule cohort_invI)
  note D = cohort_invD [OF inv]
  let ?c = "c\<lparr>co_readers := (co_readers c)(t := r)\<rparr>"
  show "finite {u. co_readers ?c u \<noteq> Idle}" using finite_upd [OF D(1)] by simp
  show "lk_map (co_locks ?c) d = Some l" if "engaged (co_readers ?c u) = Some (d, l)" for u d l
    using that D(2) eq by (cases "u = t") auto
  show "x = y" if "co_readers ?c x = Holding d l" "co_readers ?c y = Holding d' l" for x y d d' l
    using that hold D(7) by (cases "x = t"; cases "y = t") auto
  show "l < lk_next (co_locks ?c) \<and> lk_participants (co_locks ?c) l = card (members (co_readers ?c) d l) \<and>
      members (co_readers ?c) d l \<noteq> {}" if "lk_map (co_locks ?c) d = Some l" for d l
    using that D(3,4,5) by (simp add: members_same_engagement [where rd = "co_readers c", OF eq] del: fun_upd_apply)
  show "d = d'" if "lk_map (co_locks ?c) d = Some l" "lk_map (co_locks ?c) d' = Some l" for d d' l
    using that D(6) by simp
qed

lemma cohort_inv_join:
  assumes inv: "cohort_inv c" and idle: "co_readers c t = Idle"
    and a: "acquire_download_lock d (co_locks c) = (Ok l, lk)"
  shows "cohort_inv \<lparr>co_locks = lk, co_readers = (co_readers c)(t := Joined d l)\<rparr>"
proof (rule cohort_invI, unfold cohort.simps)
  note D = cohort_invD [OF inv]
  let ?m = "lk_map (co_locks c)" let ?rd = "(co_readers c)(t := Joined d l)"
  have nt: "t \<notin> members (co_readers c) d' l'" for d' l' using idle by (simp add: members_def)
  have lk: "l = (case ?m d of None \<Rightarrow> lk_next (co_locks c) | Some l \<Rightarrow> l)"
    "lk_map lk = ?m(d \<mapsto> l)"
    "lk_participants lk = (lk_participants (co_locks c))
       (l := (if ?m d = None then 0 else lk_participants (co_locks c) l) + 1)"
    "lk_next lk = (if ?m d = None then lk_next (co_locks c) + 1 else lk_next (co_locks c))"
    using a by (auto simp: acquire_download_lock_def Let_def fun_upd_idem split: if_splits option.splits)
  have other: "d' = d" if "?m d' = Some l" for d'
    using that D(3) [OF that] D(6) lk(1) by (cases "?m d") auto
  show "finite {u. ?rd u \<noteq> Idle}" by (rule finite_upd [OF D(1)])
  show "l' < lk_next lk \<and> lk_participants lk l' = card (members ?rd d' l') \<and> members ?rd d' l' \<noteq> {}"
    if m: "lk_map lk d' = Some l'" for d' l'
  proof (cases "d' = d")
    case True
    with m lk(2) have l': "l' = l" by simp
    have "card (insert t (members (co_readers c) d l)) = card (members (co_readers c) d l) + 1"
      using nt members_finite [OF D(1)] by simp
    moreover have "l < lk_next lk \<and> lk_participants lk l = card (members (co_readers c) d l) + 1"
    proof (cases "?m d")
      case None
      then have "members (co_readers c) d l = {}" using D(2) by (auto simp: members_def)
      with None lk show ?thesis by simp
    qed (use D(3,4) lk in auto)
    ultimately show ?thesis using True l' by (simp add: members_upd del: fun_upd_apply)
  next
    case False
    with m lk(2) have m': "?m d' = Some l'" by simp
    with False other have "l' \<noteq> l" by blast
    with False D(3,4,5) [OF m'] lk(3,4) nt show ?thesis by (simp add: members_upd del: fun_upd_apply) simp
  qed
  show "d1 = d2" if "lk_map lk d1 = Some l'" "lk_map lk d2 = Some l'" for d1 d2 l'
    using that D(6) other lk(2) by (cases "d1 = d"; cases "d2 = d") auto
  show "lk_map lk d' = Some l'" if "engaged (?rd u) = Some (d', l')" for u d' l'
    using that D(2) lk(1,2) by (cases "u = t") auto
  show "x = y" if "?rd x = Holding d1 l'" "?rd y = Holding d2 l'" for x y d1 d2 l'
    using that D(7) by (cases "x = t"; cases "y = t") auto
qed

lemma cohort_inv_leave:
  assumes inv: "cohort_inv c" and lv: "co_readers c t = Leaving d l"
    and r: "release_download_lock d l (co_locks c) = (Ok (), lk)"
  shows "cohort_inv \<lparr>co_locks = lk, co_readers = (co_readers c)(t := Idle)\<rparr>"
proof (rule cohort_invI, unfold cohort.simps)
  note D = cohort_invD [OF inv]
  let ?m = "lk_map (co_locks c)" let ?rd = "(co_readers c)(t := Idle)"
  let ?M = "members (co_readers c) d l"
  have tM: "t \<in> ?M" using lv by (simp add: members_def)
  have md: "?m d = Some l" using D(2) [of t d l] lv by simp
  have lk: "lk_map lk = (if card ?M = 1 then ?m(d := None) else ?m)"
    "lk_participants lk = (lk_participants (co_locks c))(l := card ?M - 1)" "lk_next lk = lk_next (co_locks c)"
    using r md D(4) [OF md] by (auto simp: release_download_lock_def Let_def split: if_splits)
  have nt: "t \<notin> members (co_readers c) d' l'" if "d' \<noteq> d" for d' l'
    using lv that by (auto simp: members_def)
  show "finite {u. ?rd u \<noteq> Idle}" by (rule finite_upd [OF D(1)])
  show "l' < lk_next lk \<and> lk_participants lk l' = card (members ?rd d' l') \<and> members ?rd d' l' \<noteq> {}"
    if m: "lk_map lk d' = Some l'" for d' l'
  proof (cases "d' = d")
    case True
    with m lk(1) md have l': "l' = l" and c: "card ?M \<noteq> 1" by (auto split: if_splits)
    have "card (?M - {t}) = card ?M - 1" using tM members_finite [OF D(1)] by simp
    moreover have "?M - {t} \<noteq> {}"
    proof
      assume "?M - {t} = {}"
      with tM have "?M = {t}" by blast
      with c show False by simp
    qed
    moreover have "lk_participants lk l = card ?M - 1" using lk(2) by simp
    ultimately show ?thesis using True l' lk(3) D(3) [OF md] by (simp add: members_upd del: fun_upd_apply)
  next
    case False
    with m lk(1) have m': "?m d' = Some l'" by (auto split: if_splits)
    with False md D(6) have "l' \<noteq> l" by blast
    with False D(3,4,5) [OF m'] lk(2,3) nt [OF False] show ?thesis by (simp add: members_upd del: fun_upd_apply) simp
  qed
  show "d1 = d2" if "lk_map lk d1 = Some l'" "lk_map lk d2 = Some l'" for d1 d2 l'
    using that D(6) [of d1 l' d2] lk(1) by (auto split: if_splits)
  show "lk_map lk d' = Some l'" if e: "engaged (?rd u) = Some (d', l')" for u d' l'
  proof -
    have u: "u \<noteq> t" and e': "engaged (co_readers c u) = Some (d', l')" using e by (auto split: if_splits)
    show ?thesis
    proof (cases "d' = d \<and> card ?M = 1")
      case True
      with D(2) [OF e'] md e' have "u \<in> ?M" by (auto simp: members_def)
      with tM u True show ?thesis by (auto simp: card_1_singleton_iff)
    qed (use D(2) [OF e'] lk(1) in auto)
  qed
  show "x = y" if "?rd x = Holding d1 l'" "?rd y = Holding d2 l'" for x y d1 d2 l'
    using that D(7) by (cases "x = t"; cases "y = t") auto
qed

lemma cohort_step_inv: "cohort_step c c' \<Longrightarrow> cohort_inv c \<Longrightarrow> cohort_inv c'"
proof (induction rule: cohort_step.induct)
  case (join c t d l lk)
  then show ?case using cohort_inv_join by blast
next
  case (leave c t d l lk)
  then show ?case using cohort_inv_leave by blast
qed (auto intro!: cohort_inv_same_engagement)

lemma idle_cohort_inv: "cohort_inv idle_cohort"
  by (rule cohort_invI) (simp_all add: idle_cohort_def no_locks_def)

lemma reachable_cohort_inv: "cohort_step\<^sup>*\<^sup>* idle_cohort c \<Longrightarrow> cohort_inv c"
  by (induction rule: rtranclp_induct) (auto intro: idle_cohort_inv cohort_step_inv)

section \<open>Reading through the cache\<close>

text \<open>
  What a \<^verbatim>\<open>BlobStore\<close> promises its client, the cache, and what the cache promises in turn. A regular
  file's \<^verbatim>\<open>pread\<close> is \<open>full_reads\<close> when it returns everything up to the requested size.
\<close>

locale blob_source =
  fixes env :: fs_env and stream :: stream
  assumes only_writes: "stream_writes env stream"
begin

lemma ensure_cached_keeps:
  "sha256_hex_ok sha \<Longrightarrow> temp_write_ok env \<Longrightarrow> ensure_cached env sha stream d s = (r, s') \<Longrightarrow> valid_digest d \<Longrightarrow> cache_ok sha (cb_root s) (cb_fs s) \<Longrightarrow>
     cache_ok sha (cb_root s') (cb_fs s')"
  using ensure_cached_ok only_writes by blast

lemma read_blob_verified:
  assumes "sha256_hex_ok sha" "temp_write_ok env"
    and "read_blob env sha stream d s = (r, s')" "valid_digest d" "cache_ok sha (cb_root s) (cb_fs s)"
  shows "cache_ok sha (cb_root s') (cb_fs s') \<and> (\<forall>bs b. r = Ok (bs, b) \<longrightarrow> for_bytes sha bs = d)"
proof -
  obtain r0 s0 where e: "ensure_cached env sha stream d s = (r0, s0)" by fastforce
  then have s': "s' = s0" using assms(3) by (auto simp: read_blob_def split: sum.splits)
  have ok: "cache_ok sha (cb_root s0) (cb_fs s0)" by (rule ensure_cached_keeps [OF assms(1,2) e assms(4,5)])
  have "for_bytes sha bs = d" if "r = Ok (bs, b)" for bs b
  proof -
    have "read_cached_blob env s0 d = Ok bs"
      using assms(3) that e by (auto simp: read_blob_def result_simps split: sum.splits)
    then have "fs_files (cb_fs s0) (cache_path (cb_root s0) d) = Some bs"
      by (auto simp: read_cached_blob_def Let_def split: option.splits if_splits io_error.splits)
    with ok assms(4) show ?thesis by (auto simp: cache_ok_def)
  qed
  with ok s' show ?thesis by blast
qed

end

definition full_reads :: "fs_env \<Rightarrow> bool" where
  "full_reads env \<longleftrightarrow> (\<forall>content off n. off + n \<le> length content \<longrightarrow> read_count env content off n = n)"

lemma read_file_range_Ok:
  assumes "read_file_range env path off sz fs = Ok bs" "full_reads env"
  shows "\<exists>content. fs_files fs path = Some content \<and>
    (length content < 2 ^ 64 \<longrightarrow> bs = take (unat sz) (drop (unat off) content))"
proof -
  obtain content where c: "fs_files fs path = Some content"
    using assms(1) by (auto simp: read_file_range_def split: option.splits)
  let ?n = "min (saturating_sub_u64 (of_nat (length content)) off) sz"
  have bs: "bs = take (min (read_count env content (unat off) (unat ?n)) (unat ?n)) (drop (unat off) content)"
    using assms(1) c by (auto simp: read_file_range_def Let_def split: option.splits)
  have "bs = take (unat sz) (drop (unat off) content)" if len: "length content < 2 ^ 64"
  proof -
    have n: "unat ?n = min (length content - unat off) (unat sz)"
      using len by (simp add: min_def word_le_nat_alt unat_saturating_sub unat_of_nat)
    show ?thesis
    proof (cases "unat off \<le> length content")
      case True
      with n have "read_count env content (unat off) (unat ?n) = unat ?n"
        using assms(2) unfolding full_reads_def by (simp add: min_def)
      with bs n show ?thesis by (simp add: min_def)
    qed (use bs n in simp)
  qed
  with c show ?thesis by blast
qed

section \<open>Properties\<close>

definition demo_fs_env :: fs_env where
  "demo_fs_env = \<lparr>io_fault = (\<lambda>_ _ _. None), temp_write = (\<lambda>_ bs. Ok (length bs)),
     read_count = (\<lambda>content off n. min n (length content - off))\<rparr>"

definition demo_cache :: cached_blob_store where
  "demo_cache = \<lparr>cb_root = ''/c'', cb_fs = \<lparr>fs_files = Map.empty, fs_dirs = {''/c''}\<rparr>, cb_locks = no_locks\<rparr>"

definition demo_stream :: stream where
  "demo_stream d p = (case pending_write_all demo_fs_env p [1, 2] of (r, q) \<Rightarrow> (map_err (\<lambda>_. ''write failed'') r, q))"

definition demo_blob :: digest where
  "demo_blob = for_bytes demo_sha [1, 2]"

lemma demo_sha_ok: "sha256_hex_ok demo_sha"
  by (simp add: sha256_hex_ok_def demo_sha_def valid_hash_def list_ex_iff bad_hash_char_def
      is_ascii_hexdigit_def is_ascii_digit_def is_ascii_alphabetic_def is_ascii_lowercase_def
      is_ascii_uppercase_def)

lemma demo_blob_valid: "valid_digest demo_blob"
  by (simp add: demo_blob_def for_bytes_valid [OF demo_sha_ok])

lemma demo_env_ok: "temp_write_ok demo_fs_env" "full_reads demo_fs_env" "stream_writes demo_fs_env demo_stream"
proof -
  show "stream_writes demo_fs_env demo_stream"
    unfolding stream_writes_def demo_stream_def
    by (intro allI exI [of _ "[[1, 2]]"]) (simp add: write_chunks_def split: prod.splits)
qed (auto simp: temp_write_ok_def full_reads_def demo_fs_env_def)

lemma demo_cache_ok: "cache_ok demo_sha (cb_root demo_cache) (cb_fs demo_cache)"
  by (simp add: cache_ok_def demo_cache_def)

lemma demo_shard: "take 2 (hash demo_blob) = ''aa''" "size_bytes demo_blob = 2"
  by (simp_all add: demo_blob_def for_bytes_def demo_sha_def as_i64_def numeral_2_eq_2)

lemma demo_stream_run:
  "demo_stream demo_blob (pending_new demo_blob p) =
     (Ok (), \<lparr>pb_expected = demo_blob, pb_destination = p, pb_temporary = [1, 2], pb_hashed = [1, 2], pb_written = 2\<rparr>)"
  by (simp add: u64_try_from_len_def demo_stream_def pending_write_all.simps pending_write_def demo_shard demo_fs_env_def
      pending_new_def conv_simps saturating_add_u64_def Let_def)

lemma demo_path: "cache_path ''/c'' demo_blob = ''/c/aa/'' @ hash demo_blob @ ''-2''"
  by (simp add: cache_path_eq [OF demo_blob_valid] demo_shard path_join_def show_int_def show_nat.simps digit_char_def)

lemma demo_absent: "\<not> cache_contains (demo_cache\<lparr>cb_locks := lk\<rparr>) demo_blob" "\<not> cache_contains demo_cache demo_blob"
  using demo_path by (simp_all add: cache_contains_def path_exists_def demo_cache_def)

lemma demo_cache_miss:
  "\<exists>s'. ensure_cached demo_fs_env demo_sha demo_stream demo_blob demo_cache = (Ok True, s') \<and>
     cb_root s' = ''/c'' \<and> fs_files (cb_fs s') = [cache_path ''/c'' demo_blob \<mapsto> [1, 2]]"
proof -
  let ?p = "cache_path ''/c'' demo_blob"
  have shard: "path_join ''/c'' ''aa'' = ''/c/aa''" "path_parent ''/c/aa'' = ''/c''"
    by (simp_all add: path_join_def path_parent_def)
  note p = demo_path
  let ?fs = "\<lparr>fs_files = Map.empty, fs_dirs = {''/c/aa'', ''/c''}\<rparr>"
  have start: "start_pending_blob demo_fs_env (demo_cache\<lparr>cb_locks := lk\<rparr>) demo_blob =
      (Ok (pending_new demo_blob ?p), demo_cache\<lparr>cb_locks := lk, cb_fs := ?fs\<rparr>)" for lk
    by (simp add: start_pending_blob_def demo_cache_def demo_shard shard create_dir_if_absent_def create_dir_def
        path_exists_def demo_fs_env_def Let_def)
  have verify: "pending_verify demo_sha \<lparr>pb_expected = demo_blob, pb_destination = ?p, pb_temporary = [1, 2],
      pb_hashed = [1, 2], pb_written = 2\<rparr> = Ok ()"
    by (subst pending_verify_eq [OF _ demo_sha_ok]) (simp_all add: pending_inv_def demo_blob_valid demo_shard flip: demo_blob_def)
  have admit: "admit_pending_blob demo_fs_env demo_sha (demo_cache\<lparr>cb_locks := lk, cb_fs := ?fs\<rparr>)
      \<lparr>pb_expected = demo_blob, pb_destination = ?p, pb_temporary = [1, 2], pb_hashed = [1, 2], pb_written = 2\<rparr> =
      (Ok (), demo_cache\<lparr>cb_locks := lk, cb_fs := ?fs\<lparr>fs_files := [?p \<mapsto> [1, 2]]\<rparr>\<rparr>)" for lk
    using verify p by (simp add: admit_pending_blob_def persist_noclobber_def path_exists_def demo_fs_env_def)
  have fill: "fill_cache_after_lock demo_fs_env demo_sha demo_stream demo_blob (demo_cache\<lparr>cb_locks := lk\<rparr>) =
      (Ok True, demo_cache\<lparr>cb_locks := lk, cb_fs := ?fs\<lparr>fs_files := [?p \<mapsto> [1, 2]]\<rparr>\<rparr>)" for lk
    using demo_absent by (simp add: fill_cache_after_lock_def start demo_stream_run admit)
  have "acquire_download_lock demo_blob no_locks = (Ok 0, no_locks\<lparr>lk_map := [demo_blob \<mapsto> 0],
      lk_participants := (\<lambda>_. 0)(0 := 1), lk_next := 1\<rparr>)"
    by (simp add: acquire_download_lock_def no_locks_def)
  moreover have "cb_locks demo_cache = no_locks" by (simp add: demo_cache_def)
  ultimately show ?thesis
    using demo_absent(2) fill by (simp add: ensure_cached_def release_download_lock_def no_locks_def Let_def demo_cache_def)
qed

text \<open>
  C5 Integrity of the verified cache. If every cached file holds the content its digest names, a read
  through the cache keeps it so, hit or miss, success or failure, and whatever it returns hashes to the
  requested digest, for any remote store that only writes to the pending blob it is given.
\<close>

theorem cache_reads_verified:
  assumes "sha256_hex_ok sha" "temp_write_ok env" "stream_writes env stream" "valid_digest d"
    and "cache_ok sha (cb_root s) (cb_fs s)" "read_blob env sha stream d s = (r, s')"
  shows "cache_ok sha (cb_root s') (cb_fs s') \<and> (\<forall>bs downloaded. r = Ok (bs, downloaded) \<longrightarrow> for_bytes sha bs = d)"
  using blob_source.read_blob_verified [OF blob_source.intro [OF assms(3)] assms(1,2,6,4,5)] .

theorem cache_reads_verified_witness:
  "\<exists>bs s'. read_blob demo_fs_env demo_sha demo_stream demo_blob demo_cache = (Ok (bs, True), s') \<and>
     for_bytes demo_sha bs = demo_blob \<and> cache_ok demo_sha (cb_root s') (cb_fs s')"
proof -
  obtain s' where "read_blob demo_fs_env demo_sha demo_stream demo_blob demo_cache = (Ok ([1, 2], True), s')"
    using demo_cache_miss by (auto simp: read_blob_def read_cached_blob_def demo_fs_env_def Let_def)
  with cache_reads_verified [OF demo_sha_ok demo_env_ok(1,3) demo_blob_valid demo_cache_ok this] show ?thesis by auto
qed

text \<open>
  Ranges. A range read through the cache returns exactly the requested slice of the blob: with
  content whose digest is the requested one, the bytes from the offset on, at most the requested
  number of them, and nothing at or beyond the end.
\<close>

theorem cache_range_is_slice:
  assumes "sha256_hex_ok sha" "temp_write_ok env" "stream_writes env stream" "valid_digest d" "full_reads env"
    and "cache_ok sha (cb_root s) (cb_fs s)" "cache_read_range env sha stream d off sz s = (Ok (bs, downloaded), s')"
  shows "\<exists>content. for_bytes sha content = d \<and> (length content < 2 ^ 64 \<longrightarrow> bs = take (unat sz) (drop (unat off) content))"
proof -
  obtain dl where e: "ensure_cached env sha stream d s = (Ok dl, s')"
    and r: "read_file_range env (cache_path (cb_root s') d) off sz (cb_fs s') = Ok bs"
    using assms(7) by (auto simp: cache_read_range_def result_simps split: prod.splits sum.splits)
  have "cache_ok sha (cb_root s') (cb_fs s')" by (rule ensure_cached_ok [OF e assms(6,4,1,2,3)])
  with read_file_range_Ok [OF r assms(5)] assms(4) show ?thesis by (auto simp: cache_ok_def)
qed

theorem cache_range_is_slice_witness:
  "\<exists>s' content. cache_read_range demo_fs_env demo_sha demo_stream demo_blob 1 5 demo_cache = (Ok ([2], True), s') \<and>
     for_bytes demo_sha content = demo_blob"
proof -
  obtain s' where "cache_read_range demo_fs_env demo_sha demo_stream demo_blob 1 5 demo_cache = (Ok ([2], True), s')"
    using demo_cache_miss
    by (auto simp: cache_read_range_def read_file_range_def demo_fs_env_def saturating_sub_u64_def Let_def)
  with cache_range_is_slice [OF demo_sha_ok demo_env_ok(1,3) demo_blob_valid demo_env_ok(2) demo_cache_ok this]
  show ?thesis by auto
qed

text \<open>
  C31 A failed download leaves no trace. When \<open>ensure_cached\<close> reports an error, no file of the local
  filesystem has changed: a blob that did not arrive completely, or does not verify, never becomes
  visible.
\<close>

theorem failed_download_invisible:
  assumes "sha256_hex_ok sha" "temp_write_ok env" "stream_writes env stream" "valid_digest d"
    and "ensure_cached env sha stream d s = (Err e, s')"
  shows "fs_files (cb_fs s') = fs_files (cb_fs s)"
  using ensure_cached_effect [OF assms(5,4,1,2,3)] by simp

definition lying_stream :: stream where
  "lying_stream d p = (case pending_write_all demo_fs_env p [1] of (r, q) \<Rightarrow> (map_err (\<lambda>_. ''write failed'') r, q))"

theorem failed_download_invisible_witness:
  "\<exists>e s'. ensure_cached demo_fs_env demo_sha lying_stream demo_blob demo_cache = (Err e, s') \<and>
     fs_files (cb_fs s') = Map.empty"
proof -
  have w: "stream_writes demo_fs_env lying_stream"
    unfolding stream_writes_def lying_stream_def
    by (intro allI exI [of _ "[[1]]"]) (simp add: write_chunks_def split: prod.splits)
  obtain r s' where run: "ensure_cached demo_fs_env demo_sha lying_stream demo_blob demo_cache = (r, s')" by fastforce
  have "r \<noteq> Ok b" for b
  proof
    assume "r = Ok b"
    with run demo_absent(2) obtain lk s2 where
      f: "fill_cache_after_lock demo_fs_env demo_sha lying_stream demo_blob (demo_cache\<lparr>cb_locks := lk\<rparr>) = (Ok b, s2)"
      by (auto simp: ensure_cached_def Let_def split: prod.splits sum.splits if_splits)
    with demo_absent(1) obtain p s1 q where p: "start_pending_blob demo_fs_env (demo_cache\<lparr>cb_locks := lk\<rparr>) demo_blob = (Ok p, s1)"
      and q: "lying_stream demo_blob p = (Ok (), q)" "\<exists>x. admit_pending_blob demo_fs_env demo_sha s1 q = (Ok x, s2)"
      by (auto simp: fill_cache_after_lock_def split: prod.splits sum.splits if_splits)
    have "p = pending_new demo_blob (cache_path ''/c'' demo_blob)"
      using start_pending_blob_effect [OF p] by (simp add: demo_cache_def)
    then have "q = \<lparr>pb_expected = demo_blob, pb_destination = cache_path ''/c'' demo_blob, pb_temporary = [1],
        pb_hashed = [1], pb_written = 1\<rparr>"
      using q(1) by (simp add: u64_try_from_len_def lying_stream_def pending_write_all.simps pending_write_def demo_shard demo_fs_env_def
          pending_new_def conv_simps saturating_add_u64_def Let_def)
    moreover from q(2) have "pending_verify demo_sha q = Ok ()"
      by (auto simp: admit_pending_blob_def split: sum.splits)
    ultimately have "for_bytes demo_sha [1] = demo_blob"
      by (subst (asm) pending_verify_eq [OF _ demo_sha_ok]) (auto simp: pending_inv_def demo_blob_valid demo_shard split: if_splits)
    then have "size_bytes (for_bytes demo_sha [1]) = 2" by (simp add: demo_shard)
    then show False by (simp add: for_bytes_def as_i64_def)
  qed
  then obtain e where "r = Err e" by (cases r) auto
  with run failed_download_invisible [OF demo_sha_ok demo_env_ok(1) w demo_blob_valid, of demo_cache e s'] show ?thesis
    by (auto simp: demo_cache_def)
qed

text \<open>
  C32 One download per digest. However readers interleave, at most one of them at a time holds the gate
  of a digest, all readers engaged with a digest share one lock, the participant counter of that lock
  is the number of engaged readers (so it never underflows), and once nobody is engaged with a digest
  its entry is gone from the map.
\<close>

theorem single_download_per_digest:
  assumes "cohort_step\<^sup>*\<^sup>* idle_cohort c"
  shows "(\<forall>t t' d l l'. co_readers c t = Holding d l \<and> co_readers c t' = Holding d l' \<longrightarrow> t = t') \<and>
    (\<forall>t d l. engaged (co_readers c t) = Some (d, l) \<longrightarrow> lk_map (co_locks c) d = Some l \<and>
       lk_participants (co_locks c) l = card (members (co_readers c) d l) \<and> 0 < lk_participants (co_locks c) l) \<and>
    (\<forall>d. (\<forall>t l. engaged (co_readers c t) \<noteq> Some (d, l)) \<longrightarrow> lk_map (co_locks c) d = None)"
proof -
  note D = cohort_invD [OF reachable_cohort_inv [OF assms]]
  have e: "lk_map (co_locks c) d = Some l" if "engaged (co_readers c t) = Some (d, l)" for t d l using D(2) that .
  have "t = t'" if h: "co_readers c t = Holding d l" "co_readers c t' = Holding d l'" for t t' d l l'
    using e [of t d l] e [of t' d l'] h D(7) [of t d l t' d] by simp
  moreover have "lk_participants (co_locks c) l = card (members (co_readers c) d l) \<and> 0 < lk_participants (co_locks c) l"
    if "engaged (co_readers c t) = Some (d, l)" for t d l
    using D(4,5) [OF e [OF that]] members_finite [OF D(1), of d l] by (simp add: card_gt_0_iff)
  moreover have "lk_map (co_locks c) d = None" if "\<forall>t l. engaged (co_readers c t) \<noteq> Some (d, l)" for d
    using D(5) [of d] that by (cases "lk_map (co_locks c) d") (auto simp: members_def)
  ultimately show ?thesis using e by blast
qed

theorem single_download_per_digest_witness:
  "\<exists>c l. cohort_step\<^sup>*\<^sup>* idle_cohort c \<and> co_readers c 0 = Joined demo_blob l \<and>
     lk_map (co_locks c) demo_blob = Some l \<and> 0 < lk_participants (co_locks c) l"
proof -
  obtain l lk where "acquire_download_lock demo_blob (co_locks idle_cohort) = (Ok l, lk)"
    by (simp add: acquire_download_lock_def idle_cohort_def no_locks_def)
  then have "cohort_step idle_cohort \<lparr>co_locks = lk, co_readers = (co_readers idle_cohort)(0 := Joined demo_blob l)\<rparr>"
    by (intro join) (simp_all add: idle_cohort_def)
  then have r: "cohort_step\<^sup>*\<^sup>* idle_cohort \<lparr>co_locks = lk, co_readers = (co_readers idle_cohort)(0 := Joined demo_blob l)\<rparr>"
    by blast
  let ?c = "\<lparr>co_locks = lk, co_readers = (co_readers idle_cohort)(0 := Joined demo_blob l)\<rparr>"
  have j: "co_readers ?c 0 = Joined demo_blob l" "engaged (co_readers ?c 0) = Some (demo_blob, l)" by simp_all
  have "lk_map (co_locks ?c) demo_blob = Some l \<and> 0 < lk_participants (co_locks ?c) l"
    using single_download_per_digest [OF r] j(2) by blast
  with r j(1) show ?thesis by blast
qed

end
