(* ===== verification/Session.thy ===== *)
theory Session
  imports Store_Namespace Cache
begin

text \<open>
  The session facade (\<^verbatim>\<open>crates/rfs-common/src/session.rs\<close>): opening a session under \<^verbatim>\<open>RFS_HOME\<close>, inode lookup,
  directory listing with read-through loading, range reads, counters, inspection and close. A session
  holds the store, the cache (with the local filesystem) and the overlay. The environment bundles what
  those components take as parameters: the SQL engine, the operating system, SHA-256, the REAPI decoder,
  the remote blob stream, and the JSON text of the lock record with its parser.
\<close>

section \<open>Data\<close>

record lock_record =
  lr_record_version :: u32
  lr_session_id :: string
  lr_pid :: u32

definition LOCK_RECORD_VERSION :: u32 where "LOCK_RECORD_VERSION = 1"

record session_env =
  se_store :: store_env
  se_fs :: fs_env
  se_sha :: "bytes \<Rightarrow> string"
  se_decode :: "bytes \<Rightarrow> (directory, string) result"
  se_stream :: stream
  se_lock_json :: "lock_record \<Rightarrow> bytes"
  se_lock_parse :: "bytes \<Rightarrow> lock_record option"

record session_layout =
  ly_cache :: string
  ly_session :: string
  ly_session_lock :: string
  ly_control_endpoint :: string

record session =
  s_root_digest :: digest
  s_mountpoint :: string
  s_layout :: session_layout
  s_store :: session_store
  s_cache :: cached_blob_store
  s_overlay :: overlay_store
  s_inode_locks :: "inode_id set"
  s_poisoned_locks :: "inode_id set"
  s_lock_map_poisoned :: bool
  s_counters :: io_counters

section \<open>Projection and decoding\<close>

fun default_mode :: "node_kind \<Rightarrow> u32" where
  "default_mode File = 0x124"
| "default_mode Directory = 0x16D"
| "default_mode Symlink = 0x1FF"

definition project_inode :: "store_inode \<Rightarrow> (inode, session_error) result" where
  "project_inode stored =
     (let parent = (case si_parent stored of None \<Rightarrow> si_id stored | Some p \<Rightarrow> p);
          mode = (case si_mode stored of None \<Rightarrow> default_mode (si_kind stored) | Some m \<Rightarrow> m)
      in and_then
           (case si_kind stored of
              File \<Rightarrow>
                and_then (transpose_opt (map_option (\<lambda>d.
                    ok_or (u64_try_from_i64 (size_bytes d))
                      (InternalError ''project file inode: size is negative'')) (si_file_remote_digest stored)))
                  (\<lambda>sz. Ok (case sz of None \<Rightarrow> 0 | Some n \<Rightarrow> n))
            | Directory \<Rightarrow> Ok 0
            | Symlink \<Rightarrow> Ok (of_nat (case si_symlink_target stored of None \<Rightarrow> 0 | Some t \<Rightarrow> length t)))
           (\<lambda>sz. Ok
             \<lparr>i_inode = si_id stored, i_parent = parent, i_name = si_name stored, i_kind = si_kind stored,
              i_size = sz, i_mode = mode,
              i_mtime = (case si_mtime stored of None \<Rightarrow> UNIX_EPOCH | Some t \<Rightarrow> t),
              i_symlink_target = si_symlink_target stored\<rparr>))"

definition remote_digest :: "re_digest option \<Rightarrow> (digest, session_error) result" where
  "remote_digest d =
     and_then (ok_or d (InternalError ''decode node: missing digest'')) (\<lambda>r.
       map_err (\<lambda>_. InternalError ''error translating digest of node from REAPI digest'') (from_reapi r))"

definition decode_node_metadata ::
  "node_properties option \<Rightarrow> (u32 option \<times> node_time option, session_error) result" where
  "decode_node_metadata props =
     (case props of
        None \<Rightarrow> Ok (None, None)
      | Some p \<Rightarrow>
          and_then (transpose_opt (map_option (\<lambda>t.
              and_then (ok_or (u32_try_from_i32 (ts_nanos t))
                  (InternalError ''decode node mtime: unable to cast nanos to a 32-bit unsigned integer'')) (\<lambda>n.
                ok_or (node_time_new (ts_seconds t) n)
                  (InternalError ''decode node mtime: invalid timestamp''))) (np_mtime p)))
            (\<lambda>mtime. Ok (np_unix_mode p, mtime)))"

definition decode_file_child :: "file_node \<Rightarrow> (new_remote_inode, session_error) result" where
  "decode_file_child n =
     and_then (decode_node_metadata (fn_node_properties n)) (\<lambda>(mode, mtime).
     and_then (remote_digest (fn_digest n)) (\<lambda>d.
       Ok \<lparr>nr_name = fn_name n, nr_mode = mode, nr_mtime = mtime, nr_content = RemoteFile d\<rparr>))"

definition decode_directory_child :: "directory_node \<Rightarrow> (new_remote_inode, session_error) result" where
  "decode_directory_child n =
     and_then (decode_node_metadata (dn_node_properties n)) (\<lambda>(mode, mtime).
     and_then (remote_digest (dn_digest n)) (\<lambda>d.
       Ok \<lparr>nr_name = dn_name n, nr_mode = mode, nr_mtime = mtime, nr_content = RemoteDirectory d\<rparr>))"

definition decode_symlink_child :: "symlink_node \<Rightarrow> (new_remote_inode, session_error) result" where
  "decode_symlink_child n =
     and_then (decode_node_metadata (sn_node_properties n)) (\<lambda>(mode, mtime).
       Ok \<lparr>nr_name = sn_name n, nr_mode = mode, nr_mtime = mtime, nr_content = RemoteSymlink (sn_target n)\<rparr>)"

definition decoded_directory_children :: "directory \<Rightarrow> (new_remote_inode list, session_error) result" where
  "decoded_directory_children d =
     and_then (collect decode_file_child (dir_files d)) (\<lambda>fs.
     and_then (collect decode_directory_child (dir_directories d)) (\<lambda>ds.
     and_then (collect decode_symlink_child (dir_symlinks d)) (\<lambda>ss.
       Ok (fs @ ds @ ss))))"

section \<open>Locks and counters\<close>

definition inode_lock :: "inode_id \<Rightarrow> session \<Rightarrow> (unit, session_error) result \<times> session" where
  "inode_lock i s =
     (if s_lock_map_poisoned s
      then (Err (InternalError ''coordinate inode lock: lock map is poisoned''), s)
      else (Ok (), s\<lparr>s_inode_locks := insert i (s_inode_locks s)\<rparr>))"

text \<open>The counters are \<^verbatim>\<open>AtomicU64\<close>: \<^verbatim>\<open>fetch_add\<close> wraps.\<close>

definition record_directory_read :: "bool \<Rightarrow> session \<Rightarrow> session" where
  "record_directory_read downloaded s =
     (let c = s_counters s in
      s\<lparr>s_counters := (if downloaded then c\<lparr>directory_downloads := directory_downloads c + 1\<rparr>
                      else c\<lparr>directory_cache_hits := directory_cache_hits c + 1\<rparr>)\<rparr>)"

definition record_file_read :: "bool \<Rightarrow> session \<Rightarrow> session" where
  "record_file_read downloaded s =
     (let c = s_counters s in
      s\<lparr>s_counters := (if downloaded then c\<lparr>file_downloads := file_downloads c + 1\<rparr>
                      else c\<lparr>file_cache_hits := file_cache_hits c + 1\<rparr>)\<rparr>)"

definition session_io_counters :: "session \<Rightarrow> io_counters" where
  "session_io_counters s = s_counters s"

section \<open>Operations\<close>

definition get_visible_inode :: "session_env \<Rightarrow> session \<Rightarrow> inode_id \<Rightarrow> (store_inode, session_error) result" where
  "get_visible_inode env s i =
     and_then (store_inode_get (se_store env) (s_store s) i) (\<lambda>found.
       case found of
         Some stored \<Rightarrow> if \<not> si_tombstone stored then Ok stored else Err (NotFound ''inode is not visible'')
       | None \<Rightarrow> Err (NotFound ''inode doesn't exist''))"

definition get_inode :: "session_env \<Rightarrow> session \<Rightarrow> inode_id \<Rightarrow> (inode, session_error) result" where
  "get_inode env s i = and_then (get_visible_inode env s i) project_inode"

text \<open>
  The second half of \<^verbatim>\<open>ensure_directory_loaded\<close>: fetch and decode the directory blob, then materialise its
  children and count the read.
\<close>

definition fetch_children ::
  "session_env \<Rightarrow> digest \<Rightarrow> session \<Rightarrow> (new_remote_inode list \<times> bool, session_error) result \<times> session" where
  "fetch_children env d s =
     (case read_blob (se_fs env) (se_sha env) (se_stream env) d (s_cache s) of
        (Inl e, c) \<Rightarrow> (Err e, s\<lparr>s_cache := c\<rparr>)
      | (Inr (bs, downloaded), c) \<Rightarrow>
          (and_then (map_err (\<lambda>_. InternalError ''decode directory blob'')
             (decode_directory (se_sha env) (se_decode env) d bs)) (\<lambda>decoded.
           and_then (decoded_directory_children decoded) (\<lambda>children. Ok (children, downloaded))),
           s\<lparr>s_cache := c\<rparr>))"

definition load_remote_directory ::
  "session_env \<Rightarrow> inode_id \<Rightarrow> digest \<Rightarrow> session \<Rightarrow> (unit, session_error) result \<times> session" where
  "load_remote_directory env i d s =
     (case fetch_children env d s of
        (Inl e, s1) \<Rightarrow> (Err e, s1)
      | (Inr (children, downloaded), s1) \<Rightarrow>
          (case get_or_create_remote_dir_children (se_store env) i children (s_store s1) of
             (Inl e, st) \<Rightarrow> (Err e, s1\<lparr>s_store := st\<rparr>)
           | (Inr _, st) \<Rightarrow> (Ok (), record_directory_read downloaded (s1\<lparr>s_store := st\<rparr>))))"

definition ensure_directory_loaded ::
  "session_env \<Rightarrow> inode_id \<Rightarrow> session \<Rightarrow> (unit, session_error) result \<times> session" where
  "ensure_directory_loaded env i s0 =
     (case inode_lock i s0 of
        (Inl e, s) \<Rightarrow> (Err e, s)
      | (Inr _, s) \<Rightarrow>
          if i \<in> s_poisoned_locks s
          then (Err (InternalError ''load directory inode: inode lock is poisoned''), s)
          else
            (case get_visible_inode env s i of
               Inl e \<Rightarrow> (Err e, s)
             | Inr dir \<Rightarrow>
                 if si_kind dir \<noteq> Directory then (Err (NotDirectory ''load directory inode''), s)
                 else if si_directory_loaded dir = Some True then (Ok (), s)
                 else
                   (case si_directory_remote_digest dir of
                      None \<Rightarrow> (Err (InternalError ''directory inode is not loaded but has no backing remote digest to fetch from the blob store''), s)
                    | Some d \<Rightarrow> load_remote_directory env i d s)))"

definition lookup_child ::
  "session_env \<Rightarrow> inode_id \<Rightarrow> string \<Rightarrow> session \<Rightarrow> (inode, session_error) result \<times> session" where
  "lookup_child env parent name s0 =
     (case ensure_directory_loaded env parent s0 of
        (Inl e, s) \<Rightarrow> (Err e, s)
      | (Inr _, s) \<Rightarrow>
          (and_then (store_child (se_store env) (s_store s) parent name) (\<lambda>found.
             case found of
               Some child \<Rightarrow>
                 if \<not> si_tombstone child then project_inode child
                 else Err (NotFound ''look up child in directory inode: entry is not visible'')
             | None \<Rightarrow> Err (NotFound ''look up child in directory inode: entry does not exist'')), s))"

definition list_directory ::
  "session_env \<Rightarrow> inode_id \<Rightarrow> session \<Rightarrow> (inode list, session_error) result \<times> session" where
  "list_directory env i s0 =
     (case ensure_directory_loaded env i s0 of
        (Inl e, s) \<Rightarrow> (Err e, s)
      | (Inr _, s) \<Rightarrow>
          (and_then (get_directory_children (se_store env) (s_store s) i) (\<lambda>children.
             collect project_inode (filter (\<lambda>c. \<not> si_tombstone c) children)), s))"

definition session_read_range ::
  "session_env \<Rightarrow> inode_id \<Rightarrow> u64 \<Rightarrow> usize \<Rightarrow> session \<Rightarrow> (bytes, session_error) result \<times> session" where
  "session_read_range env i offset sz s0 =
     (case inode_lock i s0 of
        (Inl e, s) \<Rightarrow> (Err e, s)
      | (Inr _, s) \<Rightarrow>
          if i \<in> s_poisoned_locks s then (Err (InternalError ''read inode: inode lock is poisoned''), s)
          else
            (case get_visible_inode env s i of
               Inl e \<Rightarrow> (Err e, s)
             | Inr stored \<Rightarrow>
                 if si_kind stored = Directory then (Err (IsDirectory ''read inode: actual kind is directory''), s)
                 else if si_kind stored \<noteq> File then (Err (InternalError ''read inode: actual kind''), s)
                 else
                   (case si_file_overlay_path stored of
                      Some path \<Rightarrow>
                        (overlay_read_range (se_fs env) (s_overlay s) path offset sz (cb_fs (s_cache s)), s)
                    | None \<Rightarrow>
                        (case si_file_remote_digest stored of
                           None \<Rightarrow> (Err (InternalError ''read inode: file has no backing digest''), s)
                         | Some d \<Rightarrow>
                             (case cache_read_range (se_fs env) (se_sha env) (se_stream env) d offset sz (s_cache s) of
                                (Inl e, c) \<Rightarrow> (Err e, s\<lparr>s_cache := c\<rparr>)
                              | (Inr (bs, downloaded), c) \<Rightarrow>
                                  (Ok bs, record_file_read downloaded (s\<lparr>s_cache := c\<rparr>)))))))"

definition session_close ::
  "session_env \<Rightarrow> u64 option \<Rightarrow> session \<Rightarrow> (unit, session_error) result \<times> session" where
  "session_close env clock s =
     (case store_close (se_store env) clock (s_store s) of (r, st) \<Rightarrow> (r, s\<lparr>s_store := st\<rparr>))"

section \<open>Opening and inspecting\<close>

definition layout_new :: "string \<Rightarrow> session_layout" where
  "layout_new home =
     (let sess = path_join home ''session'' in
      \<lparr>ly_cache = path_join home ''cache'', ly_session = sess, ly_session_lock = path_join home ''session.lock'',
       ly_control_endpoint = path_join sess ''control.sock''\<rparr>)"

definition database_file :: "session_layout \<Rightarrow> string" where
  "database_file ly = path_join (ly_session ly) ''session.db''"

definition overlay_path :: "session_layout \<Rightarrow> string" where
  "overlay_path ly = path_join (ly_session ly) ''overlay''"

definition session_control_endpoint :: "string \<Rightarrow> local_fs \<Rightarrow> (string, session_error) result" where
  "session_control_endpoint home fs =
     (if path_exists home fs then Ok (ly_control_endpoint (layout_new home))
      else Err (FailedPreconditionError ''inspect session home: path does not exist''))"

definition session_get_info :: "u32 \<Rightarrow> session \<Rightarrow> session_info" where
  "session_get_info pid s =
     \<lparr>info_root_digest = s_root_digest s, info_mountpoint = s_mountpoint s, info_daemon_pid = pid,
      info_control_endpoint = ly_control_endpoint (s_layout s), info_closed = False\<rparr>"

definition session_inspect ::
  "store_env \<Rightarrow> string \<Rightarrow> local_fs \<Rightarrow> db option \<Rightarrow> (session_info option, session_error) result" where
  "session_inspect env home fs file =
     (if \<not> path_exists home fs
      then Err (FailedPreconditionError ''inspect session home: path does not exist'')
      else
        let ly = layout_new home in
        if \<not> path_exists (ly_session ly) fs then Ok None
        else and_then (store_inspect env (database_file ly) file) (\<lambda>md.
          Ok (Some \<lparr>info_root_digest = md_root_digest md, info_mountpoint = md_mountpoint md,
                    info_daemon_pid = md_daemon_pid md, info_control_endpoint = ly_control_endpoint ly,
                    info_closed = (md_state md = Closed)\<rparr>)))"

definition validate_mountpoint :: "fs_env \<Rightarrow> string \<Rightarrow> local_fs \<Rightarrow> (unit, session_error) result" where
  "validate_mountpoint env p fs =
     (case io_fault env ''inspect mountpoint'' p fs of
        Some e \<Rightarrow> Err (InternalError ''unable to inspect mountpoint'')
      | None \<Rightarrow>
          if \<not> path_exists p fs then Err (InternalError ''unable to inspect mountpoint'')
          else if p \<notin> fs_dirs fs then Err (InternalError ''mountpoint is not a valid directory'')
          else Ok ())"

text \<open>\<^verbatim>\<open>create_dir_all\<close>: the path and every missing ancestor.\<close>

definition dir_prefixes :: "string \<Rightarrow> string set" where
  "dir_prefixes p =
     set (map (\<lambda>n. take n p) (filter (\<lambda>n. n = length p \<or> p ! n = CHR ''/'') [1..<length p + 1]))"

definition ensure_writable_home :: "fs_env \<Rightarrow> string \<Rightarrow> local_fs \<Rightarrow> (unit, session_error) result \<times> local_fs" where
  "ensure_writable_home env home fs =
     (if path_exists home fs then (Ok (), fs)
      else (case io_fault env ''create state root'' home fs of
              Some e \<Rightarrow> (Err (fs_error ''create state root'' home e), fs)
            | None \<Rightarrow>
                let fs1 = fs\<lparr>fs_dirs := fs_dirs fs \<union> dir_prefixes home\<rparr> in
                (case io_fault env ''secure state root'' home fs1 of
                   Some e \<Rightarrow> (Err (fs_error ''secure state root'' home e), fs1)
                 | None \<Rightarrow> (Ok (), fs1))))"

text \<open>
  \<^verbatim>\<open>SessionLock::acquire\<close> opens the lock file, creating it if needed, and takes an exclusive \<^verbatim>\<open>flock\<close>; \<open>held\<close>
  says whether another process holds it. Then the error names the owner that the record in the file gives.
\<close>

definition owner_text :: "lock_record \<Rightarrow> string" where
  "owner_text r = ''(pid '' @ show_nat (unat (lr_pid r)) @ '', session '' @ lr_session_id r @ '')''"

definition lock_owner :: "session_env \<Rightarrow> string \<Rightarrow> local_fs \<Rightarrow> string" where
  "lock_owner env p fs =
     (case Option.bind (if io_fault (se_fs env) ''read session lock'' p fs = None then fs_files fs p else None) (se_lock_parse env) of
        None \<Rightarrow> ''(owner diagnostics unavailable)''
      | Some r \<Rightarrow> owner_text r)"

definition lock_acquire :: "session_env \<Rightarrow> bool \<Rightarrow> string \<Rightarrow> local_fs \<Rightarrow> (unit, session_error) result \<times> local_fs" where
  "lock_acquire env held p fs =
     (case io_fault (se_fs env) ''open session lock'' p fs of
        Some e \<Rightarrow> (Err (fs_error ''open session lock'' p e), fs)
      | None \<Rightarrow>
          if path_parent p \<notin> fs_dirs fs then (Err (fs_error ''open session lock'' p IoNotFound), fs)
          else if p \<in> fs_dirs fs then (Err (fs_error ''open session lock'' p (IoOther ''is a directory'')), fs)
          else
            let fs1 = (if fs_files fs p = None then fs\<lparr>fs_files := (fs_files fs)(p \<mapsto> [])\<rparr> else fs) in
            (case io_fault (se_fs env) ''secure session lock'' p fs1 of
               Some e \<Rightarrow> (Err (fs_error ''secure session lock'' p e), fs1)
             | None \<Rightarrow>
                 if held
                 then (Err (FailedPreconditionError (''acquire session lock: another RemoteFS session owns it '' @ lock_owner env p fs1)), fs1)
                 else (Ok (), fs1)))"

text \<open>A write that fails leaves the file as the last write that succeeded left it; 10 is the newline.\<close>

definition lock_write_record :: "session_env \<Rightarrow> lock_record \<Rightarrow> string \<Rightarrow> local_fs \<Rightarrow> (unit, session_error) result \<times> local_fs" where
  "lock_write_record env rec p fs =
     (case io_fault (se_fs env) ''truncate session lock'' p fs of
        Some e \<Rightarrow> (Err (fs_error ''truncate session lock'' p e), fs)
      | None \<Rightarrow>
          let fs1 = fs\<lparr>fs_files := (fs_files fs)(p \<mapsto> [])\<rparr> in
          (case io_fault (se_fs env) ''rewind session lock'' p fs1 of
             Some e \<Rightarrow> (Err (fs_error ''rewind session lock'' p e), fs1)
           | None \<Rightarrow>
               (case io_fault (se_fs env) ''encode session lock record'' p fs1 of
                  Some e \<Rightarrow> (Err (InternalError ''encode session lock record''), fs1)
                | None \<Rightarrow>
                    let fs2 = fs1\<lparr>fs_files := (fs_files fs1)(p \<mapsto> se_lock_json env rec)\<rparr> in
                    (case io_fault (se_fs env) ''write session lock'' p fs2 of
                       Some e \<Rightarrow> (Err (fs_error ''write session lock'' p e), fs2)
                     | None \<Rightarrow> (Ok (), fs2\<lparr>fs_files := (fs_files fs2)(p \<mapsto> se_lock_json env rec @ [10])\<rparr>)))))"

definition below :: "string \<Rightarrow> string \<Rightarrow> bool" where
  "below dir p \<longleftrightarrow> p = dir \<or> take (length dir + 1) p = dir @ ''/''"

definition remove_if_present :: "fs_env \<Rightarrow> string \<Rightarrow> local_fs \<Rightarrow> (unit, session_error) result \<times> local_fs" where
  "remove_if_present env p fs =
     (case io_fault env ''local state cleanup'' p fs of
        Some IoNotFound \<Rightarrow> (Ok (), fs)
      | Some e \<Rightarrow> (Err (fs_error ''local state cleanup'' p e), fs)
      | None \<Rightarrow>
          if p \<notin> fs_dirs fs then
            (if fs_files fs p \<noteq> None then (Err (fs_error ''local state cleanup'' p (IoOther ''not a directory'')), fs)
             else (Ok (), fs))
          else (Ok (), fs\<lparr>fs_files := (\<lambda>q. if below p q then None else fs_files fs q),
                          fs_dirs := {q \<in> fs_dirs fs. \<not> below p q}\<rparr>))"

definition create_empty_file :: "fs_env \<Rightarrow> string \<Rightarrow> local_fs \<Rightarrow> (unit, session_error) result \<times> local_fs" where
  "create_empty_file env p fs =
     (case io_fault env ''create file'' p fs of
        Some e \<Rightarrow> (Err (fs_error ''create file'' p e), fs)
      | None \<Rightarrow>
          if path_exists p fs then (Err (fs_error ''create file'' p IoAlreadyExists), fs)
          else if path_parent p \<notin> fs_dirs fs then (Err (fs_error ''create file'' p IoNotFound), fs)
          else (Ok (), fs\<lparr>fs_files := (fs_files fs)(p \<mapsto> [])\<rparr>))"

definition fs_step ::
  "string \<Rightarrow> (unit, session_error) result \<times> local_fs \<Rightarrow>
     (local_fs \<Rightarrow> ('a, session_error) result \<times> local_fs) \<Rightarrow> ('a, session_error) result \<times> local_fs" where
  "fs_step op m k = (case m of (Inl e, fs) \<Rightarrow> (Err (Context op e), fs) | (Inr _, fs) \<Rightarrow> k fs)"

text \<open>
  \<open>sid\<close>, \<open>pid\<close> and \<open>clock\<close> are the fresh UUID, the process id and the clock. The database file that was just
  created is empty, which SQLite reads as an empty database. \<open>open_stores\<close> is the end of \<^verbatim>\<open>Session::open\<close>,
  from the cache on; \<open>utf8\<close> says whether the mountpoint is UTF-8.
\<close>

definition open_stores ::
  "session_env \<Rightarrow> string \<Rightarrow> u32 \<Rightarrow> u64 option \<Rightarrow> session_layout \<Rightarrow> digest \<Rightarrow> string \<Rightarrow> bool \<Rightarrow> local_fs \<Rightarrow>
     (session, session_error) result \<times> local_fs" where
  "open_stores env sid pid clock ly root_digest mountpoint utf8 fs7 =
     (case cache_open (se_fs env) (ly_cache ly) fs7 of
        (Inl e, fs8) \<Rightarrow> (Err (Context ''open verified cache'' e), fs8)
      | (Inr cache, fs8) \<Rightarrow>
          (case overlay_open (se_fs env) (overlay_path ly) fs8 of
             (Inl e, fs9) \<Rightarrow> (Err (Context ''open session overlay'' e), fs9)
           | (Inr overlay, fs9) \<Rightarrow>
               (case store_create (se_store env) clock (database_file ly) sid pid root_digest
                       (if utf8 then Some mountpoint else None) (Some empty_db) of
                  Inl e \<Rightarrow> (Err (Context ''create session store'' e), fs9)
                | Inr store \<Rightarrow>
                    (Ok \<lparr>s_root_digest = root_digest, s_mountpoint = mountpoint, s_layout = ly, s_store = store,
                         s_cache = cache\<lparr>cb_fs := fs9\<rparr>, s_overlay = overlay, s_inode_locks = {},
                         s_poisoned_locks = {}, s_lock_map_poisoned = False,
                         s_counters = \<lparr>directory_downloads = 0, directory_cache_hits = 0,
                                       file_downloads = 0, file_cache_hits = 0\<rparr>\<rparr>, fs9))))"

definition session_open ::
  "session_env \<Rightarrow> bool \<Rightarrow> string \<Rightarrow> u32 \<Rightarrow> u64 option \<Rightarrow> string \<Rightarrow> digest \<Rightarrow> string \<Rightarrow> bool \<Rightarrow> local_fs \<Rightarrow>
     (session, session_error) result \<times> local_fs" where
  "session_open env held sid pid clock home root_digest mountpoint utf8 fs0 =
     (let ly = layout_new home; fe = se_fs env in
      fs_step ''validate session mountpoint'' (validate_mountpoint fe mountpoint fs0, fs0) (\<lambda>fs1.
      fs_step ''set up writable session home'' (ensure_writable_home fe home fs1) (\<lambda>fs2.
      fs_step ''acquire session lock'' (lock_acquire env held (ly_session_lock ly) fs2) (\<lambda>fs3.
      fs_step ''write session lock record'' (lock_write_record env
        \<lparr>lr_record_version = LOCK_RECORD_VERSION, lr_session_id = sid, lr_pid = pid\<rparr> (ly_session_lock ly) fs3) (\<lambda>fs4.
      fs_step ''replace session directory'' (remove_if_present fe (ly_session ly) fs4) (\<lambda>fs5.
      fs_step ''create session directory'' (create_dir_if_absent fe (ly_session ly) fs5) (\<lambda>fs6.
      fs_step ''create session database'' (create_empty_file fe (database_file ly) fs6) (\<lambda>fs7.
      open_stores env sid pid clock ly root_digest mountpoint utf8 fs7))))))))"

section \<open>Decoded children\<close>

text \<open>What the message types guarantee: sizes are \<^verbatim>\<open>int64\<close> and nanos are \<^verbatim>\<open>int32\<close>.\<close>

definition digest_typed :: "re_digest option \<Rightarrow> bool" where
  "digest_typed r \<longleftrightarrow> pred_option (\<lambda>x. is_i64 (re_size_bytes x)) r"

definition directory_typed :: "directory \<Rightarrow> bool" where
  "directory_typed d \<longleftrightarrow> (\<forall>n \<in> set (dir_files d). digest_typed (fn_digest n)) \<and>
     (\<forall>n \<in> set (dir_directories d). digest_typed (dn_digest n))"

definition decode_typed :: "(bytes \<Rightarrow> (directory, string) result) \<Rightarrow> bool" where
  "decode_typed dec \<longleftrightarrow> (\<forall>bs d. dec bs = Ok d \<longrightarrow> directory_typed d)"

lemma remote_digest_valid: "remote_digest r = Ok d \<Longrightarrow> digest_typed r \<Longrightarrow> valid_digest d"
  by (auto simp: remote_digest_def result_simps digest_typed_def intro: from_reapi_valid)

lemma decode_node_metadata_valid:
  "decode_node_metadata p = Ok (mode, mtime) \<Longrightarrow> pred_option valid_node_time mtime"
  by (auto simp: decode_node_metadata_def result_simps node_time_new_eq_Some split: option.splits)

lemma decode_child_sel:
  "decode_file_child f = Ok c \<Longrightarrow> nr_name c = fn_name f \<and> (digest_typed (fn_digest f) \<longrightarrow> remote_typed c)"
  "decode_directory_child g = Ok c \<Longrightarrow> nr_name c = dn_name g \<and> (digest_typed (dn_digest g) \<longrightarrow> remote_typed c)"
  "decode_symlink_child h = Ok c \<Longrightarrow> nr_name c = sn_name h \<and> remote_typed c"
  by (auto simp: decode_file_child_def decode_directory_child_def decode_symlink_child_def result_simps
      remote_typed_def dest: remote_digest_valid decode_node_metadata_valid)

lemma list_all2_map_name:
  "list_all2 (\<lambda>x y. f x = Ok y) xs ys \<Longrightarrow> (\<And>x y. f x = Ok y \<Longrightarrow> g y = h x) \<Longrightarrow> map g ys = map h xs"
  by (induction rule: list_all2_induct) auto

lemma list_all2_all:
  "list_all2 (\<lambda>x y. f x = Ok y) xs ys \<Longrightarrow> (\<And>x y. x \<in> set xs \<Longrightarrow> f x = Ok y \<Longrightarrow> P y) \<Longrightarrow> list_all P ys"
  by (induction rule: list_all2_induct) auto

lemma decoded_children_lists:
  assumes "decoded_directory_children d = Ok cs"
  obtains fs ds ss where "cs = fs @ ds @ ss"
    "list_all2 (\<lambda>x y. decode_file_child x = Ok y) (dir_files d) fs"
    "list_all2 (\<lambda>x y. decode_directory_child x = Ok y) (dir_directories d) ds"
    "list_all2 (\<lambda>x y. decode_symlink_child x = Ok y) (dir_symlinks d) ss"
  using assms by (auto simp: decoded_directory_children_def result_simps)

lemma decoded_children_names:
  assumes "decoded_directory_children d = Ok cs"
  shows "map nr_name cs = directory_names d"
proof -
  obtain fs ds ss where cs: "cs = fs @ ds @ ss" and
    l: "list_all2 (\<lambda>x y. decode_file_child x = Ok y) (dir_files d) fs"
      "list_all2 (\<lambda>x y. decode_directory_child x = Ok y) (dir_directories d) ds"
      "list_all2 (\<lambda>x y. decode_symlink_child x = Ok y) (dir_symlinks d) ss"
    using decoded_children_lists [OF assms] by blast
  have "map nr_name fs = map fn_name (dir_files d)" "map nr_name ds = map dn_name (dir_directories d)"
    "map nr_name ss = map sn_name (dir_symlinks d)"
    using list_all2_map_name [OF l(1), of nr_name fn_name] list_all2_map_name [OF l(2), of nr_name dn_name]
      list_all2_map_name [OF l(3), of nr_name sn_name] decode_child_sel by blast+
  then show ?thesis by (simp add: cs directory_names_def)
qed

lemma decoded_children_typed:
  assumes "decoded_directory_children d = Ok cs" "directory_typed d"
  shows "list_all remote_typed cs"
proof -
  obtain fs ds ss where cs: "cs = fs @ ds @ ss" and
    l: "list_all2 (\<lambda>x y. decode_file_child x = Ok y) (dir_files d) fs"
      "list_all2 (\<lambda>x y. decode_directory_child x = Ok y) (dir_directories d) ds"
      "list_all2 (\<lambda>x y. decode_symlink_child x = Ok y) (dir_symlinks d) ss"
    using decoded_children_lists [OF assms(1)] by blast
  have t: "digest_typed (fn_digest f)" "digest_typed (dn_digest g)"
    if "f \<in> set (dir_files d)" "g \<in> set (dir_directories d)" for f g
    using assms(2) that by (simp_all add: directory_typed_def)
  have "list_all remote_typed fs"
    using assms(2) decode_child_sel(1) by (intro list_all2_all [OF l(1)]) (auto simp: directory_typed_def)
  moreover have "list_all remote_typed ds"
    using assms(2) decode_child_sel(2) by (intro list_all2_all [OF l(2)]) (auto simp: directory_typed_def)
  moreover have "list_all remote_typed ss"
    using decode_child_sel(3) by (intro list_all2_all [OF l(3)]) auto
  ultimately show ?thesis by (simp add: cs)
qed

section \<open>The session invariant\<close>

text \<open>What the environment's components promise: \<open>env_ok\<close>. What every session satisfies: \<open>session_inv\<close>.\<close>

definition env_ok :: "session_env \<Rightarrow> bool" where
  "env_ok env \<longleftrightarrow> sha256_hex_ok (se_sha env) \<and> temp_write_ok (se_fs env) \<and>
     stream_writes (se_fs env) (se_stream env) \<and> decode_typed (se_decode env)"

definition session_inv :: "session_env \<Rightarrow> session \<Rightarrow> bool" where
  "session_inv env s \<longleftrightarrow> wf_db (uuid_parse_ok (se_store env)) (connection (s_store s)) \<and>
     cache_ok (se_sha env) (cb_root (s_cache s)) (cb_fs (s_cache s))"

lemma env_ok_blob_source: "env_ok env \<Longrightarrow> blob_source (se_fs env) (se_stream env)"
  by (simp add: env_ok_def blob_source_def)

lemma env_okD: "env_ok env \<Longrightarrow> sha256_hex_ok (se_sha env)" "env_ok env \<Longrightarrow> temp_write_ok (se_fs env)"
  by (simp_all add: env_ok_def)

lemma session_inv_namespace:
  assumes "session_inv env s"
  obtains ns where "represents (connection (s_store s)) ns"
  using assms by (auto simp: session_inv_def wf_db_def)

lemma get_visible_inode_Ok:
  assumes "represents (connection (s_store s)) ns" "get_visible_inode env s i = Ok q"
  shows "inode_by_id ns i = Some q \<and> \<not> si_tombstone q"
proof -
  obtain found where "store_inode_get (se_store env) (s_store s) i = Ok found" "found = Some q" "\<not> si_tombstone q"
    using assms(2) by (auto simp: get_visible_inode_def result_simps split: option.splits if_splits)
  moreover from this have "found = inode_by_id ns i"
    using get_inode_by_id_OkD [OF assms(1)]
    by (auto simp: store_inode_get_def store_read_def result_simps split: if_splits)
  ultimately show ?thesis by simp
qed

lemma fetch_children_effect:
  assumes "env_ok env" "valid_digest d" "session_inv env s" "fetch_children env d s = (r, s')"
  shows "session_inv env s' \<and> s_store s' = s_store s \<and> s_counters s' = s_counters s \<and>
    (\<forall>cs dl. r = Ok (cs, dl) \<longrightarrow> list_all remote_typed cs \<and>
       (\<exists>bs dir. for_bytes (se_sha env) bs = d \<and> se_decode env bs = Ok dir \<and> wf_directory dir \<and>
          decoded_directory_children dir = Ok cs \<and>
          read_blob (se_fs env) (se_sha env) (se_stream env) d (s_cache s) = (Ok (bs, dl), s_cache s')))"
proof -
  obtain rb c where rb: "read_blob (se_fs env) (se_sha env) (se_stream env) d (s_cache s) = (rb, c)" by fastforce
  have v: "cache_ok (se_sha env) (cb_root c) (cb_fs c)"
    using blob_source.read_blob_verified [OF env_ok_blob_source [OF assms(1)] env_okD [OF assms(1)] rb assms(2)] assms(3)
    by (simp add: session_inv_def)
  have s': "s' = s\<lparr>s_cache := c\<rparr>"
    using assms(4) rb by (auto simp: fetch_children_def split: sum.splits prod.splits)
  have "list_all remote_typed cs \<and> (\<exists>bs dir. for_bytes (se_sha env) bs = d \<and> se_decode env bs = Ok dir \<and>
      wf_directory dir \<and> decoded_directory_children dir = Ok cs \<and> rb = Ok (bs, dl))" if r: "r = Ok (cs, dl)" for cs dl
  proof -
    obtain bs dl' where b0: "rb = Ok (bs, dl')"
      using assms(4) r rb by (cases rb) (auto simp: fetch_children_def)
    have "and_then (map_err (\<lambda>_. InternalError ''decode directory blob'')
        (decode_directory (se_sha env) (se_decode env) d bs)) (\<lambda>decoded.
        and_then (decoded_directory_children decoded) (\<lambda>children. Ok (children, dl'))) = Ok (cs, dl)"
      using assms(4) r rb b0 by (simp add: fetch_children_def)
    with b0 obtain dir where b: "rb = Ok (bs, dl)" "decode_directory (se_sha env) (se_decode env) d bs = Ok dir"
      "decoded_directory_children dir = Ok cs"
      by (auto simp: result_simps)
    then have "se_decode env bs = Ok dir" "wf_directory dir" "for_bytes (se_sha env) bs = d"
      by (simp_all add: decode_directory_eq_Ok)
    moreover from this(1) assms(1) have "list_all remote_typed cs"
      by (intro decoded_children_typed [OF b(3)]) (simp add: env_ok_def decode_typed_def)
    ultimately show ?thesis using b by blast
  qed
  with v s' rb assms(3) show ?thesis by (auto simp: session_inv_def)
qed

lemma record_reads_sel [simp]:
  "s_store (record_directory_read b s) = s_store s" "s_cache (record_directory_read b s) = s_cache s"
  "s_store (record_file_read b s) = s_store s" "s_cache (record_file_read b s) = s_cache s"
  by (simp_all add: record_directory_read_def record_file_read_def Let_def)

lemma load_remote_directory_effect:
  assumes "env_ok env" "valid_digest d" "session_inv env s" "load_remote_directory env i d s = (r, s')"
  shows "session_inv env s' \<and>
    (r = Ok () \<longrightarrow> (\<exists>bs dl dir cs xs.
       read_blob (se_fs env) (se_sha env) (se_stream env) d (s_cache s) = (Ok (bs, dl), s_cache s') \<and>
       for_bytes (se_sha env) bs = d \<and> se_decode env bs = Ok dir \<and> wf_directory dir \<and>
       decoded_directory_children dir = Ok cs \<and> list_all remote_typed cs \<and>
       get_or_create_remote_dir_children (se_store env) i cs (s_store s) = (Ok xs, s_store s') \<and>
       s_counters s' = s_counters (record_directory_read dl s)))"
proof -
  obtain rf s1 where f: "fetch_children env d s = (rf, s1)" by fastforce
  note e = fetch_children_effect [OF assms(1-3) f]
  show ?thesis
  proof (cases rf)
    case (Inl x)
    with assms(4) f e show ?thesis by (auto simp: load_remote_directory_def)
  next
    case (Inr y)
    obtain cs dl where y: "y = (cs, dl)" by fastforce
    with e Inr obtain bs dir where typed: "list_all remote_typed cs" and
      b: "for_bytes (se_sha env) bs = d" "se_decode env bs = Ok dir" "wf_directory dir"
        "decoded_directory_children dir = Ok cs"
        "read_blob (se_fs env) (se_sha env) (se_stream env) d (s_cache s) = (Ok (bs, dl), s_cache s1)" by blast
    obtain rg st where g: "get_or_create_remote_dir_children (se_store env) i cs (s_store s1) = (rg, st)" by fastforce
    have inv1: "session_inv env s1" and st1: "s_store s1 = s_store s" "s_counters s1 = s_counters s"
      using e by blast+
    have "wf_db (uuid_parse_ok (se_store env)) (connection (snd (rg, st)))"
      unfolding g [symmetric] using inv1 typed by (intro get_or_create_wf) (simp_all add: session_inv_def)
    then have inv: "session_inv env (s1\<lparr>s_store := st\<rparr>)" using inv1 by (simp add: session_inv_def)
    show ?thesis
    proof (cases rg)
      case e1: (Inl x)
      with assms(4) f Inr y g inv show ?thesis by (auto simp: load_remote_directory_def)
    next
      case ok: (Inr xs)
      then have r: "r = Ok ()" "s' = record_directory_read dl (s1\<lparr>s_store := st\<rparr>)"
        using assms(4) f Inr y g by (simp_all add: load_remote_directory_def)
      have "session_inv env s'" using inv by (simp add: r session_inv_def)
      moreover have "s_store s' = st" "s_cache s' = s_cache s1" "s_counters s' = s_counters (record_directory_read dl s)"
        using st1 by (simp_all add: r record_directory_read_def Let_def)
      ultimately show ?thesis using b typed g ok st1 by metis
    qed
  qed
qed

lemma inode_lock_effect:
  "inode_lock i s = (r, s') \<Longrightarrow> s_store s' = s_store s \<and> s_cache s' = s_cache s \<and> s_counters s' = s_counters s"
  by (auto simp: inode_lock_def split: if_splits)

lemma session_inv_cong:
  "s_store s' = s_store s \<Longrightarrow> s_cache s' = s_cache s \<Longrightarrow> session_inv env s' = session_inv env s"
  by (simp add: session_inv_def)

text \<open>What loading a directory from the remote store establishes.\<close>

definition loaded_from :: "session_env \<Rightarrow> digest \<Rightarrow> new_remote_inode list \<Rightarrow> bool" where
  "loaded_from env d cs \<longleftrightarrow> (\<exists>bs dir. for_bytes (se_sha env) bs = d \<and> se_decode env bs = Ok dir \<and>
     wf_directory dir \<and> decoded_directory_children dir = Ok cs)"

lemma ensure_directory_loaded_effect:
  assumes env: "env_ok env" and inv: "session_inv env s" and ns: "represents (connection (s_store s)) ns"
    and run: "ensure_directory_loaded env i s = (r, s')"
  shows "session_inv env s' \<and>
    (r = Ok () \<longrightarrow> (\<exists>q. inode_by_id ns i = Some q \<and> \<not> si_tombstone q \<and> si_kind q = Directory \<and>
       (if si_directory_loaded q = Some True then s_store s' = s_store s \<and> s_counters s' = s_counters s
        else \<exists>d cs dl. si_directory_remote_digest q = Some d \<and> loaded_from env d cs \<and>
          validate_remote_children cs = Ok () \<and>
          represents (connection (s_store s')) (materialize i cs ns) \<and>
          s_counters s' = s_counters (record_directory_read dl s))))"
proof -
  obtain rl s1 where l: "inode_lock i s = (rl, s1)" by fastforce
  note e1 = inode_lock_effect [OF l]
  have inv1: "session_inv env s1" using inv session_inv_cong e1 by blast
  have ns1: "represents (connection (s_store s1)) ns" using ns e1 by simp
  show ?thesis
  proof (cases "\<exists>q d. rl = Ok () \<and> i \<notin> s_poisoned_locks s1 \<and> get_visible_inode env s1 i = Ok q \<and>
      si_kind q = Directory \<and> si_directory_loaded q \<noteq> Some True \<and> si_directory_remote_digest q = Some d")
    case False
    then have "s' = s1 \<and> (r = Ok () \<longrightarrow> (\<exists>q. get_visible_inode env s1 i = Ok q \<and> si_kind q = Directory \<and>
        si_directory_loaded q = Some True))"
      using run l by (auto simp: ensure_directory_loaded_def split: sum.splits if_splits option.splits)
    then show ?thesis
      using get_visible_inode_Ok [OF ns1] inv1 e1 by force
  next
    case True
    then obtain q d where q: "get_visible_inode env s1 i = Ok q" "si_kind q = Directory"
      "si_directory_loaded q \<noteq> Some True" "si_directory_remote_digest q = Some d"
      and load: "load_remote_directory env i d s1 = (r, s')"
      using run l by (auto simp: ensure_directory_loaded_def)
    have q': "inode_by_id ns i = Some q" "\<not> si_tombstone q" using get_visible_inode_Ok [OF ns1 q(1)] by auto
    then have "wf_inode q"
      using wf_namespaceD(4) [OF represents_wf [OF ns]] by (auto simp: inode_by_id_def dest: find_SomeD)
    then have d: "valid_digest d" using q(4) by (simp add: wf_inode_def)
    note e = load_remote_directory_effect [OF env d inv1 load]
    have "\<exists>cs dl. loaded_from env d cs \<and> validate_remote_children cs = Ok () \<and>
        represents (connection (s_store s')) (materialize i cs ns) \<and>
        s_counters s' = s_counters (record_directory_read dl s)" if "r = Ok ()"
    proof -
      obtain bs dl dir cs xs where b: "for_bytes (se_sha env) bs = d" "se_decode env bs = Ok dir" "wf_directory dir"
        "decoded_directory_children dir = Ok cs" "list_all remote_typed cs"
        "get_or_create_remote_dir_children (se_store env) i cs (s_store s1) = (Ok xs, s_store s')"
        "s_counters s' = s_counters (record_directory_read dl s1)"
        using e \<open>r = Ok ()\<close> by blast
      have "loaded_from env d cs" using b unfolding loaded_from_def by blast
      moreover have "validate_remote_children cs = Ok ()" "represents (connection (s_store s')) (materialize i cs ns)"
        using get_or_create_Ok [OF ns1 b(5,6)] q' q(3) by auto
      moreover have "s_counters s' = s_counters (record_directory_read dl s)"
        using b(7) e1 by (simp add: record_directory_read_def Let_def)
      ultimately show ?thesis by blast
    qed
    with e q q' show ?thesis by auto
  qed
qed

lemma store_inode_get_not_NotFound: "store_inode_get env st i \<noteq> Err (NotFound m)"
  by (auto simp: store_inode_get_def store_read_def and_then_eq_Err result_context_eq_Err get_inode_by_id_def
      sql_def database_error_def split: option.splits)

lemma ensure_loaded_directory:
  assumes ns: "represents (connection (s_store s)) ns"
    and q: "inode_by_id ns i = Some q" "\<not> si_tombstone q" "si_kind q = Directory" "si_directory_loaded q = Some True"
    and run: "ensure_directory_loaded env i s = (r, s')"
  shows "s_store s' = s_store s \<and> (\<forall>m. r \<noteq> Err (NotFound m))"
proof -
  obtain rl s1 where l: "inode_lock i s = (rl, s1)" by fastforce
  note e1 = inode_lock_effect [OF l]
  have "get_visible_inode env s1 i = Ok q \<or> (\<exists>e. get_visible_inode env s1 i = Err e \<and> (\<forall>m. e \<noteq> NotFound m))"
  proof (cases "store_inode_get (se_store env) (s_store s1) i")
    case (Inl e)
    then show ?thesis using store_inode_get_not_NotFound by (auto simp: get_visible_inode_def)
  next
    case (Inr found)
    then have "found = inode_by_id ns i"
      using get_inode_by_id_OkD [OF ns] e1
      by (auto simp: store_inode_get_def store_read_def result_simps split: if_splits)
    with Inr q show ?thesis by (simp add: get_visible_inode_def)
  qed
  then show ?thesis
    using run l e1 q by (auto simp: ensure_directory_loaded_def inode_lock_def split: if_splits)
qed

section \<open>Listing, lookup and reads\<close>

text \<open>The visible inode of a stored one.\<close>

definition visible :: "store_inode \<Rightarrow> inode" where
  "visible q =
     \<lparr>i_inode = si_id q, i_parent = (case si_parent q of None \<Rightarrow> si_id q | Some p \<Rightarrow> p), i_name = si_name q,
      i_kind = si_kind q,
      i_size = (case si_kind q of
          File \<Rightarrow> (case si_file_remote_digest q of None \<Rightarrow> 0 | Some d \<Rightarrow> word_of_int (size_bytes d))
        | Directory \<Rightarrow> 0
        | Symlink \<Rightarrow> of_nat (case si_symlink_target q of None \<Rightarrow> 0 | Some t \<Rightarrow> length t)),
      i_mode = (case si_mode q of None \<Rightarrow> default_mode (si_kind q) | Some m \<Rightarrow> m),
      i_mtime = (case si_mtime q of None \<Rightarrow> UNIX_EPOCH | Some t \<Rightarrow> t), i_symlink_target = si_symlink_target q\<rparr>"

lemma project_inode_wf: "wf_inode q \<Longrightarrow> project_inode q = Ok (visible q)"
  by (cases "si_kind q"; cases "si_file_remote_digest q")
    (simp_all add: project_inode_def visible_def conv_simps wf_inode_def valid_digest_def Let_def)

lemma visible_sel [simp]: "i_name (visible q) = si_name q" "i_inode (visible q) = si_id q"
  by (simp_all add: visible_def)

lemma ensure_directory_loaded_loaded:
  assumes "env_ok env" "session_inv env s" "represents (connection (s_store s)) ns"
    and "ensure_directory_loaded env i s = (Ok (), s1)"
  shows "\<exists>ns1 q q1. represents (connection (s_store s1)) ns1 \<and> inode_by_id ns i = Some q \<and> inode_by_id ns1 i = Some q1 \<and>
    \<not> si_tombstone q1 \<and> si_kind q1 = Directory \<and> si_directory_loaded q1 = Some True \<and> visible q1 = visible q"
proof -
  note e = ensure_directory_loaded_effect [OF assms]
  then obtain q where q: "inode_by_id ns i = Some q" "\<not> si_tombstone q" "si_kind q = Directory" by blast
  show ?thesis
  proof (cases "si_directory_loaded q = Some True")
    case True
    with e q assms(3) show ?thesis by auto
  next
    case False
    with e q obtain cs where r: "represents (connection (s_store s1)) (materialize i cs ns)" by auto
    have "inode_by_id (materialize i cs ns) i = Some (mark_loaded i q)" by (rule inode_by_id_materialize [OF q(1)])
    moreover have "si_directory_loaded (mark_loaded i q) = Some True" "\<not> si_tombstone (mark_loaded i q)"
      "si_kind (mark_loaded i q) = Directory" "visible (mark_loaded i q) = visible q"
      using q by (auto simp: mark_loaded_def inode_by_id_def visible_def dest: find_SomeD split: option.splits)
    ultimately show ?thesis using r q(1) by blast
  qed
qed

definition visible_children :: "store_inode list \<Rightarrow> inode_id \<Rightarrow> inode list" where
  "visible_children ns i = map visible (filter (\<lambda>c. \<not> si_tombstone c) (children_of ns i))"

lemma children_of_wf: "wf_namespace ns \<Longrightarrow> c \<in> set (children_of ns i) \<Longrightarrow> wf_inode c"
  using wf_namespaceD(4) by (auto simp: children_of_def)

lemma list_directory_Ok:
  assumes "list_directory env i s = (Ok xs, s')"
  shows "\<exists>children. ensure_directory_loaded env i s = (Ok (), s') \<and>
    get_directory_children (se_store env) (s_store s') i = Ok children \<and>
    collect project_inode (filter (\<lambda>c. \<not> si_tombstone c) children) = Ok xs"
  using assms by (auto simp: list_directory_def and_then_eq_Ok split: prod.splits sum.splits)

lemma get_directory_children_OkD:
  "represents (connection st) ns \<Longrightarrow> get_directory_children env st i = Ok xs \<Longrightarrow> xs = children_of ns i"
  using get_children_OkD by (auto simp: get_directory_children_def store_read_def result_simps split: if_splits)

lemma list_directory_visible:
  assumes "list_directory env i s = (Ok xs, s')" "represents (connection (s_store s')) ns'"
  shows "xs = visible_children ns' i"
proof -
  obtain children where c: "get_directory_children (se_store env) (s_store s') i = Ok children"
    and p: "collect project_inode (filter (\<lambda>c. \<not> si_tombstone c) children) = Ok xs"
    using list_directory_Ok [OF assms(1)] by blast
  have ch: "children = children_of ns' i" by (rule get_directory_children_OkD [OF assms(2) c])
  have "collect project_inode (filter (\<lambda>c. \<not> si_tombstone c) children) =
      Ok (map visible (filter (\<lambda>c. \<not> si_tombstone c) children))"
    using children_of_wf [OF represents_wf [OF assms(2)]] ch by (intro collect_total) (auto simp: project_inode_wf)
  with p ch show ?thesis by (simp add: visible_children_def)
qed

lemma visible_children_sorted:
  "wf_namespace ns \<Longrightarrow> sorted_wrt (<) (map i_name (visible_children ns i))"
  using children_of_strictly_sorted [of ns i]
  by (simp add: visible_children_def comp_def sorted_wrt_map sorted_wrt_filter)

lemma new_inodes_not_tombstone: "n \<in> set (new_inodes p k cs) \<Longrightarrow> \<not> si_tombstone n"
  by (induction cs arbitrary: k) (auto simp: inode_of_remote_def)

lemma visible_children_materialize:
  assumes "children_of ns i = []"
  shows "visible_children (materialize i cs ns) i =
    map visible (sort_key si_name (new_inodes i (sqlite (si_id (last ns))) cs))"
  using new_inodes_not_tombstone
  by (auto simp: visible_children_def children_of_materialize [OF assms] intro!: arg_cong [of _ _ "map visible"] filter_True)

lemma map_sort_key: "map f (sort_key f xs) = sort (map f xs)"
  using sort_key_map [of "\<lambda>x. x" f xs] by (simp add: comp_def)

lemma lookup_child_Ok:
  assumes "represents (connection (s_store s')) ns'" "lookup_child env p name s = (r, s')"
    and "ensure_directory_loaded env p s = (Ok (), s')"
  shows "(\<forall>x. r = Ok x \<longrightarrow> x \<in> set (visible_children ns' p) \<and> i_name x = name) \<and>
    (\<forall>m. r = Err (NotFound m) \<longrightarrow> name \<notin> set (map i_name (visible_children ns' p)))"
proof -
  let ?k = "\<lambda>found. case found of Some child \<Rightarrow> if \<not> si_tombstone child then project_inode child
      else Err (NotFound ''look up child in directory inode: entry is not visible'')
    | None \<Rightarrow> Err (NotFound ''look up child in directory inode: entry does not exist'')"
  note wf = represents_wf [OF assms(1)]
  have r: "r = and_then (store_child (se_store env) (s_store s') p name) ?k"
    using assms(2,3) by (simp add: lookup_child_def)
  have found: "f = child_by_name ns' p name" if "store_child (se_store env) (s_store s') p name = Ok f" for f
  proof -
    have "lookup_child_in_dir_inode (se_store env) (database_path (s_store s')) (connection (s_store s')) p name = Ok f"
      using that by (auto simp: store_child_def store_read_def result_simps split: if_splits)
    moreover from this have "sql_fault (se_store env) ''lookup child by name in dir inode'' (connection (s_store s')) = None"
      by (auto simp: lookup_child_in_dir_inode_def result_simps)
    ultimately show ?thesis using lookup_child_eq [OF assms(1)] by simp
  qed
  show ?thesis
  proof (cases "store_child (se_store env) (s_store s') p name")
    case (Inl e)
    have "e \<noteq> NotFound m" for m
      using Inl by (auto simp: store_child_def store_read_def and_then_eq_Err result_context_eq_Err
          lookup_child_in_dir_inode_def sql_def database_error_def validate_inode_name_def
          split: if_splits option.splits)
    with Inl r show ?thesis by simp
  next
    case (Inr f)
    note f = found [OF Inr]
    show ?thesis
    proof (cases f)
      case None
      have "name \<notin> set (map si_name (children_of ns' p))"
        using f None wf_namespace_child_by_name [OF wf, of p name] by force
      then have "name \<notin> set (map i_name (visible_children ns' p))" by (auto simp: visible_children_def)
      with r Inr None show ?thesis by simp
    next
      case (Some c)
      then have c: "c \<in> set (children_of ns' p)" "si_name c = name"
        using f wf_namespace_child_by_name [OF wf] by auto
      show ?thesis
      proof (cases "si_tombstone c")
        case True
        have "c' = c" if "c' \<in> set (children_of ns' p)" "si_name c' = name" for c'
          using wf_namespace_child_by_name [OF wf, of p name c'] that f Some by simp
        with True r Inr Some show ?thesis by (auto simp: visible_children_def)
      next
        case False
        with r Inr Some project_inode_wf [OF children_of_wf [OF wf c(1)]] have "r = Ok (visible c)" by simp
        with c False show ?thesis by (auto simp: visible_children_def)
      qed
    qed
  qed
qed

lemma cache_read_range_effect:
  assumes "env_ok env" "valid_digest d" "session_inv env s"
    and "cache_read_range (se_fs env) (se_sha env) (se_stream env) d off sz (s_cache s) = (r, c)"
  shows "session_inv env (s\<lparr>s_cache := c\<rparr>)"
proof -
  obtain r0 c0 where e: "ensure_cached (se_fs env) (se_sha env) (se_stream env) d (s_cache s) = (r0, c0)" by fastforce
  then have "c = c0" using assms(4) by (auto simp: cache_read_range_def split: sum.splits)
  with blob_source.ensure_cached_keeps [OF env_ok_blob_source [OF assms(1)] env_okD [OF assms(1)] e assms(2)] assms(3) show ?thesis
    by (simp add: session_inv_def)
qed

lemma session_read_range_effect:
  assumes env: "env_ok env" and inv: "session_inv env s" and ns: "represents (connection (s_store s)) ns"
    and run: "session_read_range env i off sz s = (r, s')"
  shows "session_inv env s' \<and> s_store s' = s_store s \<and>
    (\<forall>bs. r = Ok bs \<longrightarrow> (\<exists>q. inode_by_id ns i = Some q \<and> si_kind q = File \<and>
       (case si_file_overlay_path q of
          Some path \<Rightarrow> overlay_read_range (se_fs env) (s_overlay s) path off sz (cb_fs (s_cache s)) = Ok bs
        | None \<Rightarrow> \<exists>d dl. si_file_remote_digest q = Some d \<and> valid_digest d \<and>
            cache_read_range (se_fs env) (se_sha env) (se_stream env) d off sz (s_cache s) = (Ok (bs, dl), s_cache s'))))"
proof -
  obtain rl s1 where l: "inode_lock i s = (rl, s1)" by fastforce
  have e1: "s_store s1 = s_store s" "s_cache s1 = s_cache s" "s_overlay s1 = s_overlay s"
    using l by (auto simp: inode_lock_def split: if_splits)
  have inv1: "session_inv env s1" using inv session_inv_cong e1 by blast
  have ns1: "represents (connection (s_store s1)) ns" using ns e1 by simp
  show ?thesis
  proof (cases "\<exists>q d. rl = Ok () \<and> i \<notin> s_poisoned_locks s1 \<and> get_visible_inode env s1 i = Ok q \<and>
      si_kind q = File \<and> si_file_overlay_path q = None \<and> si_file_remote_digest q = Some d")
    case False
    then have "s' = s1 \<and> (\<forall>bs. r = Ok bs \<longrightarrow> (\<exists>q path. get_visible_inode env s1 i = Ok q \<and> si_kind q = File \<and>
        si_file_overlay_path q = Some path \<and>
        overlay_read_range (se_fs env) (s_overlay s1) path off sz (cb_fs (s_cache s1)) = Ok bs))"
      using run l by (auto simp: session_read_range_def split: sum.splits if_splits option.splits)
    then show ?thesis using get_visible_inode_Ok [OF ns1] inv1 e1 by force
  next
    case True
    then obtain q d where q: "rl = Ok ()" "i \<notin> s_poisoned_locks s1" "get_visible_inode env s1 i = Ok q"
      "si_kind q = File" "si_file_overlay_path q = None" "si_file_remote_digest q = Some d" by blast
    have q': "inode_by_id ns i = Some q" using get_visible_inode_Ok [OF ns1 q(3)] by auto
    then have "wf_inode q"
      using wf_namespaceD(4) [OF represents_wf [OF ns]] by (auto simp: inode_by_id_def dest: find_SomeD)
    then have d: "valid_digest d" using q(6) by (simp add: wf_inode_def)
    obtain rc c where rc: "cache_read_range (se_fs env) (se_sha env) (se_stream env) d off sz (s_cache s1) = (rc, c)"
      by fastforce
    have inv2: "session_inv env (s1\<lparr>s_cache := c\<rparr>)" by (rule cache_read_range_effect [OF env d inv1 rc])
    show ?thesis
    proof (cases rc)
      case e: (Inl e)
      with run l q rc have "r = Err e" "s' = s1\<lparr>s_cache := c\<rparr>" by (simp_all add: session_read_range_def)
      with inv2 e1 show ?thesis by simp
    next
      case ok: (Inr y)
      obtain bs dl where y: "y = (bs, dl)" by fastforce
      with run l q rc ok have r: "r = Ok bs" "s' = record_file_read dl (s1\<lparr>s_cache := c\<rparr>)"
        by (simp_all add: session_read_range_def)
      then have "session_inv env s'" using inv2 session_inv_cong [of s' "s1\<lparr>s_cache := c\<rparr>"] by simp
      with r rc ok y q q' d e1 show ?thesis by auto
    qed
  qed
qed

lemma session_read_slice:
  assumes "env_ok env" "session_inv env s" "full_reads (se_fs env)" "represents (connection (s_store s)) ns"
    and "inode_by_id ns i = Some q" "si_file_overlay_path q = None"
    and "session_read_range env i off sz s = (Ok bs, s')"
  shows "s_store s' = s_store s \<and> (\<exists>content d. si_file_remote_digest q = Some d \<and> for_bytes (se_sha env) content = d \<and>
    (length content < 2 ^ 64 \<longrightarrow> bs = take (unat sz) (drop (unat off) content)))"
proof -
  obtain d dl where d: "si_file_remote_digest q = Some d" "valid_digest d" and st: "s_store s' = s_store s"
    and r: "cache_read_range (se_fs env) (se_sha env) (se_stream env) d off sz (s_cache s) = (Ok (bs, dl), s_cache s')"
    using session_read_range_effect [OF assms(1,2,4,7)] assms(5,6) by auto
  obtain dl' where e: "ensure_cached (se_fs env) (se_sha env) (se_stream env) d (s_cache s) = (Ok dl', s_cache s')"
    and rf: "read_file_range (se_fs env) (cache_path (cb_root (s_cache s')) d) off sz (cb_fs (s_cache s')) = Ok bs"
    using r by (auto simp: cache_read_range_def result_simps split: prod.splits sum.splits)
  have "cache_ok (se_sha env) (cb_root (s_cache s')) (cb_fs (s_cache s'))"
    using blob_source.ensure_cached_keeps [OF env_ok_blob_source [OF assms(1)] env_okD [OF assms(1)] e d(2)] assms(2)
    by (simp add: session_inv_def)
  with read_file_range_Ok [OF rf assms(3)] d st show ?thesis by (auto simp: cache_ok_def)
qed

lemma session_ops_inv:
  assumes "env_ok env" "session_inv env s"
  shows "session_inv env (snd (ensure_directory_loaded env i s))" "session_inv env (snd (lookup_child env i name s))"
    "session_inv env (snd (list_directory env i s))" "session_inv env (snd (session_read_range env i off sz s))"
    "session_inv env (snd (session_close env clock s))"
proof -
  obtain ns where ns: "represents (connection (s_store s)) ns" by (rule session_inv_namespace [OF assms(2)])
  show l: "session_inv env (snd (ensure_directory_loaded env i s))"
    using ensure_directory_loaded_effect [OF assms ns] by (cases "ensure_directory_loaded env i s") auto
  have "snd (lookup_child env i name s) = snd (ensure_directory_loaded env i s)"
    "snd (list_directory env i s) = snd (ensure_directory_loaded env i s)"
    by (simp_all add: lookup_child_def list_directory_def split: prod.splits sum.splits)
  with l show "session_inv env (snd (lookup_child env i name s))" "session_inv env (snd (list_directory env i s))"
    by simp_all
  show "session_inv env (snd (session_read_range env i off sz s))"
    using session_read_range_effect [OF assms ns] by (cases "session_read_range env i off sz s") auto
  show "session_inv env (snd (session_close env clock s))"
    using store_close_wf [of "se_store env" "s_store s" clock] assms(2)
    by (auto simp: session_close_def session_inv_def split: prod.splits)
qed

section \<open>Opening\<close>

text \<open>The files that opening a session may create or remove are never cache entries.\<close>

lemma path_join_prefix: "\<exists>X. \<forall>p. p \<noteq> [] \<longrightarrow> hd p \<noteq> CHR ''/'' \<longrightarrow> path_join base p = X @ p"
proof (intro exI allI impI)
  fix p :: string
  assume "p \<noteq> []" "hd p \<noteq> CHR ''/''"
  then show "path_join base p = (if base = [] \<or> last base = CHR ''/'' then base else base @ ''/'') @ p"
    by (cases p) (auto simp: path_join_def)
qed

lemma cache_path_not_session:
  assumes "valid_digest d"
  shows "cache_path (ly_cache (layout_new home)) d \<noteq> ly_session_lock (layout_new home)"
    "cache_path (ly_cache (layout_new home)) d \<noteq> database_file (layout_new home)"
proof -
  obtain X where X: "\<forall>p. p \<noteq> [] \<longrightarrow> hd p \<noteq> CHR ''/'' \<longrightarrow> path_join home p = X @ p"
    using path_join_prefix by blast
  have ly: "ly_cache (layout_new home) = X @ ''cache''" "ly_session_lock (layout_new home) = X @ ''session.lock''"
    "ly_session (layout_new home) = X @ ''session''"
    using X by (simp_all add: layout_new_def Let_def)
  obtain a r where h: "take 2 (hash d) = a # r" "a \<noteq> CHR ''/''"
    using valid_digest_hash_hd [OF assms] by (cases "hash d") (auto simp: take_Cons split: nat.splits)
  have c: "\<exists>t. cache_path (ly_cache (layout_new home)) d = X @ ''cache'' @ t"
    unfolding ly cache_path_eq [OF assms] using h by (simp add: path_join_def)
  then show "cache_path (ly_cache (layout_new home)) d \<noteq> ly_session_lock (layout_new home)"
    unfolding ly by auto
  have "database_file (layout_new home) = X @ ''session/session.db''"
    by (simp add: database_file_def ly path_join_def)
  with c show "cache_path (ly_cache (layout_new home)) d \<noteq> database_file (layout_new home)" by auto
qed

definition keeps_cache :: "string \<Rightarrow> local_fs \<Rightarrow> local_fs \<Rightarrow> bool" where
  "keeps_cache root fs fs' \<longleftrightarrow>
     (\<forall>d x. valid_digest d \<and> fs_files fs' (cache_path root d) = Some x \<longrightarrow> fs_files fs (cache_path root d) = Some x)"

lemma keeps_cache_refl [simp]: "keeps_cache root fs fs"
  by (simp add: keeps_cache_def)

lemma keeps_cache_trans: "keeps_cache root a b \<Longrightarrow> keeps_cache root b c \<Longrightarrow> keeps_cache root a c"
  by (auto simp: keeps_cache_def)

lemma keeps_cache_files: "fs_files fs' = fs_files fs \<Longrightarrow> keeps_cache root fs fs'"
  by (simp add: keeps_cache_def)

lemma open_steps_keep_cache:
  "ensure_writable_home fe home fs = (r, fs') \<Longrightarrow> keeps_cache root fs fs'"
  "lock_acquire env held (ly_session_lock (layout_new home)) fs = (r, fs') \<Longrightarrow> keeps_cache (ly_cache (layout_new home)) fs fs'"
  "lock_write_record env rec (ly_session_lock (layout_new home)) fs = (r, fs') \<Longrightarrow>
     keeps_cache (ly_cache (layout_new home)) fs fs'"
  "remove_if_present fe p fs = (r, fs') \<Longrightarrow> keeps_cache root fs fs'"
  "create_dir_if_absent fe p fs = (r, fs') \<Longrightarrow> keeps_cache root fs fs'"
  "create_empty_file fe (database_file (layout_new home)) fs = (r, fs') \<Longrightarrow>
     keeps_cache (ly_cache (layout_new home)) fs fs'"
  "cache_open fe p fs = (rc, fs') \<Longrightarrow> keeps_cache root fs fs'"
  "overlay_open fe p fs = (ro, fs') \<Longrightarrow> keeps_cache root fs fs'"
  subgoal by (rule keeps_cache_files) (auto simp: ensure_writable_home_def Let_def split: if_splits option.splits)
  subgoal using cache_path_not_session(1)
    by (auto simp: lock_acquire_def keeps_cache_def Let_def split: if_splits option.splits)
  subgoal using cache_path_not_session(1)
    by (auto simp: lock_write_record_def keeps_cache_def Let_def split: option.splits)
  subgoal by (auto simp: remove_if_present_def keeps_cache_def split: if_splits option.splits io_error.splits)
  subgoal by (rule keeps_cache_files) (rule create_dir_if_absent_files)
  subgoal using cache_path_not_session(2)
    by (auto simp: create_empty_file_def keeps_cache_def split: if_splits option.splits)
  subgoal by (rule keeps_cache_files) (auto simp: cache_open_def dest: create_dir_if_absent_files split: prod.splits sum.splits)
  subgoal by (rule keeps_cache_files)
      (auto simp: overlay_open_def dest!: create_dir_if_absent_files split: prod.splits sum.splits)
  done

lemma fs_step_Ok: "fs_step op m k = (Ok x, fs') \<longleftrightarrow> (\<exists>u fs. m = (Ok u, fs) \<and> k fs = (Ok x, fs'))"
  by (auto simp: fs_step_def split: prod.splits sum.splits)

lemma open_stores_Ok:
  assumes "open_stores env sid pid clock ly root mp utf8 fs7 = (Ok s, fs9)"
  shows "\<exists>c fs8 ov. cache_open (se_fs env) (ly_cache ly) fs7 = (Ok c, fs8) \<and>
    overlay_open (se_fs env) (overlay_path ly) fs8 = (Ok ov, fs9) \<and>
    store_create (se_store env) clock (database_file ly) sid pid root
      (if utf8 then Some mp else None) (Some empty_db) = Ok (s_store s) \<and>
    s_cache s = c\<lparr>cb_fs := fs9\<rparr>"
  using assms unfolding open_stores_def by (auto split: prod.split_asm sum.split_asm)

lemma session_open_inv:
  assumes run: "session_open env held sid pid clock home root mp utf8 fs0 = (Ok s, fs')"
    and root: "valid_digest root" and cache: "cache_ok (se_sha env) (ly_cache (layout_new home)) fs0"
  shows "session_inv env s"
proof -
  let ?ly = "layout_new home" let ?fe = "se_fs env" let ?rec = "\<lparr>lr_record_version = LOCK_RECORD_VERSION, lr_session_id = sid, lr_pid = pid\<rparr>"
  obtain fs2 fs3 fs4 fs5 fs6 fs7 where
    a: "ensure_writable_home ?fe home fs0 = (Ok (), fs2)"
      "lock_acquire env held (ly_session_lock ?ly) fs2 = (Ok (), fs3)"
      "lock_write_record env ?rec (ly_session_lock ?ly) fs3 = (Ok (), fs4)"
      "remove_if_present ?fe (ly_session ?ly) fs4 = (Ok (), fs5)"
      "create_dir_if_absent ?fe (ly_session ?ly) fs5 = (Ok (), fs6)"
      "create_empty_file ?fe (database_file ?ly) fs6 = (Ok (), fs7)"
    and o: "open_stores env sid pid clock ?ly root mp utf8 fs7 = (Ok s, fs')"
    using run unfolding session_open_def Let_def fs_step_Ok by auto
  obtain c fs8 ov where c: "cache_open ?fe (ly_cache ?ly) fs7 = (Ok c, fs8)"
      "overlay_open ?fe (overlay_path ?ly) fs8 = (Ok ov, fs')"
    and st: "store_create (se_store env) clock (database_file ?ly) sid pid root
        (if utf8 then Some mp else None) (Some empty_db) = Ok (s_store s)"
    and s: "s_cache s = c\<lparr>cb_fs := fs'\<rparr>"
    using open_stores_Ok [OF o] by blast
  have "keeps_cache (ly_cache ?ly) fs0 fs'"
    using a c by (meson open_steps_keep_cache keeps_cache_trans)
  moreover have "cb_root c = ly_cache ?ly"
    using c(1) by (auto simp: cache_open_def split: prod.splits sum.splits)
  ultimately have "cache_ok (se_sha env) (cb_root (s_cache s)) (cb_fs (s_cache s))"
    using cache s by (auto simp: cache_ok_def keeps_cache_def)
  moreover have "wf_db (uuid_parse_ok (se_store env)) (connection (s_store s))"
    using store_create_fresh [OF _ root] st store_create_empty_file by metis
  ultimately show ?thesis using s by (simp add: session_inv_def)
qed

text \<open>The sessions that a client can drive, from any open on.\<close>

inductive reachable_session :: "session_env \<Rightarrow> session \<Rightarrow> bool" for env where
  opened: "session_open env held sid pid clock home root mp utf8 fs0 = (Ok s, fs') \<Longrightarrow> valid_digest root \<Longrightarrow>
     cache_ok (se_sha env) (ly_cache (layout_new home)) fs0 \<Longrightarrow> reachable_session env s"
| looked_up: "reachable_session env s \<Longrightarrow> lookup_child env i name s = (r, s') \<Longrightarrow> reachable_session env s'"
| listed: "reachable_session env s \<Longrightarrow> list_directory env i s = (rl, s') \<Longrightarrow> reachable_session env s'"
| read: "reachable_session env s \<Longrightarrow> session_read_range env i off sz s = (rr, s') \<Longrightarrow> reachable_session env s'"
| session_closed: "reachable_session env s \<Longrightarrow> session_close env clock s = (rc, s') \<Longrightarrow> reachable_session env s'"

lemma reachable_session_inv:
  assumes "env_ok env"
  shows "reachable_session env s \<Longrightarrow> session_inv env s"
proof (induction rule: reachable_session.induct)
  case (opened held sid pid clock home root mp utf8 fs0 s fs')
  then show ?case using session_open_inv by blast
next
  case (looked_up s i name r s')
  then show ?case using session_ops_inv(2) [OF assms, of s i name] by simp
next
  case (listed s i rl s')
  then show ?case using session_ops_inv(3) [OF assms, of s i] by simp
next
  case (read s i off sz rr s')
  then show ?case using session_ops_inv(4) [OF assms, of s i off sz] by simp
next
  case (session_closed s clock rc s')
  then show ?case using session_ops_inv(5) [OF assms, of s clock] by simp
qed

section \<open>Properties\<close>

definition demo_props :: node_properties where
  "demo_props = \<lparr>np_properties = [], np_mtime = Some \<lparr>ts_seconds = 5, ts_nanos = 6\<rparr>, np_unix_mode = Some 0x1A4\<rparr>"

definition demo_dir :: directory where
  "demo_dir = \<lparr>dir_files = [\<lparr>fn_name = ''b'', fn_digest = Some (to_reapi demo_digest), fn_is_executable = False,
       fn_node_properties = Some demo_props\<rparr>],
     dir_directories = [],
     dir_symlinks = [\<lparr>sn_name = ''a'', sn_target = ''b'', sn_node_properties = Some demo_props\<rparr>],
     dir_node_properties = Some demo_props\<rparr>"

definition demo_nodes :: "new_remote_inode list" where
  "demo_nodes = [
     \<lparr>nr_name = ''b'', nr_mode = Some 0x1A4, nr_mtime = Some \<lparr>nt_seconds = 5, nt_nanos = 6\<rparr>, nr_content = RemoteFile demo_digest\<rparr>,
     \<lparr>nr_name = ''a'', nr_mode = Some 0x1A4, nr_mtime = Some \<lparr>nt_seconds = 5, nt_nanos = 6\<rparr>, nr_content = RemoteSymlink ''b''\<rparr>]"

text \<open>A text form of lock records for the examples: version and process id in unary, then the identity.\<close>

definition demo_lock_json :: "lock_record \<Rightarrow> bytes" where
  "demo_lock_json r = replicate (unat (lr_record_version r)) 1 @ 0 # replicate (unat (lr_pid r)) 1 @ 0 # map (\<lambda>c. of_nat (of_char c)) (lr_session_id r)"

definition demo_lock_parse :: "bytes \<Rightarrow> lock_record option" where
  "demo_lock_parse bs =
     (let version = takeWhile (\<lambda>b. b = 1) bs; rest = drop (length version + 1) bs;
          pid = takeWhile (\<lambda>b. b = 1) rest; sid = drop (length pid + 1) rest
      in if sid = [] \<or> last sid \<noteq> 10 then None
         else Some \<lparr>lr_record_version = of_nat (length version), lr_session_id = map (\<lambda>b. char_of (unat b)) (butlast sid), lr_pid = of_nat (length pid)\<rparr>)"

abbreviation demo_lock_text :: bytes where
  "demo_lock_text \<equiv> demo_lock_json \<lparr>lr_record_version = LOCK_RECORD_VERSION, lr_session_id = ''id'', lr_pid = 1\<rparr> @ [10]"

definition demo_session_env :: session_env where
  "demo_session_env = \<lparr>se_store = demo_env, se_fs = demo_fs_env, se_sha = demo_sha,
     se_decode = (\<lambda>_. Ok demo_dir), se_stream = (\<lambda>d p. (Ok (), p)),
     se_lock_json = demo_lock_json, se_lock_parse = demo_lock_parse\<rparr>"

definition demo_session :: session where
  "demo_session = \<lparr>s_root_digest = demo_digest, s_mountpoint = ''/m'', s_layout = layout_new ''/h'',
     s_store = demo_store,
     s_cache = \<lparr>cb_root = ''/c'', cb_fs = \<lparr>fs_files = [cache_path ''/c'' demo_digest \<mapsto> []], fs_dirs = {''/c''}\<rparr>,
       cb_locks = no_locks\<rparr>,
     s_overlay = \<lparr>ov_root = ''/o''\<rparr>, s_inode_locks = {}, s_poisoned_locks = {}, s_lock_map_poisoned = False,
     s_counters = \<lparr>directory_downloads = 0, directory_cache_hits = 0, file_downloads = 0, file_cache_hits = 0\<rparr>\<rparr>"

lemma demo_digest_for_bytes: "for_bytes demo_sha [] = demo_digest"
  by (simp add: for_bytes_def demo_sha_def demo_digest_def as_i64_def)

lemma demo_session_env_ok: "env_ok demo_session_env"
proof -
  have "stream_writes demo_fs_env (\<lambda>d p. (Ok (), p))"
    unfolding stream_writes_def by (intro allI exI [of _ "[]"]) (simp add: write_chunks_def)
  moreover have "decode_typed (\<lambda>_. Ok demo_dir)"
    by (simp add: decode_typed_def directory_typed_def demo_dir_def digest_typed_def to_reapi_def demo_digest_def is_i64_def)
  ultimately show ?thesis
    using demo_sha_ok demo_env_ok(1) by (simp add: env_ok_def demo_session_env_def)
qed

lemma demo_session_inv: "session_inv demo_session_env demo_session"
proof -
  have "cache_ok demo_sha ''/c'' \<lparr>fs_files = [cache_path ''/c'' demo_digest \<mapsto> []], fs_dirs = {''/c''}\<rparr>"
    using cache_path_inj [OF _ demo_digest_valid] demo_digest_for_bytes by (auto simp: cache_ok_def split: if_splits)
  then show ?thesis
    using demo_store_fresh by (simp add: session_inv_def demo_session_def demo_session_env_def)
qed

lemma demo_time: "node_time_new 5 6 = Some \<lparr>nt_seconds = 5, nt_nanos = 6\<rparr>"
  by (simp add: node_time_new_def SESSION_MIN_TIMESTAMP_SECONDS_def SESSION_MAX_TIMESTAMP_SECONDS_def)

lemma demo_dir_decodes:
  "decode_directory demo_sha (\<lambda>_. Ok demo_dir) demo_digest [] = Ok demo_dir"
  "decoded_directory_children demo_dir = Ok demo_nodes"
proof -
  have "wf_directory demo_dir"
    by (simp add: wf_directory_def demo_dir_def directory_names_def valid_name_def props_ok_def
        to_reapi_field_ok demo_digest_valid demo_props_def valid_timestamp_def MIN_TIMESTAMP_SECONDS_def MAX_TIMESTAMP_SECONDS_def)
  then show "decode_directory demo_sha (\<lambda>_. Ok demo_dir) demo_digest [] = Ok demo_dir"
    by (simp add: decode_directory_eq_Ok demo_digest_for_bytes)
qed (simp add: decoded_directory_children_def demo_dir_def decode_file_child_def decode_symlink_child_def
    decode_node_metadata_def remote_digest_def demo_digest_valid demo_props_def demo_time conv_simps demo_nodes_def)

text \<open>A fresh session over a cache that holds the root directory can load it, whatever its blob source does.\<close>

lemma demo_loads:
  assumes st: "store_create demo_env (Some 7) path ''id'' 1 demo_digest (Some ''/m'') None = Ok (s_store s)"
    and c: "fs_files (cb_fs (s_cache s)) (cache_path (cb_root (s_cache s)) demo_digest) = Some []"
    and lk: "s_poisoned_locks s = {}" "\<not> s_lock_map_poisoned s"
  shows "\<exists>xs s'. list_directory (demo_session_env\<lparr>se_stream := str\<rparr>) ROOT s = (Ok xs, s') \<and>
     represents (connection (s_store s')) (materialize ROOT demo_nodes [root_inode demo_digest]) \<and>
     (\<forall>path. ensure_active demo_env path (connection (s_store s')) = Ok ()) \<and> \<not> poisoned (s_store s') \<and>
     s_cache s' = s_cache s \<and> s_layout s' = s_layout s \<and> s_poisoned_locks s' = {} \<and> \<not> s_lock_map_poisoned s'"
proof -
  let ?env = "demo_session_env\<lparr>se_stream := str\<rparr>" and ?s1 = "s\<lparr>s_inode_locks := insert ROOT (s_inode_locks s)\<rparr>"
  let ?cs = demo_nodes
  note fresh = store_create_fresh [OF st demo_digest_valid] and np = store_create_not_poisoned [OF st]
  then have rep: "represents (connection (s_store s)) [root_inode demo_digest]" by blast
  have nf: "sql_fault demo_env op d = None" for op d using demo_env_no_faults by (simp add: no_faults_def)
  obtain md where md: "session_of (uuid_parse_ok demo_env) (connection (s_store s)) = Some md" "md_state md = Active"
    using fresh by auto
  have active: "ensure_active demo_env path (connection (s_store s)) = Ok ()" for path
    using md nf by (auto simp: ensure_active_eq_Ok)
  have root: "get_visible_inode ?env ?s1 ROOT = Ok (root_inode demo_digest)"
    using active np demo_store_facts(3) get_inode_by_id_eq [OF rep nf]
    by (simp add: get_visible_inode_def store_inode_get_def store_read_def demo_session_env_def)
      (simp add: root_inode_def inode_of_remote_def)
  have dig: "si_directory_remote_digest (root_inode demo_digest) = Some demo_digest"
    by (simp add: root_inode_def inode_of_remote_def)
  have hit: "read_blob demo_fs_env demo_sha str demo_digest (s_cache ?s1) = (Ok ([], False), s_cache ?s1)"
    using c by (simp add: read_blob_def ensure_cached_def cache_contains_def path_exists_def read_cached_blob_def demo_fs_env_def)
  have fetch: "fetch_children ?env demo_digest ?s1 = (Ok (?cs, False), ?s1)"
    using hit demo_dir_decodes by (simp add: fetch_children_def demo_session_env_def demo_nodes_def)
  have cs: "list_all remote_typed ?cs" "list_all remote_checked ?cs" "distinct (map nr_name ?cs)"
    by (simp_all add: remote_typed_def remote_checked_def demo_digest_valid valid_name_def demo_nodes_def valid_node_time_def demo_time)
  obtain ys d' where b: "materialize_body demo_env (database_path (s_store s)) ROOT ?cs (connection (s_store s)) = (Ok ys, d')"
    using materialize_body_total [OF demo_env_no_faults rep md demo_store_facts(3,4) cs,
        of "database_path (s_store s)"] demo_store_facts(6) by (auto simp: demo_nodes_def)
  let ?st = "(s_store s)\<lparr>connection := d'\<rparr>"
  have g: "get_or_create_remote_dir_children demo_env ROOT ?cs (s_store s) = (Ok ys, ?st)"
    unfolding get_or_create_remote_dir_children_def using b np nf by (intro with_transaction_run) auto
  have d': "represents d' (materialize ROOT ?cs [root_inode demo_digest])" "db_session d' = db_session (connection (s_store s))"
    using materialize_body_Ok [OF rep cs(1) b] demo_store_facts(3,5) by auto
  have "load_remote_directory ?env ROOT demo_digest ?s1 = (Ok (), record_directory_read False (?s1\<lparr>s_store := ?st\<rparr>))"
    using fetch g by (simp add: load_remote_directory_def demo_session_env_def)
  then have load: "ensure_directory_loaded ?env ROOT s = (Ok (), record_directory_read False (?s1\<lparr>s_store := ?st\<rparr>))"
    using root dig demo_store_facts(4,5) lk by (simp add: ensure_directory_loaded_def inode_lock_def)
  have act: "ensure_active demo_env path d' = Ok ()" for path
    using md nf session_of_cong [OF d'(2)] by (auto simp: ensure_active_eq_Ok)
  then have "get_directory_children demo_env ?st ROOT =
      Ok (children_of (materialize ROOT ?cs [root_inode demo_digest]) ROOT)"
    using get_children_eq [OF d'(1) nf nf nf] np by (simp add: get_directory_children_def store_read_def)
  moreover have "\<exists>xs. collect project_inode (filter (\<lambda>c. \<not> si_tombstone c)
      (children_of (materialize ROOT ?cs [root_inode demo_digest]) ROOT)) = Ok xs"
    by (intro exI, rule collect_total [where g = visible])
      (use children_of_wf [OF represents_wf [OF d'(1)]] in \<open>auto simp: project_inode_wf\<close>)
  ultimately have "\<exists>xs. list_directory ?env ROOT s = (Ok xs, record_directory_read False (?s1\<lparr>s_store := ?st\<rparr>))"
    using load by (simp add: list_directory_def demo_session_env_def)
  with d'(1) act np lk show ?thesis
    by (auto simp: record_directory_read_def Let_def)
qed

lemma demo_session_loaded:
  "\<exists>xs s'. list_directory demo_session_env ROOT demo_session = (Ok xs, s') \<and>
     represents (connection (s_store s')) (materialize ROOT demo_nodes [root_inode demo_digest]) \<and>
     (\<forall>i. store_inode_get demo_env (s_store s') i = Ok (inode_by_id (materialize ROOT demo_nodes [root_inode demo_digest]) i)) \<and>
     s_cache s' = s_cache demo_session \<and> s_poisoned_locks s' = {} \<and> \<not> s_lock_map_poisoned s'"
proof -
  have nf: "sql_fault demo_env op d = None" for op d using demo_env_no_faults by (simp add: no_faults_def)
  have "demo_session_env\<lparr>se_stream := \<lambda>d p. (Ok (), p)\<rparr> = demo_session_env" by (simp add: demo_session_env_def)
  then show ?thesis
    using demo_loads [of "''db''" demo_session "\<lambda>d p. (Ok (), p)"] demo_store_created get_inode_by_id_eq [OF _ nf]
    by (force simp: demo_session_def store_inode_get_def store_read_def)
qed

lemma demo_session_listing:
  "\<exists>xs s'. list_directory demo_session_env ROOT demo_session = (Ok xs, s')"
  using demo_session_loaded by blast

text \<open>
  C33 The session invariant. In every session that a client can reach (open over a cache whose files
  verify, then any sequence of lookups, listings, reads and closes, failing or not), the database
  satisfies its invariant and every cached file holds the content its digest names.
\<close>

theorem session_invariant:
  assumes "env_ok env" "reachable_session env s"
  shows "wf_db (uuid_parse_ok (se_store env)) (connection (s_store s)) \<and>
    cache_ok (se_sha env) (cb_root (s_cache s)) (cb_fs (s_cache s))"
  using reachable_session_inv [OF assms] by (simp add: session_inv_def)

definition demo_home :: local_fs where
  "demo_home = \<lparr>fs_files = Map.empty, fs_dirs = {''/m'', ''/h''}\<rparr>"

lemma demo_opens:
  assumes "\<forall>p \<in> {''/m'', ''/h'', ''/h/session.lock'', ''/h/session'', ''/h/session/session.db'', ''/h/cache'', ''/h/session/overlay'',
      ''/h/session/overlay/data'', ''/h/session/overlay/tmp''}. f p = None"
  shows "\<exists>s fs'. session_open (demo_session_env\<lparr>se_stream := str\<rparr>) False ''id'' 1 (Some 7) ''/h'' demo_digest ''/m'' True
      \<lparr>fs_files = f, fs_dirs = {''/m'', ''/h''}\<rparr> = (Ok s, fs') \<and>
    store_create demo_env (Some 7) ''/h/session/session.db'' ''id'' 1 demo_digest (Some ''/m'') None = Ok (s_store s) \<and>
    fs_files (cb_fs (s_cache s)) = f(''/h/session.lock'' \<mapsto> demo_lock_text, ''/h/session/session.db'' \<mapsto> []) \<and>
    fs_dirs (cb_fs (s_cache s)) = {''/m'', ''/h'', ''/h/session'', ''/h/cache'', ''/h/session/overlay'', ''/h/session/overlay/data'',
      ''/h/session/overlay/tmp''} \<and> cb_root (s_cache s) = ''/h/cache'' \<and>
    s_layout s = layout_new ''/h'' \<and> s_poisoned_locks s = {} \<and> \<not> s_lock_map_poisoned s"
proof -
  have ly: "layout_new ''/h'' = \<lparr>ly_cache = ''/h/cache'', ly_session = ''/h/session'', ly_session_lock = ''/h/session.lock'',
      ly_control_endpoint = ''/h/session/control.sock''\<rparr>"
    by (simp add: layout_new_def path_join_def)
  have paths: "path_parent ''/h/session.lock'' = ''/h''" "path_parent ''/h/session'' = ''/h''"
    "path_parent ''/h/session/session.db'' = ''/h/session''" "path_parent ''/h/cache'' = ''/h''"
    "path_parent ''/h/session/overlay'' = ''/h/session''"
    "path_parent ''/h/session/overlay/data'' = ''/h/session/overlay''"
    "path_parent ''/h/session/overlay/tmp'' = ''/h/session/overlay''"
    by (simp_all add: path_parent_def)
  obtain st where st: "store_create demo_env (Some 7) ''/h/session/session.db'' ''id'' 1 demo_digest (Some ''/m'') None = Ok st"
    using demo_store_creates by (auto simp: is_ok_iff)
  then show ?thesis using assms
    by (simp add: session_open_def open_stores_def fs_step_def demo_session_env_def ly paths validate_mountpoint_def
        ensure_writable_home_def lock_acquire_def lock_write_record_def remove_if_present_def create_dir_if_absent_def
        create_dir_def create_empty_file_def cache_open_def overlay_open_def database_file_def overlay_path_def
        path_join_def path_exists_def demo_fs_env_def store_create_empty_file Let_def) blast
qed

lemma demo_session_opens:
  "\<exists>s fs'. session_open demo_session_env False ''id'' 1 (Some 7) ''/h'' demo_digest ''/m'' True demo_home = (Ok s, fs')"
proof -
  have "demo_session_env\<lparr>se_stream := \<lambda>d p. (Ok (), p)\<rparr> = demo_session_env" by (simp add: demo_session_env_def)
  then show ?thesis using demo_opens [of Map.empty "\<lambda>d p. (Ok (), p)"] by (auto simp: demo_home_def)
qed

theorem session_invariant_witness:
  "\<exists>s fs'. session_open demo_session_env False ''id'' 1 (Some 7) ''/h'' demo_digest ''/m'' True demo_home = (Ok s, fs') \<and>
     cache_ok (se_sha demo_session_env) (cb_root (s_cache s)) (cb_fs (s_cache s))"
proof -
  obtain s fs' where o: "session_open demo_session_env False ''id'' 1 (Some 7) ''/h'' demo_digest ''/m'' True demo_home = (Ok s, fs')"
    using demo_session_opens by blast
  have "reachable_session demo_session_env s"
    by (rule opened [OF o demo_digest_valid]) (simp add: cache_ok_def demo_home_def)
  from session_invariant [OF demo_session_env_ok this] o show ?thesis by blast
qed

text \<open>
  C12 Listing an unloaded directory shows the remote directory. When a listing of a directory that is not
  loaded yet succeeds, there is a blob with the inode's digest that decodes to a canonical REAPI
  directory, and the result is one visible inode per node of that directory, with consecutive fresh
  identities, in bytewise name order.
\<close>

theorem listing_matches_remote:
  assumes "env_ok env" "session_inv env s" "represents (connection (s_store s)) ns"
    and "inode_by_id ns i = Some q" "si_directory_loaded q \<noteq> Some True"
    and "list_directory env i s = (Ok xs, s')"
  shows "\<exists>d bs dir cs. si_directory_remote_digest q = Some d \<and> for_bytes (se_sha env) bs = d \<and>
    se_decode env bs = Ok dir \<and> wf_directory dir \<and> decoded_directory_children dir = Ok cs \<and>
    xs = map visible (sort_key si_name (new_inodes i (sqlite (si_id (last ns))) cs)) \<and>
    map i_name xs = sort (directory_names dir)"
proof -
  have "ensure_directory_loaded env i s = (Ok (), s')" using list_directory_Ok [OF assms(6)] by blast
  from ensure_directory_loaded_effect [OF assms(1-3) this] assms(4,5) obtain d cs where
    d: "si_directory_remote_digest q = Some d" "loaded_from env d cs"
      "represents (connection (s_store s')) (materialize i cs ns)" by auto
  have empty: "children_of ns i = []" by (rule unloaded_no_children [OF represents_wf [OF assms(3)] assms(4,5)])
  have xs: "xs = map visible (sort_key si_name (new_inodes i (sqlite (si_id (last ns))) cs))"
    using list_directory_visible [OF assms(6) d(3)] visible_children_materialize [OF empty] by simp
  obtain bs dir where b: "for_bytes (se_sha env) bs = d" "se_decode env bs = Ok dir" "wf_directory dir"
    "decoded_directory_children dir = Ok cs"
    using d(2) by (auto simp: loaded_from_def)
  have "map i_name xs = sort (directory_names dir)"
    using decoded_children_names [OF b(4)] new_inodes_sel(1) by (simp add: xs comp_def map_sort_key)
  with d(1) b xs show ?thesis by blast
qed

theorem listing_matches_remote_witness:
  "\<exists>xs s'. list_directory demo_session_env ROOT demo_session = (Ok xs, s') \<and> map i_name xs = [''a'', ''b'']"
proof -
  obtain xs s' where l: "list_directory demo_session_env ROOT demo_session = (Ok xs, s')"
    using demo_session_listing by blast
  have r: "represents (connection (s_store demo_session)) [root_inode demo_digest]"
    using demo_store_facts(1) by (simp add: demo_session_def)
  from listing_matches_remote [OF demo_session_env_ok demo_session_inv r demo_store_facts(3) _ l] demo_store_facts(5)
  obtain dir where "se_decode demo_session_env [] = Ok dir" "map i_name xs = sort (directory_names dir)"
    by (auto simp: demo_session_env_def)
  with l show ?thesis by (auto simp: demo_session_env_def directory_names_def demo_dir_def)
qed

text \<open>
  Lookup agrees with listing at the facade. After a successful listing of a directory, looking a name
  up in it leaves the stored namespace alone; if it succeeds it returns the listed inode of that name,
  and it reports "not found" only for names that are not listed.
\<close>

theorem lookup_matches_listing:
  assumes "env_ok env" "session_inv env s" "list_directory env i s = (Ok xs, s1)" "lookup_child env i name s1 = (r, s2)"
  shows "s_store s2 = s_store s1 \<and> (\<forall>x. r = Ok x \<longrightarrow> x \<in> set xs \<and> i_name x = name) \<and>
    (\<forall>m. r = Err (NotFound m) \<longrightarrow> name \<notin> set (map i_name xs))"
proof -
  obtain ns where ns: "represents (connection (s_store s)) ns" by (rule session_inv_namespace [OF assms(2)])
  have l: "ensure_directory_loaded env i s = (Ok (), s1)" using list_directory_Ok [OF assms(3)] by blast
  obtain ns1 q1 where n1: "represents (connection (s_store s1)) ns1" and q1: "inode_by_id ns1 i = Some q1"
    "\<not> si_tombstone q1" "si_kind q1 = Directory" "si_directory_loaded q1 = Some True"
    using ensure_directory_loaded_loaded [OF assms(1,2) ns l] by blast
  obtain rl s3 where l3: "ensure_directory_loaded env i s1 = (rl, s3)" by fastforce
  then have "s3 = s2" using assms(4) by (auto simp: lookup_child_def split: sum.splits)
  with ensure_loaded_directory [OF n1 q1 l3] have st: "s_store s2 = s_store s1" and nf: "\<forall>m. rl \<noteq> Err (NotFound m)"
    by simp_all
  have xs: "xs = visible_children ns1 i" by (rule list_directory_visible [OF assms(3) n1])
  show ?thesis
  proof (cases rl)
    case (Inl e)
    with assms(4) l3 nf st show ?thesis by (auto simp: lookup_child_def)
  next
    case (Inr u)
    with lookup_child_Ok [of s2 ns1 env i name s1 r] n1 st assms(4) l3 \<open>s3 = s2\<close> xs show ?thesis by auto
  qed
qed

theorem lookup_matches_listing_witness:
  "\<exists>xs s1 r s2. list_directory demo_session_env ROOT demo_session = (Ok xs, s1) \<and>
     lookup_child demo_session_env ROOT ''a'' s1 = (r, s2) \<and> s_store s2 = s_store s1"
proof -
  obtain xs s1 where l: "list_directory demo_session_env ROOT demo_session = (Ok xs, s1)"
    using demo_session_listing by blast
  obtain r s2 where k: "lookup_child demo_session_env ROOT ''a'' s1 = (r, s2)" by fastforce
  from lookup_matches_listing [OF demo_session_env_ok demo_session_inv l k] l k show ?thesis by blast
qed

text \<open>
  C13 File reads return verified content. A successful range read of a visible file without overlay returns
  the requested slice of a content whose digest is the one stored in the inode, and changes neither the
  namespace nor the session row.
\<close>

theorem file_read_is_slice:
  assumes "env_ok env" "session_inv env s" "full_reads (se_fs env)" "represents (connection (s_store s)) ns"
    and "inode_by_id ns i = Some q" "si_file_overlay_path q = None"
    and "session_read_range env i off sz s = (Ok bs, s')"
  shows "s_store s' = s_store s \<and> (\<exists>content d. si_file_remote_digest q = Some d \<and> for_bytes (se_sha env) content = d \<and>
    (length content < 2 ^ 64 \<longrightarrow> bs = take (unat sz) (drop (unat off) content)))"
  by (rule session_read_slice [OF assms])

theorem file_read_is_slice_witness:
  "\<exists>s s'. session_read_range demo_session_env (InodeId 2) 0 5 s = (Ok [], s') \<and> s_store s' = s_store s"
proof -
  obtain xs s where s: "list_directory demo_session_env ROOT demo_session = (Ok xs, s)"
    "represents (connection (s_store s)) (materialize ROOT demo_nodes [root_inode demo_digest])"
    "\<And>i. store_inode_get demo_env (s_store s) i = Ok (inode_by_id (materialize ROOT demo_nodes [root_inode demo_digest]) i)"
    "s_cache s = s_cache demo_session" "s_poisoned_locks s = {}" "\<not> s_lock_map_poisoned s"
    using demo_session_loaded by blast
  have inv: "session_inv demo_session_env s"
    using session_ops_inv(3) [OF demo_session_env_ok demo_session_inv, of ROOT] s(1) by simp
  let ?q = "inode_of_remote (InodeId 2) (Some ROOT) (hd demo_nodes)"
  have q: "inode_by_id (materialize ROOT demo_nodes [root_inode demo_digest]) (InodeId 2) = Some ?q"
    by (simp add: inode_by_id_def materialize_def mark_loaded_def root_inode_def inode_of_remote_def ROOT_def demo_nodes_def)
  have k: "si_kind ?q = File" "si_file_overlay_path ?q = None" "si_file_remote_digest ?q = Some demo_digest" "\<not> si_tombstone ?q"
    by (simp_all add: inode_of_remote_def demo_nodes_def)
  have hit: "cache_read_range demo_fs_env demo_sha (\<lambda>d p. (Ok (), p)) demo_digest 0 5 (s_cache s) = (Ok ([], False), s_cache s)"
    by (simp add: s(4) cache_read_range_def ensure_cached_def cache_contains_def path_exists_def read_file_range_def
        demo_session_def demo_fs_env_def saturating_sub_u64_def Let_def)
  then have "\<exists>s'. session_read_range demo_session_env (InodeId 2) 0 5 s = (Ok [], s')"
    using s(3,5,6) q k hit
    by (simp add: session_read_range_def inode_lock_def get_visible_inode_def demo_session_env_def)
  then obtain s' where r: "session_read_range demo_session_env (InodeId 2) 0 5 s = (Ok [], s')" by blast
  have "full_reads (se_fs demo_session_env)" using demo_env_ok(2) by (simp add: demo_session_env_def)
  from file_read_is_slice [OF demo_session_env_ok inv this s(2) q k(2) r] r show ?thesis by blast
qed

section \<open>The type of visible inodes\<close>

text \<open>
  What a visible inode looks like: its identities are positive, only the root is its own parent and has no name, a target comes with links and
  only with links, directories have size 0 and files a size that a signed integer holds, the mode has twelve bits and the time is in range.
\<close>

definition inode_typed :: "inode \<Rightarrow> bool" where
  "inode_typed x \<longleftrightarrow> valid_inode_id (i_inode x) \<and> valid_inode_id (i_parent x) \<and>
     (if i_inode x = ROOT then i_parent x = ROOT \<and> i_name x = [] \<and> i_kind x = Directory
      else i_parent x < i_inode x \<and> valid_name (i_name x)) \<and>
     (i_kind x = Symlink \<longleftrightarrow> i_symlink_target x \<noteq> None) \<and> (i_kind x = Directory \<longrightarrow> i_size x = 0) \<and>
     (i_kind x = File \<longrightarrow> uint (i_size x) < 2 ^ 63) \<and> i_mode x \<le> 0xFFF \<and> valid_node_time (i_mtime x)"

lemma visible_typed:
  assumes "wf_namespace ns" "q \<in> set ns"
  shows "inode_typed (visible q)"
proof -
  have wf: "wf_inode q" and parent: "si_parent q = Some p \<Longrightarrow> p < si_id q" for p
    using assms by (auto simp: wf_namespace_def)
  have h: "validate_inode_hierarchy q = Ok ()" "validate_inode_kind q = Ok ()" "pred_option (\<lambda>m. m \<le> 0xFFF) (si_mode q)"
    using wf by (auto simp: wf_inode_def validate_inode_def result_simps not_less split: if_splits option.splits)
  have "uint (word_of_int (size_bytes d) :: u64) = size_bytes d" if "si_file_remote_digest q = Some d" for d
    using wf that by (simp add: wf_inode_def valid_digest_def is_i64_def uint_word_of_int)
  moreover have "size_bytes d < 2 ^ 63" if "si_file_remote_digest q = Some d" for d
    using wf that by (simp add: wf_inode_def valid_digest_def is_i64_def)
  moreover have "valid_node_time UNIX_EPOCH" by (simp add: valid_node_time_def UNIX_EPOCH_def node_time_new_def
        SESSION_MIN_TIMESTAMP_SECONDS_def SESSION_MAX_TIMESTAMP_SECONDS_def)
  moreover have "default_mode k \<le> 0xFFF" for k by (cases k) simp_all
  ultimately show ?thesis
    using wf h parent
    by (cases "si_kind q"; cases "si_parent q"; cases "si_mtime q"; cases "si_mode q"; cases "si_file_remote_digest q")
      (auto simp: inode_typed_def visible_def wf_inode_def validate_inode_hierarchy_def validate_inode_kind_def validate_file_inode_def
        validate_symlink_inode_def validate_directory_inode_def result_simps split: if_splits option.splits)
qed

lemma visible_children_typed:
  assumes "wf_namespace ns" "x \<in> set (visible_children ns i)"
  shows "inode_typed x \<and> i_parent x = i"
proof -
  obtain q where "x = visible q" "q \<in> set ns" "si_parent q = Some i"
    using assms(2) by (auto simp: visible_children_def children_of_def)
  moreover from this(3) have "i_parent (visible q) = i" by (simp add: visible_def)
  ultimately show ?thesis using visible_typed [OF assms(1)] by simp
qed

text \<open>
  C17 Every inode that a session hands out is well typed. What \<^verbatim>\<open>get_inode\<close>, a lookup and a listing return in a session that satisfies
  its invariant are visible inodes of the right shape, and they are what was asked for: the inode of that number, the child of that
  directory with that name, children of that directory.
\<close>

theorem results_typed:
  assumes "env_ok env" "session_inv env s"
  shows "(\<forall>x. get_inode env s i = Ok x \<longrightarrow> inode_typed x \<and> i_inode x = i) \<and>
    (\<forall>x s'. lookup_child env i name s = (Ok x, s') \<longrightarrow> inode_typed x \<and> i_parent x = i \<and> i_name x = name) \<and>
    (\<forall>xs s'. list_directory env i s = (Ok xs, s') \<longrightarrow> (\<forall>x \<in> set xs. inode_typed x \<and> i_parent x = i))"
proof (intro conjI allI impI)
  obtain ns where ns: "represents (connection (s_store s)) ns" by (rule session_inv_namespace [OF assms(2)])
  fix x assume "get_inode env s i = Ok x"
  then obtain q where q: "get_visible_inode env s i = Ok q" "project_inode q = Ok x" by (auto simp: get_inode_def result_simps)
  from get_visible_inode_Ok [OF ns q(1)] have n: "q \<in> set ns" "si_id q = i" by (auto simp: inode_by_id_def dest: find_SomeD)
  then have "x = visible q" using q(2) project_inode_wf wf_namespaceD(4) [OF represents_wf [OF ns]] by auto
  with visible_typed [OF represents_wf [OF ns] n(1)] n(2) show "inode_typed x" "i_inode x = i" by simp_all
next
  fix x s' assume l: "lookup_child env i name s = (Ok x, s')"
  then have e: "ensure_directory_loaded env i s = (Ok (), s')" by (auto simp: lookup_child_def split: prod.splits sum.splits)
  have "session_inv env s'" using session_ops_inv(2) [OF assms, of i name] l by simp
  then obtain ns where ns: "represents (connection (s_store s')) ns" by (rule session_inv_namespace)
  from lookup_child_Ok [OF ns l e] visible_children_typed [OF represents_wf [OF ns]]
  show "inode_typed x" "i_parent x = i" "i_name x = name" by blast+
next
  fix xs s' assume l: "list_directory env i s = (Ok xs, s')"
  have "session_inv env s'" using session_ops_inv(3) [OF assms, of i] l by simp
  then obtain ns where ns: "represents (connection (s_store s')) ns" by (rule session_inv_namespace)
  from list_directory_visible [OF l ns] visible_children_typed [OF represents_wf [OF ns]]
  show "\<forall>x \<in> set xs. inode_typed x \<and> i_parent x = i" by blast
qed

theorem results_typed_witness:
  "\<exists>xs s'. list_directory demo_session_env ROOT demo_session = (Ok xs, s') \<and> (\<forall>x \<in> set xs. inode_typed x \<and> i_parent x = ROOT)"
  using demo_session_listing results_typed [OF demo_session_env_ok demo_session_inv, of ROOT] by blast

end
