(* ===== verification/Fuse.thy ===== *)
theory Fuse
  imports Session
begin

text \<open>
  The daemon's filesystem policy (\<^verbatim>\<open>crates/rfsd/src/filesystem.rs\<close>) and its FUSE adapter
  (\<^verbatim>\<open>crates/rfsd/src/fuse.rs\<close>): session errors become filesystem errors and then errno values, visible inodes
  become attributes, listings become pages of directory entries, and every request that would change the
  file system is refused. The handlers of the \<^verbatim>\<open>Filesystem\<close> trait are functions from the adapter's state to a
  reply and the next state. The reply buffer of \<^verbatim>\<open>fuser\<close> is the parameter \<open>fits\<close>: whether one more entry fits
  behind those already in the buffer.
\<close>

section \<open>Errors\<close>

datatype filesystem_error =
    FsInternalError string
  | FsFailedPreconditionError string
  | FsNotFound string
  | FsNotDirectory string
  | FsIsDirectory string
  | FsInvalidArgument string
  | FsInvalidInode inode_id string
  | FsContext string filesystem_error

fun filesystem_error_from :: "session_error \<Rightarrow> filesystem_error" where
  "filesystem_error_from (InternalError reason) = FsInternalError reason"
| "filesystem_error_from (FailedPreconditionError reason) = FsFailedPreconditionError reason"
| "filesystem_error_from (NotFound reason) = FsNotFound reason"
| "filesystem_error_from (NotDirectory reason) = FsNotDirectory reason"
| "filesystem_error_from (IsDirectory reason) = FsIsDirectory reason"
| "filesystem_error_from (Database operation path source) = FsInternalError operation"
| "filesystem_error_from (Context operation source) = FsContext operation (filesystem_error_from source)"

text \<open>The values of \<^verbatim>\<open>libc\<close> on Linux.\<close>

type_synonym errno = int

definition ENOENT :: errno where "ENOENT = 2"
definition EIO :: errno where "EIO = 5"
definition ENOTDIR :: errno where "ENOTDIR = 20"
definition EISDIR :: errno where "EISDIR = 21"
definition EINVAL :: errno where "EINVAL = 22"
definition EROFS :: errno where "EROFS = 30"

fun errno_for_error :: "filesystem_error \<Rightarrow> errno" where
  "errno_for_error (FsContext _ source) = errno_for_error source"
| "errno_for_error (FsNotFound _) = ENOENT"
| "errno_for_error (FsNotDirectory _) = ENOTDIR"
| "errno_for_error (FsIsDirectory _) = EISDIR"
| "errno_for_error (FsInvalidArgument _) = EINVAL"
| "errno_for_error (FsInternalError _) = EIO"
| "errno_for_error (FsFailedPreconditionError _) = EIO"
| "errno_for_error (FsInvalidInode _ _) = EIO"

section \<open>The filesystem service\<close>

definition fs_result :: "string \<Rightarrow> ('a, session_error) result \<Rightarrow> ('a, filesystem_error) result" where
  "fs_result operation r = result_context FsContext operation (map_err filesystem_error_from r)"

definition lookup_dir_child ::
  "session_env \<Rightarrow> inode_id \<Rightarrow> string \<Rightarrow> session \<Rightarrow> (inode, filesystem_error) result \<times> session" where
  "lookup_dir_child env dir child s =
     (case lookup_child env dir child s of (r, s') \<Rightarrow> (fs_result ''look up child in directory inode'' r, s'))"

definition fs_readdir ::
  "session_env \<Rightarrow> inode_id \<Rightarrow> session \<Rightarrow> (inode list, filesystem_error) result \<times> session" where
  "fs_readdir env i s =
     (case list_directory env i s of (r, s') \<Rightarrow> (fs_result ''read directory inode'' r, s'))"

definition fs_getattr :: "session_env \<Rightarrow> inode_id \<Rightarrow> session \<Rightarrow> (inode, filesystem_error) result" where
  "fs_getattr env i s = fs_result ''read attributes for inode'' (get_inode env s i)"

definition fs_readlink :: "session_env \<Rightarrow> inode_id \<Rightarrow> session \<Rightarrow> (string, filesystem_error) result" where
  "fs_readlink env i s =
     and_then (fs_getattr env i s) (\<lambda>node.
       if i_kind node \<noteq> Symlink then Err (FsInvalidArgument ''read symlink inode'')
       else ok_or (i_symlink_target node) (FsInvalidInode i ''symlink has no target''))"

definition fs_read ::
  "session_env \<Rightarrow> inode_id \<Rightarrow> u64 \<Rightarrow> usize \<Rightarrow> session \<Rightarrow> (bytes, filesystem_error) result \<times> session" where
  "fs_read env i offset sz s =
     (case session_read_range env i offset sz s of (r, s') \<Rightarrow> (fs_result ''read bytes from inode'' r, s'))"

definition fs_counters :: "session \<Rightarrow> io_counters" where
  "fs_counters s = session_io_counters s"

definition filesystem_new :: "session_env \<Rightarrow> session \<Rightarrow> (unit, filesystem_error) result \<times> session" where
  "filesystem_new env s =
     (case fs_readdir env ROOT s of
        (r, s') \<Rightarrow> (map_ok (\<lambda>_. ()) (result_context FsContext ''load mounted root directory'' r), s'))"

section \<open>Attributes\<close>

datatype file_type = RegularFile | DirectoryType | SymlinkType

fun file_type_of :: "node_kind \<Rightarrow> file_type" where
  "file_type_of File = RegularFile"
| "file_type_of Directory = DirectoryType"
| "file_type_of Symlink = SymlinkType"

text \<open>
  A \<^verbatim>\<open>SystemTime\<close> is its distance from the epoch in nanoseconds, a \<^verbatim>\<open>Duration\<close> a number of nanoseconds.
  \<^verbatim>\<open>unsigned_abs\<close> of a negative \<^verbatim>\<open>i64\<close> is at least one, so the subtraction below does not wrap.
\<close>

definition duration_new :: "u64 \<Rightarrow> u32 \<Rightarrow> int" where
  "duration_new seconds nanos = uint seconds * 1000000000 + uint nanos"

definition timestamp_to_system_time :: "node_time \<Rightarrow> int" where
  "timestamp_to_system_time t =
     (if nt_seconds t \<ge> 0 then 0 + duration_new (word_of_int (nt_seconds t)) (nt_nanos t)
      else if nt_nanos t = 0 then 0 - duration_new (word_of_int \<bar>nt_seconds t\<bar>) 0
      else 0 - duration_new (word_of_int \<bar>nt_seconds t\<bar> - 1) (1000000000 - nt_nanos t))"

definition permission_bits :: "inode \<Rightarrow> u16" where
  "permission_bits node = (case u16_try_from_u32 (i_mode node AND 0xFFF) of None \<Rightarrow> 0 | Some p \<Rightarrow> p)"

record file_attr =
  fa_ino :: u64
  fa_size :: u64
  fa_blocks :: u64
  fa_atime :: int
  fa_mtime :: int
  fa_ctime :: int
  fa_crtime :: int
  fa_kind :: file_type
  fa_perm :: u16
  fa_nlink :: u32
  fa_uid :: u32
  fa_gid :: u32
  fa_rdev :: u32
  fa_blksize :: u32
  fa_flags :: u32

text \<open>\<^verbatim>\<open>u64::div_ceil\<close>.\<close>

definition div_ceil :: "u64 \<Rightarrow> u64 \<Rightarrow> u64" where
  "div_ceil a b = (if a mod b > 0 then a div b + 1 else a div b)"

text \<open>\<open>owner\<close> is the effective user and group of the daemon.\<close>

definition file_attr_of :: "u32 \<times> u32 \<Rightarrow> inode \<Rightarrow> file_attr" where
  "file_attr_of owner node =
     (let mtime = timestamp_to_system_time (i_mtime node)
      in \<lparr>fa_ino = inode_get (i_inode node), fa_size = i_size node, fa_blocks = div_ceil (i_size node) 512,
          fa_atime = mtime, fa_mtime = mtime, fa_ctime = mtime, fa_crtime = mtime,
          fa_kind = file_type_of (i_kind node), fa_perm = permission_bits node,
          fa_nlink = (if i_kind node = Directory then 2 else 1),
          fa_uid = fst owner, fa_gid = snd owner, fa_rdev = 0, fa_blksize = 4096, fa_flags = 0\<rparr>)"

section \<open>The adapter\<close>

text \<open>\<open>ad_ready\<close>: the channel that tells \<^verbatim>\<open>mount\<close> of the kernel's initialisation is still to be used.\<close>

record fuse_adapter =
  ad_session :: session
  ad_ready :: bool

record fuse_env =
  fe_session :: session_env
  fe_owner :: "u32 \<times> u32"

type_synonym dir_entry = "u64 \<times> int \<times> file_type \<times> string"

datatype fuse_reply =
    ReplyEntry file_attr
  | ReplyAttr file_attr
  | ReplyDirectory "dir_entry list"
  | ReplyOpened
  | ReplyData bytes
  | ReplyOk
  | ReplyError errno

definition adapter_node :: "fuse_env \<Rightarrow> u64 \<Rightarrow> session \<Rightarrow> (inode, errno) result" where
  "adapter_node fe i s =
     and_then (map_err (\<lambda>_. EINVAL) (inode_new i)) (\<lambda>i.
       map_err errno_for_error (fs_getattr (fe_session fe) i s))"

text \<open>\<open>name\<close> is \<^verbatim>\<open>OsStr::to_str\<close> of the requested name: \<open>None\<close> when it is not UTF-8.\<close>

definition lookup_node ::
  "fuse_env \<Rightarrow> u64 \<Rightarrow> string option \<Rightarrow> session \<Rightarrow> (inode, errno) result \<times> session" where
  "lookup_node fe parent name s =
     (case name of
        None \<Rightarrow> (Err ENOENT, s)
      | Some name \<Rightarrow>
          (case inode_new parent of
             Inl _ \<Rightarrow> (Err EINVAL, s)
           | Inr parent \<Rightarrow>
               (case lookup_dir_child (fe_session fe) parent name s of
                  (r, s') \<Rightarrow> (map_err errno_for_error r, s'))))"

text \<open>
  \<^verbatim>\<open>enumerate\<close> and \<^verbatim>\<open>skip\<close>: the entries from \<open>start\<close> on, each with the index after its own, capped at the largest \<^verbatim>\<open>i64\<close>.
\<close>

definition numbered :: "nat \<Rightarrow> (u64 \<times> file_type \<times> string) list \<Rightarrow> dir_entry list" where
  "numbered start entries =
     map (\<lambda>(index, i, kind, name). (i, min (int (index + 1)) i64_max, kind, name)) (drop start (enumerate 0 entries))"

definition all_entries :: "u64 \<Rightarrow> inode \<Rightarrow> inode list \<Rightarrow> (u64 \<times> file_type \<times> string) list" where
  "all_entries i node children =
     [(i, DirectoryType, ''.''), (inode_get (i_parent node), DirectoryType, ''..'')] @
     map (\<lambda>c. (inode_get (i_inode c), file_type_of (i_kind c), i_name c)) children"

definition directory_entries ::
  "fuse_env \<Rightarrow> u64 \<Rightarrow> int \<Rightarrow> session \<Rightarrow> (dir_entry list, errno) result \<times> session" where
  "directory_entries fe i offset s =
     (if offset < 0 then (Err EINVAL, s)
      else
        (case adapter_node fe i s of
           Inl e \<Rightarrow> (Err e, s)
         | Inr node \<Rightarrow>
             if i_kind node \<noteq> Directory then (Err ENOTDIR, s)
             else
               (case fs_readdir (fe_session fe) (i_inode node) s of
                  (Inl e, s') \<Rightarrow> (Err (errno_for_error e), s')
                | (Inr children, s') \<Rightarrow> (Ok (numbered (nat offset) (all_entries i node children)), s'))))"

definition O_ACCMODE :: u32 where "O_ACCMODE = 3"
definition O_RDONLY :: u32 where "O_RDONLY = 0"
definition O_APPEND :: u32 where "O_APPEND = 0x400"
definition O_TRUNC :: u32 where "O_TRUNC = 0x200"

definition open_file :: "fuse_env \<Rightarrow> u64 \<Rightarrow> u32 \<Rightarrow> session \<Rightarrow> (unit, errno) result" where
  "open_file fe i flags s =
     (if flags AND O_ACCMODE \<noteq> O_RDONLY \<or> flags AND (O_APPEND OR O_TRUNC) \<noteq> 0 then Err EROFS
      else and_then (adapter_node fe i s) (\<lambda>node.
        case i_kind node of File \<Rightarrow> Ok () | Directory \<Rightarrow> Err EISDIR | Symlink \<Rightarrow> Err EINVAL))"

definition read_bytes ::
  "fuse_env \<Rightarrow> u64 \<Rightarrow> int \<Rightarrow> u32 \<Rightarrow> session \<Rightarrow> (bytes, errno) result \<times> session" where
  "read_bytes fe i offset sz s =
     (case u64_try_from_i64 offset of
        None \<Rightarrow> (Err EINVAL, s)
      | Some offset \<Rightarrow>
          (case inode_new i of
             Inl _ \<Rightarrow> (Err EINVAL, s)
           | Inr i \<Rightarrow>
               (case fs_read (fe_session fe) i offset (ucast sz) s of
                  (r, s') \<Rightarrow> (map_err errno_for_error r, s'))))"

section \<open>The handlers\<close>

definition reply_with :: "('a \<Rightarrow> fuse_reply) \<Rightarrow> ('a, errno) result \<Rightarrow> fuse_reply" where
  "reply_with f r = (case r of Inl e \<Rightarrow> ReplyError e | Inr x \<Rightarrow> f x)"

definition fuse_init :: "fuse_adapter \<Rightarrow> fuse_reply \<times> fuse_adapter" where
  "fuse_init a = (ReplyOk, a\<lparr>ad_ready := False\<rparr>)"

definition fuse_lookup :: "fuse_env \<Rightarrow> u64 \<Rightarrow> string option \<Rightarrow> fuse_adapter \<Rightarrow> fuse_reply \<times> fuse_adapter" where
  "fuse_lookup fe parent name a =
     (case lookup_node fe parent name (ad_session a) of
        (r, s) \<Rightarrow> (reply_with (\<lambda>node. ReplyEntry (file_attr_of (fe_owner fe) node)) r, a\<lparr>ad_session := s\<rparr>))"

definition fuse_getattr :: "fuse_env \<Rightarrow> u64 \<Rightarrow> fuse_adapter \<Rightarrow> fuse_reply \<times> fuse_adapter" where
  "fuse_getattr fe i a =
     (reply_with (\<lambda>node. ReplyAttr (file_attr_of (fe_owner fe) node)) (adapter_node fe i (ad_session a)), a)"

fun fill_reply :: "(dir_entry list \<Rightarrow> dir_entry \<Rightarrow> bool) \<Rightarrow> dir_entry list \<Rightarrow> dir_entry list \<Rightarrow> dir_entry list" where
  "fill_reply fits buffer [] = buffer"
| "fill_reply fits buffer (e # es) = (if fits buffer e then fill_reply fits (buffer @ [e]) es else buffer)"

definition fuse_readdir ::
  "fuse_env \<Rightarrow> (dir_entry list \<Rightarrow> dir_entry \<Rightarrow> bool) \<Rightarrow> u64 \<Rightarrow> int \<Rightarrow> fuse_adapter \<Rightarrow> fuse_reply \<times> fuse_adapter" where
  "fuse_readdir fe fits i offset a =
     (case directory_entries fe i offset (ad_session a) of
        (r, s) \<Rightarrow> (reply_with (\<lambda>es. ReplyDirectory (fill_reply fits [] es)) r, a\<lparr>ad_session := s\<rparr>))"

definition fuse_open :: "fuse_env \<Rightarrow> u64 \<Rightarrow> u32 \<Rightarrow> fuse_adapter \<Rightarrow> fuse_reply \<times> fuse_adapter" where
  "fuse_open fe i flags a = (reply_with (\<lambda>_. ReplyOpened) (open_file fe i flags (ad_session a)), a)"

definition fuse_read :: "fuse_env \<Rightarrow> u64 \<Rightarrow> int \<Rightarrow> u32 \<Rightarrow> fuse_adapter \<Rightarrow> fuse_reply \<times> fuse_adapter" where
  "fuse_read fe i offset sz a =
     (case read_bytes fe i offset sz (ad_session a) of (r, s) \<Rightarrow> (reply_with ReplyData r, a\<lparr>ad_session := s\<rparr>))"

text \<open>\<^verbatim>\<open>str::as_bytes\<close>.\<close>

definition as_bytes :: "string \<Rightarrow> bytes" where
  "as_bytes s = map of_char s"

definition fuse_readlink :: "fuse_env \<Rightarrow> u64 \<Rightarrow> fuse_adapter \<Rightarrow> fuse_reply \<times> fuse_adapter" where
  "fuse_readlink fe i a =
     (case inode_new i of
        Inl _ \<Rightarrow> (ReplyError EINVAL, a)
      | Inr i \<Rightarrow>
          (reply_with (\<lambda>target. ReplyData (as_bytes target))
             (map_err errno_for_error (fs_readlink (fe_session fe) i (ad_session a))), a))"

text \<open>The handlers that would change the file system, with the arguments they ignore left out.\<close>

definition fuse_setattr :: "fuse_adapter \<Rightarrow> fuse_reply \<times> fuse_adapter" where
  "fuse_setattr a = (ReplyError EROFS, a)"
definition fuse_write :: "fuse_adapter \<Rightarrow> fuse_reply \<times> fuse_adapter" where
  "fuse_write a = (ReplyError EROFS, a)"
definition fuse_mknod :: "fuse_adapter \<Rightarrow> fuse_reply \<times> fuse_adapter" where
  "fuse_mknod a = (ReplyError EROFS, a)"
definition fuse_mkdir :: "fuse_adapter \<Rightarrow> fuse_reply \<times> fuse_adapter" where
  "fuse_mkdir a = (ReplyError EROFS, a)"
definition fuse_unlink :: "fuse_adapter \<Rightarrow> fuse_reply \<times> fuse_adapter" where
  "fuse_unlink a = (ReplyError EROFS, a)"
definition fuse_rmdir :: "fuse_adapter \<Rightarrow> fuse_reply \<times> fuse_adapter" where
  "fuse_rmdir a = (ReplyError EROFS, a)"
definition fuse_symlink :: "fuse_adapter \<Rightarrow> fuse_reply \<times> fuse_adapter" where
  "fuse_symlink a = (ReplyError EROFS, a)"
definition fuse_rename :: "fuse_adapter \<Rightarrow> fuse_reply \<times> fuse_adapter" where
  "fuse_rename a = (ReplyError EROFS, a)"
definition fuse_link :: "fuse_adapter \<Rightarrow> fuse_reply \<times> fuse_adapter" where
  "fuse_link a = (ReplyError EROFS, a)"
definition fuse_create :: "fuse_adapter \<Rightarrow> fuse_reply \<times> fuse_adapter" where
  "fuse_create a = (ReplyError EROFS, a)"

text \<open>One request of the kernel.\<close>

datatype fuse_request =
    Init | Lookup u64 "string option" | Getattr u64 | Readdir "dir_entry list \<Rightarrow> dir_entry \<Rightarrow> bool" u64 int
  | Open u64 u32 | Read u64 int u32 | Readlink u64
  | Setattr | Write | Mknod | Mkdir | Unlink | Rmdir | SymlinkRequest | Rename | Link | Create

fun handle :: "fuse_env \<Rightarrow> fuse_request \<Rightarrow> fuse_adapter \<Rightarrow> fuse_reply \<times> fuse_adapter" where
  "handle fe Init a = fuse_init a"
| "handle fe (Lookup parent name) a = fuse_lookup fe parent name a"
| "handle fe (Getattr i) a = fuse_getattr fe i a"
| "handle fe (Readdir fits i offset) a = fuse_readdir fe fits i offset a"
| "handle fe (Open i flags) a = fuse_open fe i flags a"
| "handle fe (Read i offset sz) a = fuse_read fe i offset sz a"
| "handle fe (Readlink i) a = fuse_readlink fe i a"
| "handle fe Setattr a = fuse_setattr a"
| "handle fe Write a = fuse_write a"
| "handle fe Mknod a = fuse_mknod a"
| "handle fe Mkdir a = fuse_mkdir a"
| "handle fe Unlink a = fuse_unlink a"
| "handle fe Rmdir a = fuse_rmdir a"
| "handle fe SymlinkRequest a = fuse_symlink a"
| "handle fe Rename a = fuse_rename a"
| "handle fe Link a = fuse_link a"
| "handle fe Create a = fuse_create a"

text \<open>
  \<^verbatim>\<open>FuseMount::mount\<close>: \<open>spawn\<close> is the result of \<^verbatim>\<open>fuser::spawn_mount2\<close>, \<open>initialised\<close> whether the kernel's
  initialisation arrived within ten seconds.
\<close>

definition fuse_mount :: "(unit, io_error) result \<Rightarrow> bool \<Rightarrow> session \<Rightarrow> (fuse_adapter, io_error) result" where
  "fuse_mount spawn initialised s =
     and_then spawn (\<lambda>_.
       if initialised then Ok \<lparr>ad_session = s, ad_ready = False\<rparr>
       else Err (IoOther ''kernel did not initialize FUSE mount''))"


section \<open>Error numbers\<close>

interpretation fs_ctx: result_context_error FsContext errno_for_error
  by unfold_locales simp

lemma errno_fs_result:
  "map_err errno_for_error (fs_result operation r) = map_err (\<lambda>e. errno_for_error (filesystem_error_from e)) r"
  unfolding fs_result_def fs_ctx.map_observe_context by (simp add: comp_def)

lemma errno_root_cause:
  "errno_for_error (filesystem_error_from (session_root_cause e)) = errno_for_error (filesystem_error_from e)"
  by (induction e rule: session_root_cause.induct) simp_all

definition posix_errnos :: "errno set" where
  "posix_errnos = {ENOENT, EIO, ENOTDIR, EISDIR, EINVAL, EROFS}"

lemma errno_posix [simp, intro]: "errno_for_error e \<in> posix_errnos"
  by (induction e rule: errno_for_error.induct) (simp_all add: posix_errnos_def)

lemma posix_errnos_mem [simp]: "ENOENT \<in> posix_errnos" "EIO \<in> posix_errnos" "ENOTDIR \<in> posix_errnos"
  "EISDIR \<in> posix_errnos" "EINVAL \<in> posix_errnos" "EROFS \<in> posix_errnos"
  by (simp_all add: posix_errnos_def)

lemma fs_result_eq_Ok [result_simps]: "fs_result operation r = Ok x \<longleftrightarrow> r = Ok x"
  by (simp add: fs_result_def result_simps)

lemma map_err_errno: "map_err errno_for_error r = Err e \<Longrightarrow> e \<in> posix_errnos"
  by (cases r) auto

lemma adapter_node_errno: "adapter_node fe i s = Err e \<Longrightarrow> e \<in> posix_errnos"
  by (auto simp: adapter_node_def and_then_eq_Err dest: map_err_errno) (auto simp: map_err_def split: sum.splits)

lemma adapter_node_Ok:
  assumes "adapter_node fe w s = Ok node" "represents (connection (s_store s)) ns"
  shows "\<exists>i q. inode_new w = Ok i \<and> inode_by_id ns i = Some q \<and> \<not> si_tombstone q \<and> node = visible q \<and> wf_inode q"
proof -
  obtain i where i: "inode_new w = Ok i" "get_inode (fe_session fe) s i = Ok node"
    using assms(1) by (auto simp: adapter_node_def fs_getattr_def result_simps)
  then obtain q where q: "get_visible_inode (fe_session fe) s i = Ok q" "project_inode q = Ok node"
    by (auto simp: get_inode_def result_simps)
  note v = get_visible_inode_Ok [OF assms(2) q(1)]
  then have "wf_inode q" using represents_wf [OF assms(2)] wf_namespaceD(4) by (auto simp: inode_by_id_def dest: find_SomeD)
  with project_inode_wf q(2) i(1) v show ?thesis by auto
qed

section \<open>What a request may change\<close>

lemma handlers_session:
  "ad_session (snd (fuse_lookup fe parent name a)) \<in> {ad_session a} \<union>
     {s'. \<exists>i n. s' = snd (lookup_child (fe_session fe) i n (ad_session a))}"
  "ad_session (snd (fuse_readdir fe fits w off a)) \<in> {ad_session a} \<union>
     {s'. \<exists>i. s' = snd (list_directory (fe_session fe) i (ad_session a))}"
  "ad_session (snd (fuse_read fe w off sz a)) \<in> {ad_session a} \<union>
     {s'. \<exists>i k. s' = snd (session_read_range (fe_session fe) i k (ucast sz) (ad_session a))}"
  by (auto simp: fuse_lookup_def lookup_node_def lookup_dir_child_def fuse_readdir_def directory_entries_def fs_readdir_def
      fuse_read_def read_bytes_def fs_read_def split: option.splits sum.splits prod.splits; metis snd_conv)+

text \<open>The requests other than lookups, listings and reads do not touch the session at all.\<close>

lemma handle_same_session:
  assumes "\<forall>parent name. req \<noteq> Lookup parent name" "\<forall>fits w off. req \<noteq> Readdir fits w off" "\<forall>w off sz. req \<noteq> Read w off sz"
  shows "ad_session (snd (handle fe req a)) = ad_session a"
  using assms
  by (cases req) (auto simp: fuse_init_def fuse_getattr_def fuse_open_def fuse_readlink_def fuse_setattr_def fuse_write_def
    fuse_mknod_def fuse_mkdir_def fuse_unlink_def fuse_rmdir_def fuse_symlink_def fuse_rename_def fuse_link_def fuse_create_def
    split: sum.splits)

lemma handle_inv:
  assumes "env_ok (fe_session fe)" "session_inv (fe_session fe) (ad_session a)"
  shows "session_inv (fe_session fe) (ad_session (snd (handle fe req a)))"
proof (cases req)
  case (Lookup parent name)
  then show ?thesis using handlers_session(1) [of fe parent name a] session_ops_inv(2) [OF assms] assms(2) by auto
next
  case (Readdir fits w off)
  then show ?thesis using handlers_session(2) [of fe fits w off a] session_ops_inv(3) [OF assms] assms(2) by auto
next
  case (Read w off sz)
  then show ?thesis using handlers_session(3) [of fe w off sz a] session_ops_inv(4) [OF assms] assms(2) by auto
qed (use handle_same_session [of req fe a] assms(2) in \<open>auto simp del: handle.simps\<close>)


lemma mark_loaded_more [simp]:
  "si_tombstone (mark_loaded i q) = si_tombstone q" "si_file_overlay_path (mark_loaded i q) = si_file_overlay_path q"
  "si_directory_remote_digest (mark_loaded i q) = si_directory_remote_digest q"
  by (simp_all add: mark_loaded_def)

lemma fetch_children_store: "fetch_children env d s = (r, s') \<Longrightarrow> s_store s' = s_store s"
  by (auto simp: fetch_children_def split: prod.splits sum.splits)

lemma get_or_create_Err: "get_or_create_remote_dir_children env i cs st = (Err e, st') \<Longrightarrow> st' = st"
  by (auto simp: get_or_create_remote_dir_children_def dest: with_transaction_Err)

lemma ensure_directory_loaded_Err:
  assumes "ensure_directory_loaded env i s = (Err e, s')"
  shows "s_store s' = s_store s"
proof -
  have "s_store s'' = s_store t" if "load_remote_directory env i d t = (Err e, s'')" for d t s''
    using that by (auto simp: load_remote_directory_def dest!: fetch_children_store get_or_create_Err split: prod.splits sum.splits)
  with assms show ?thesis
    by (auto simp: ensure_directory_loaded_def inode_lock_def split: prod.splits sum.splits if_splits option.splits)
qed

text \<open>
  What a read-only request may do to the namespace of inodes: every inode keeps what is visible of it, a directory that was loaded keeps its
  children, and what is new are children of a directory that was not loaded.
\<close>

definition keeps_visible :: "store_inode list \<Rightarrow> store_inode list \<Rightarrow> bool" where
  "keeps_visible ns ns' \<longleftrightarrow>
     (\<forall>i q. inode_by_id ns i = Some q \<longrightarrow>
        (\<exists>q'. inode_by_id ns' i = Some q' \<and> visible q' = visible q \<and> si_tombstone q' = si_tombstone q)) \<and>
     (\<forall>i q. inode_by_id ns i = Some q \<and> si_directory_loaded q = Some True \<longrightarrow> visible_children ns' i = visible_children ns i) \<and>
     (\<forall>i q'. inode_by_id ns' i = Some q' \<and> inode_by_id ns i = None \<longrightarrow>
        (\<exists>p q. si_parent q' = Some p \<and> inode_by_id ns p = Some q \<and> si_kind q = Directory \<and> si_directory_loaded q \<noteq> Some True))"

lemma keeps_visible_refl [simp]: "keeps_visible ns ns"
  by (auto simp: keeps_visible_def)

lemma inode_by_id_materialize_Some:
  "inode_by_id ns j = Some q \<Longrightarrow> inode_by_id (materialize i cs ns) j = Some (mark_loaded i q)"
  by (induction ns) (auto simp: inode_by_id_def materialize_def split: if_splits)

lemma inode_by_id_materialize_None:
  assumes "inode_by_id ns j = None" "inode_by_id (materialize i cs ns) j = Some q'"
  shows "si_parent q' = Some i"
proof -
  have "q' \<in> set (new_inodes i (sqlite (si_id (last ns))) cs)"
    using assms by (fastforce simp: inode_by_id_def materialize_def find_None_iff dest!: find_SomeD)
  then show ?thesis by (rule new_inodes_sel(2))
qed

lemma visible_mark_loaded [simp]: "visible (mark_loaded i q) = visible q"
  by (simp add: visible_def mark_loaded_def split: option.splits)

lemma visible_children_materialize_other:
  assumes "j \<noteq> i"
  shows "visible_children (materialize i cs ns) j = visible_children ns j"
proof -
  have "filter (\<lambda>n. si_parent n = Some j) (materialize i cs ns) = map (mark_loaded i) (filter (\<lambda>n. si_parent n = Some j) ns)"
    using assms by (auto simp: materialize_def filter_map comp_def filter_empty_conv dest: new_inodes_sel(2))
  then show ?thesis
    by (simp add: visible_children_def children_of_def sort_key_map comp_def filter_map)
qed

lemma keeps_visible_materialize:
  assumes "inode_by_id ns i = Some q" "si_kind q = Directory" "si_directory_loaded q \<noteq> Some True"
  shows "keeps_visible ns (materialize i cs ns)"
  unfolding keeps_visible_def
proof (intro conjI allI impI)
  fix j p assume "inode_by_id ns j = Some p"
  then show "\<exists>q'. inode_by_id (materialize i cs ns) j = Some q' \<and> visible q' = visible p \<and> si_tombstone q' = si_tombstone p"
    by (simp add: inode_by_id_materialize_Some)
next
  fix j p assume "inode_by_id ns j = Some p \<and> si_directory_loaded p = Some True"
  with assms(1,3) have "j \<noteq> i" by auto
  then show "visible_children (materialize i cs ns) j = visible_children ns j" by (rule visible_children_materialize_other)
next
  fix j q' assume "inode_by_id (materialize i cs ns) j = Some q' \<and> inode_by_id ns j = None"
  then have "si_parent q' = Some i" using inode_by_id_materialize_None by blast
  with assms show "\<exists>p q. si_parent q' = Some p \<and> inode_by_id ns p = Some q \<and> si_kind q = Directory \<and> si_directory_loaded q \<noteq> Some True"
    by blast
qed

lemma load_keeps_visible:
  assumes "env_ok env" "session_inv env s" "represents (connection (s_store s)) ns"
  shows "\<exists>ns'. represents (connection (s_store (snd (ensure_directory_loaded env i s)))) ns' \<and> keeps_visible ns ns'"
proof -
  obtain r s' where run: "ensure_directory_loaded env i s = (r, s')" by fastforce
  show ?thesis
  proof (cases r)
    case (Inl e)
    with run ensure_directory_loaded_Err [of env i s e s'] assms(3) show ?thesis by (intro exI [of _ ns]) simp
  next
    case (Inr u)
    with ensure_directory_loaded_effect [OF assms run] obtain q where q: "inode_by_id ns i = Some q" "si_kind q = Directory"
      "if si_directory_loaded q = Some True then s_store s' = s_store s \<and> s_counters s' = s_counters s
       else \<exists>d cs dl. si_directory_remote_digest q = Some d \<and> loaded_from env d cs \<and> validate_remote_children cs = Ok () \<and>
         represents (connection (s_store s')) (materialize i cs ns) \<and> s_counters s' = s_counters (record_directory_read dl s)" by auto
    with run assms(3) keeps_visible_materialize [OF q(1,2)] show ?thesis by (auto split: if_splits)
  qed
qed

lemma ops_keep_visible:
  assumes "env_ok env" "session_inv env s" "represents (connection (s_store s)) ns"
  shows "\<exists>ns'. represents (connection (s_store (snd (lookup_child env i name s)))) ns' \<and> keeps_visible ns ns'"
    "\<exists>ns'. represents (connection (s_store (snd (list_directory env i s)))) ns' \<and> keeps_visible ns ns'"
    "\<exists>ns'. represents (connection (s_store (snd (session_read_range env i off sz s)))) ns' \<and> keeps_visible ns ns'"
proof -
  have "snd (lookup_child env i name s) = snd (ensure_directory_loaded env i s)"
    "snd (list_directory env i s) = snd (ensure_directory_loaded env i s)"
    by (simp_all add: lookup_child_def list_directory_def split: prod.splits sum.splits)
  with load_keeps_visible [OF assms]
  show "\<exists>ns'. represents (connection (s_store (snd (lookup_child env i name s)))) ns' \<and> keeps_visible ns ns'"
    "\<exists>ns'. represents (connection (s_store (snd (list_directory env i s)))) ns' \<and> keeps_visible ns ns'" by simp_all
  have "s_store (snd (session_read_range env i off sz s)) = s_store s"
    using session_read_range_effect [OF assms, of i off sz] by (metis prod.collapse)
  with assms(3) show "\<exists>ns'. represents (connection (s_store (snd (session_read_range env i off sz s)))) ns' \<and> keeps_visible ns ns'"
    by (intro exI [of _ ns]) simp
qed

lemma handle_keeps_visible:
  assumes "env_ok (fe_session fe)" "session_inv (fe_session fe) (ad_session a)" "represents (connection (s_store (ad_session a))) ns"
  shows "\<exists>ns'. represents (connection (s_store (ad_session (snd (handle fe req a))))) ns' \<and> keeps_visible ns ns'"
proof -
  have same: "\<exists>ns'. represents (connection (s_store s')) ns' \<and> keeps_visible ns ns'" if "s' = ad_session a" for s'
    using assms(3) that by (intro exI [of _ ns]) simp
  note ops = ops_keep_visible [OF assms]
  show ?thesis
  proof (cases req)
    case (Lookup parent name)
    then show ?thesis using handlers_session(1) [of fe parent name a] ops(1) same by auto
  next
    case (Readdir fits w off)
    then show ?thesis using handlers_session(2) [of fe fits w off a] ops(2) same by auto
  next
    case (Read w off sz)
    then show ?thesis using handlers_session(3) [of fe w off sz a] ops(3) same by auto
  qed (use handle_same_session [of req fe a] in \<open>auto intro!: same simp del: handle.simps\<close>)
qed

lemma reply_with_error: "reply_with f r = ReplyError e \<longleftrightarrow> r = Err e \<or> (\<exists>x. r = Ok x \<and> f x = ReplyError e)"
  by (auto simp: reply_with_def split: sum.splits)

lemma directory_entries_errno: "directory_entries fe w off s = (Err e, s') \<Longrightarrow> e \<in> posix_errnos"
  by (auto simp: directory_entries_def dest: adapter_node_errno split: if_splits sum.splits prod.splits)

lemma open_file_errno: "open_file fe w flags s = Err e \<Longrightarrow> e \<in> posix_errnos"
  by (auto simp: open_file_def and_then_eq_Err dest: adapter_node_errno split: if_splits node_kind.splits)
    (metis node_kind.exhaust)

lemma lookup_read_errno:
  "lookup_node fe parent name s = (Err e, s') \<Longrightarrow> e \<in> posix_errnos"
  "read_bytes fe w off sz s = (Err e, s') \<Longrightarrow> e \<in> posix_errnos"
  by (auto simp: lookup_node_def read_bytes_def dest: map_err_errno split: option.splits sum.splits prod.splits)

lemma handle_errno: "handle fe req a = (ReplyError e, a') \<Longrightarrow> e \<in> posix_errnos"
  by (cases req) (auto simp: reply_with_error fuse_lookup_def fuse_getattr_def fuse_readdir_def fuse_open_def fuse_read_def
      fuse_readlink_def fuse_init_def fuse_setattr_def fuse_write_def fuse_mknod_def fuse_mkdir_def fuse_unlink_def
      fuse_rmdir_def fuse_symlink_def fuse_rename_def fuse_link_def fuse_create_def
      dest: lookup_read_errno directory_entries_errno open_file_errno adapter_node_errno map_err_errno
      split: prod.splits sum.splits)

fun mutating :: "fuse_request \<Rightarrow> bool" where
  "mutating (Open i flags) \<longleftrightarrow> flags AND 3 \<noteq> 0 \<or> flags AND 0x600 \<noteq> 0"
| "mutating req \<longleftrightarrow> req \<in> {Setattr, Write, Mknod, Mkdir, Unlink, Rmdir, SymlinkRequest, Rename, Link, Create}"

lemma handle_mutating: "mutating req \<Longrightarrow> handle fe req a = (ReplyError EROFS, a)"
  by (cases req) (auto simp: fuse_open_def open_file_def O_ACCMODE_def O_RDONLY_def O_APPEND_def O_TRUNC_def reply_with_def
      fuse_setattr_def fuse_write_def fuse_mknod_def fuse_mkdir_def fuse_unlink_def
      fuse_rmdir_def fuse_symlink_def fuse_rename_def fuse_link_def fuse_create_def)

section \<open>Paged listings\<close>

text \<open>
  The kernel's side of a listing: it asks from offset zero on, continuing each time from the offset of the
  last entry it was given, until a page is empty or a request fails. \<open>None\<close> says that \<open>n\<close> pages were not enough; the properties
  below give a number of pages that is.
\<close>

fun readdir_pages ::
  "fuse_env \<Rightarrow> (dir_entry list \<Rightarrow> dir_entry \<Rightarrow> bool) \<Rightarrow> u64 \<Rightarrow> int \<Rightarrow> nat \<Rightarrow> fuse_adapter \<Rightarrow> (dir_entry list, fuse_reply) result option" where
  "readdir_pages fe fits w off 0 a = None"
| "readdir_pages fe fits w off (Suc n) a =
     (case fuse_readdir fe fits w off a of
        (ReplyDirectory es, a') \<Rightarrow>
          if es = [] then Some (Ok [])
          else map_option (map_ok ((@) es)) (readdir_pages fe fits w (fst (snd (last es))) n a')
      | (reply, a') \<Rightarrow> Some (Err reply))"

lemma fill_reply_take:
  "\<exists>m. fill_reply fits buffer es = buffer @ take m es \<and> m \<le> length es \<and> (es \<noteq> [] \<longrightarrow> fits buffer (hd es) \<longrightarrow> 0 < m)"
proof (induction fits buffer es rule: fill_reply.induct)
  case (2 fits buffer e es)
  show ?case
  proof (cases "fits buffer e")
    case True
    with 2 obtain m where "fill_reply fits (buffer @ [e]) es = (buffer @ [e]) @ take m es" "m \<le> length es" by blast
    with True show ?thesis by (intro exI [of _ "Suc m"]) simp
  qed (auto intro!: exI [of _ 0])
qed simp

lemma length_numbered [simp]: "length (numbered k es) = length es - k"
  by (simp add: numbered_def)

lemma take_numbered:
  assumes "0 < m" "m \<le> length es - k" "int (length es) \<le> i64_max"
  shows "fst (snd (last (take m (numbered k es)))) = int (k + m)"
    and "take m (numbered k es) @ numbered (k + m) es = numbered k es"
proof -
  have "last (take m (numbered k es)) = numbered k es ! (m - 1)"
    using assms by (subst last_conv_nth) (auto simp flip: length_0_conv)
  then show "fst (snd (last (take m (numbered k es)))) = int (k + m)"
    using assms by (auto simp: numbered_def nth_enumerate_eq case_prod_beta)
  show "take m (numbered k es) @ numbered (k + m) es = numbered k es"
    using append_take_drop_id [of m "numbered k es"] by (simp add: numbered_def drop_map add.commute)
qed

text \<open>A loaded directory gives the same entries every time.\<close>

lemma directory_entries_loaded:
  assumes "represents (connection (s_store s)) ns" "inode_new w = Ok i" "inode_by_id ns i = Some q"
    and "\<not> si_tombstone q" "si_kind q = Directory" "si_directory_loaded q = Some True"
    and "directory_entries fe w off s = (Ok es, s')"
  shows "es = numbered (nat off) (all_entries w (visible q) (visible_children ns i)) \<and> s_store s' = s_store s \<and> 0 \<le> off"
proof -
  obtain node children where d: "\<not> off < 0" "adapter_node fe w s = Ok node"
    "list_directory (fe_session fe) (i_inode node) s = (Ok children, s')" "es = numbered (nat off) (all_entries w node children)"
    using assms(7) by (auto simp: directory_entries_def fs_readdir_def result_simps split: if_splits sum.splits prod.splits)
  have n: "node = visible q" using adapter_node_Ok [OF d(2) assms(1)] assms(2,3) by auto
  have "i_inode node = i" using n assms(3) by (auto simp: inode_by_id_def dest: find_SomeD)
  with d(3) have l: "list_directory (fe_session fe) i s = (Ok children, s')" by simp
  then have "ensure_directory_loaded (fe_session fe) i s = (Ok (), s')" using list_directory_Ok by blast
  from ensure_loaded_directory [OF assms(1,3-6) this] have st: "s_store s' = s_store s" by blast
  with list_directory_visible [OF l] assms(1) have "children = visible_children ns i" by simp
  with d n st show ?thesis by simp
qed

lemma directory_entries_first:
  assumes "env_ok (fe_session fe)" "session_inv (fe_session fe) s" "directory_entries fe w off s = (Ok es, s')"
  shows "\<exists>ns i q. represents (connection (s_store s')) ns \<and> inode_new w = Ok i \<and> inode_by_id ns i = Some q \<and>
    \<not> si_tombstone q \<and> si_kind q = Directory \<and> si_directory_loaded q = Some True \<and> 0 \<le> off \<and>
    es = numbered (nat off) (all_entries w (visible q) (visible_children ns i))"
proof -
  obtain ns0 where ns0: "represents (connection (s_store s)) ns0" by (rule session_inv_namespace [OF assms(2)])
  obtain node children where d: "\<not> off < 0" "adapter_node fe w s = Ok node"
    "list_directory (fe_session fe) (i_inode node) s = (Ok children, s')" "es = numbered (nat off) (all_entries w node children)"
    using assms(3) by (auto simp: directory_entries_def fs_readdir_def result_simps split: if_splits sum.splits prod.splits)
  obtain i q where q: "inode_new w = Ok i" "inode_by_id ns0 i = Some q" "node = visible q"
    using adapter_node_Ok [OF d(2) ns0] by blast
  then have "i_inode node = i" by (auto simp: inode_by_id_def dest: find_SomeD)
  with d(3) have l: "list_directory (fe_session fe) i s = (Ok children, s')" by simp
  then have "ensure_directory_loaded (fe_session fe) i s = (Ok (), s')" using list_directory_Ok by blast
  from ensure_directory_loaded_loaded [OF assms(1,2) ns0 this] q(2) obtain ns1 q1 where
    n1: "represents (connection (s_store s')) ns1" "inode_by_id ns1 i = Some q1" "\<not> si_tombstone q1" "si_kind q1 = Directory"
      "si_directory_loaded q1 = Some True" "visible q1 = visible q" by auto
  moreover have "children = visible_children ns1 i" by (rule list_directory_visible [OF l n1(1)])
  ultimately show ?thesis using d q by fastforce
qed

lemma fuse_readdir_page:
  assumes "fuse_readdir fe fits w off a = (ReplyDirectory page, a')"
  shows "\<exists>es. directory_entries fe w off (ad_session a) = (Ok es, ad_session a') \<and> page = fill_reply fits [] es"
  using assms by (auto simp: fuse_readdir_def reply_with_def split: prod.splits sum.splits)

text \<open>A request for a later page fails only where a request for the first page fails as well.\<close>

lemma fuse_readdir_cases:
  obtains (Page) es a' where "fuse_readdir fe fits w off a = (ReplyDirectory es, a')"
  | (Error) e a' where "fuse_readdir fe fits w off a = (ReplyError e, a')"
proof -
  obtain r s' where d: "directory_entries fe w off (ad_session a) = (r, s')" by fastforce
  show thesis
  proof (cases r)
    case (Inl e)
    with d show thesis by (intro Error) (simp add: fuse_readdir_def reply_with_def)
  next
    case (Inr es)
    with d show thesis by (intro Page) (simp add: fuse_readdir_def reply_with_def)
  qed
qed

lemma fuse_readdir_later_error:
  assumes "fst (fuse_readdir fe fits w off a) = ReplyError e" "0 \<le> off"
  shows "fst (fuse_readdir fe fits w 0 a) = ReplyError e"
  using assms by (auto simp: fuse_readdir_def directory_entries_def reply_with_def split: prod.splits sum.splits if_splits)

text \<open>
  What the pages from an offset on are: the rest of the entries, in as many pages as there are entries left and one more,
  or the error of a request.
\<close>

definition pages_from ::
  "fuse_env \<Rightarrow> (dir_entry list \<Rightarrow> dir_entry \<Rightarrow> bool) \<Rightarrow> u64 \<Rightarrow> store_inode list \<Rightarrow> dir_entry list \<Rightarrow> (dir_entry list, fuse_reply) result option \<Rightarrow> bool" where
  "pages_from fe fits w ns rest r \<longleftrightarrow> (\<exists>x. r = Some x \<and> (\<forall>es. x = Ok es \<longrightarrow> es = rest) \<and>
     (\<forall>reply. x = Err reply \<longrightarrow> (\<exists>a. represents (connection (s_store (ad_session a))) ns \<and> fst (fuse_readdir fe fits w 0 a) = reply)))"

lemma pages_from_append: "pages_from fe fits w ns rest r \<Longrightarrow> pages_from fe fits w ns (page @ rest) (map_option (map_ok ((@) page)) r)"
proof -
  assume "pages_from fe fits w ns rest r"
  then obtain x where "r = Some x" "\<forall>es. x = Ok es \<longrightarrow> es = rest" "\<forall>reply. x = Err reply \<longrightarrow>
      (\<exists>a. represents (connection (s_store (ad_session a))) ns \<and> fst (fuse_readdir fe fits w 0 a) = reply)"
    by (auto simp: pages_from_def)
  then show ?thesis by (cases x) (simp_all add: pages_from_def)
qed

lemma readdir_pages_loaded:
  assumes "inode_new w = Ok i" "inode_by_id ns i = Some q" "\<not> si_tombstone q" "si_kind q = Directory"
    and "si_directory_loaded q = Some True" "\<forall>e. fits [] e"
    and L: "L = all_entries w (visible q) (visible_children ns i)" "int (length L) \<le> i64_max"
  shows "represents (connection (s_store (ad_session a))) ns \<Longrightarrow> length L - k < n \<Longrightarrow>
    pages_from fe fits w ns (numbered k L) (readdir_pages fe fits w (int k) n a)"
proof (induction n arbitrary: a k)
  case (Suc n)
  show ?case
  proof (cases fe fits w "int k" a rule: fuse_readdir_cases)
    case (Page page a')
    obtain rest where d: "directory_entries fe w (int k) (ad_session a) = (Ok rest, ad_session a')" "page = fill_reply fits [] rest"
      using fuse_readdir_page [OF Page] by blast
    note e = directory_entries_loaded [OF Suc.prems(1) assms(1-5) d(1), folded L(1)]
    obtain m where m: "page = take m rest" "m \<le> length rest" "rest \<noteq> [] \<longrightarrow> 0 < m"
      using fill_reply_take [of fits "[]" rest] assms(6) d(2) by auto
    show ?thesis
    proof (cases "page = []")
      case True
      with m have "rest = []" by auto
      with True Page e show ?thesis by (simp add: pages_from_def)
    next
      case False
      then have m': "0 < m" "m \<le> length L - k" using m e by auto
      have "fst (snd (last page)) = int (k + m)" using take_numbered(1) [OF m' L(2)] m(1) e by simp
      moreover have "pages_from fe fits w ns (numbered (k + m) L) (readdir_pages fe fits w (int (k + m)) n a')"
        using Suc.prems m' e by (intro Suc.IH) simp_all
      from pages_from_append [OF this, of page]
      have "pages_from fe fits w ns (numbered k L) (map_option (map_ok ((@) page)) (readdir_pages fe fits w (int (k + m)) n a'))"
        using m(1) e take_numbered(2) [OF m' L(2)] by simp
      ultimately show ?thesis using Page False by simp
    qed
  next
    case (Error e a')
    with fuse_readdir_later_error [of fe fits w "int k" a e] Suc.prems(1) show ?thesis by (auto simp: pages_from_def)
  qed
qed simp

lemma numbered_entries_all: "map (\<lambda>(i, off, kind, name). (i, kind, name)) (numbered 0 L) = L"
  by (rule nth_equalityI) (auto simp: numbered_def nth_enumerate_eq split: prod.splits)

section \<open>Attributes of inodes\<close>

lemma system_time_exact:
  assumes "valid_node_time t"
  shows "timestamp_to_system_time t = nt_seconds t * 1000000000 + uint (nt_nanos t)"
proof -
  have r: "\<bar>nt_seconds t\<bar> < 2 ^ 63" and n: "nt_nanos t < 1000000000"
    using assms by (auto simp: valid_node_time_def node_time_new_def SESSION_MIN_TIMESTAMP_SECONDS_def
        SESSION_MAX_TIMESTAMP_SECONDS_def split: if_splits)
  have abs: "uint (word_of_int \<bar>nt_seconds t\<bar> :: u64) = \<bar>nt_seconds t\<bar>"
    using r by (intro uint_word_of_int_u64) auto
  show ?thesis
  proof (cases "nt_seconds t \<ge> 0")
    case True
    with abs show ?thesis by (simp add: timestamp_to_system_time_def duration_new_def)
  next
    case False
    then have "1 \<le> (word_of_int \<bar>nt_seconds t\<bar> :: u64)" using abs by (simp add: word_le_def)
    then have "uint (word_of_int \<bar>nt_seconds t\<bar> - 1 :: u64) = - nt_seconds t - 1"
      using abs False by (simp add: uint_sub_lem [THEN iffD1] word_le_def)
    moreover have "uint (1000000000 - nt_nanos t) = 1000000000 - uint (nt_nanos t)"
      using n by (simp add: uint_sub_lem [THEN iffD1] word_less_def)
    ultimately show ?thesis
      using False abs by (simp add: timestamp_to_system_time_def duration_new_def)
  qed
qed

lemma permission_bits_exact: "unat (permission_bits node) = unat (i_mode node AND 0xFFF)" "unat (permission_bits node) < 4096"
proof -
  have "i_mode node AND 0xFFF \<le> 0xFFF" by (rule word_and_le1)
  then have lt: "unat (i_mode node AND 0xFFF) < 4096" by (simp add: word_le_nat_alt)
  then have "unat (ucast (i_mode node AND 0xFFF) :: u16) = unat (i_mode node AND 0xFFF)"
    by (simp add: unsigned_ucast_eq take_bit_nat_eq_self)
  with lt show "unat (permission_bits node) = unat (i_mode node AND 0xFFF)" by (simp add: permission_bits_def conv_simps)
  with lt show "unat (permission_bits node) < 4096" by simp
qed

lemma div_ceil_bounds: "unat a \<le> 512 * unat (div_ceil a 512)" "512 * unat (div_ceil a 512) < unat a + 512"
proof -
  have m: "unat (a mod 512) = unat a mod 512" "unat (a div 512) = unat a div 512"
    by (simp_all add: unat_mod_distrib unat_div_distrib)
  have "unat a div 512 + 1 < 2 ^ 64" using unsigned_less [of a, where ?'a = nat] by simp
  then have "unat (a div 512 + 1) = unat a div 512 + 1" using m by (simp add: unat_word_ariths)
  with m have "unat (div_ceil a 512) = (if unat a mod 512 > 0 then unat a div 512 + 1 else unat a div 512)"
    by (auto simp: div_ceil_def word_less_nat_alt)
  moreover have "512 * q + r \<le> 512 * (if r > 0 then q + 1 else q) \<and> 512 * (if r > 0 then q + 1 else q) < (512 * q + r) + 512"
    if "r < 512" for q r :: nat
    using that by auto
  from this [of "unat a mod 512" "unat a div 512"]
  have "unat a \<le> 512 * (if unat a mod 512 > 0 then unat a div 512 + 1 else unat a div 512) \<and>
      512 * (if unat a mod 512 > 0 then unat a div 512 + 1 else unat a div 512) < unat a + 512"
    unfolding mult_div_mod_eq by (simp del: mult_div_mod_eq)
  ultimately show "unat a \<le> 512 * unat (div_ceil a 512)" "512 * unat (div_ceil a 512) < unat a + 512" by simp_all
qed

section \<open>Properties\<close>

text \<open>
  C10 The mount is read only and answers in POSIX terms. Every request keeps the session invariant and what can be seen: every inode keeps its
  visible attributes and is not removed, a directory that was loaded keeps its children, and new inodes appear only as children of a directory
  that was not loaded before. An error reply carries one of the six error numbers of the adapter; a request that would change the file system, an
  open for writing, appending or truncating included, is answered with \<^verbatim>\<open>EROFS\<close> and changes nothing; an open
  succeeds only for a visible regular file.
\<close>

theorem fuse_read_only:
  assumes "env_ok (fe_session fe)" "session_inv (fe_session fe) (ad_session a)" "handle fe req a = (reply, a')"
    and "represents (connection (s_store (ad_session a))) ns"
  shows "session_inv (fe_session fe) (ad_session a') \<and>
    (\<exists>ns'. represents (connection (s_store (ad_session a'))) ns' \<and>
       (\<forall>i q. inode_by_id ns i = Some q \<longrightarrow>
          (\<exists>q'. inode_by_id ns' i = Some q' \<and> visible q' = visible q \<and> si_tombstone q' = si_tombstone q)) \<and>
       (\<forall>i q. inode_by_id ns i = Some q \<and> si_directory_loaded q = Some True \<longrightarrow> visible_children ns' i = visible_children ns i) \<and>
       (\<forall>i q'. inode_by_id ns' i = Some q' \<and> inode_by_id ns i = None \<longrightarrow>
          (\<exists>p q. si_parent q' = Some p \<and> inode_by_id ns p = Some q \<and> si_kind q = Directory \<and> si_directory_loaded q \<noteq> Some True))) \<and>
    (\<forall>e. reply = ReplyError e \<longrightarrow> e \<in> {2, 5, 20, 21, 22, 30}) \<and>
    (mutating req \<longrightarrow> reply = ReplyError EROFS \<and> a' = a) \<and>
    (\<forall>w flags. req = Open w flags \<and> reply = ReplyOpened \<longrightarrow>
       (\<exists>i q. inode_new w = Ok i \<and> inode_by_id ns i = Some q \<and> \<not> si_tombstone q \<and> si_kind q = File))"
proof (intro conjI)
  show "session_inv (fe_session fe) (ad_session a')" using handle_inv [OF assms(1,2), of req] assms(3) by simp
  show "\<exists>ns'. represents (connection (s_store (ad_session a'))) ns' \<and>
       (\<forall>i q. inode_by_id ns i = Some q \<longrightarrow>
          (\<exists>q'. inode_by_id ns' i = Some q' \<and> visible q' = visible q \<and> si_tombstone q' = si_tombstone q)) \<and>
       (\<forall>i q. inode_by_id ns i = Some q \<and> si_directory_loaded q = Some True \<longrightarrow> visible_children ns' i = visible_children ns i) \<and>
       (\<forall>i q'. inode_by_id ns' i = Some q' \<and> inode_by_id ns i = None \<longrightarrow>
          (\<exists>p q. si_parent q' = Some p \<and> inode_by_id ns p = Some q \<and> si_kind q = Directory \<and> si_directory_loaded q \<noteq> Some True))"
    using handle_keeps_visible [OF assms(1,2,4), of req] assms(3) unfolding keeps_visible_def by simp
  show "\<forall>e. reply = ReplyError e \<longrightarrow> e \<in> {2, 5, 20, 21, 22, 30}"
    using handle_errno [of fe req a _ a'] assms(3)
    by (auto simp: posix_errnos_def ENOENT_def EIO_def ENOTDIR_def EISDIR_def EINVAL_def EROFS_def)
  show "mutating req \<longrightarrow> reply = ReplyError EROFS \<and> a' = a" using handle_mutating assms(3) by auto
  show "\<forall>w flags. req = Open w flags \<and> reply = ReplyOpened \<longrightarrow>
       (\<exists>i q. inode_new w = Ok i \<and> inode_by_id ns i = Some q \<and> \<not> si_tombstone q \<and> si_kind q = File)"
  proof (intro allI impI)
    fix w flags assume "req = Open w flags \<and> reply = ReplyOpened"
    with assms(3) have "open_file fe w flags (ad_session a) = Ok ()"
      by (auto simp: fuse_open_def reply_with_def split: sum.splits)
    then obtain node where "adapter_node fe w (ad_session a) = Ok node"
      "(case i_kind node of File \<Rightarrow> Ok () | Directory \<Rightarrow> Err EISDIR | Symlink \<Rightarrow> Err EINVAL) = Ok ()"
      by (auto simp: open_file_def and_then_eq_Ok split: if_splits)
    then have n: "adapter_node fe w (ad_session a) = Ok node" "i_kind node = File" by (cases "i_kind node"; simp)+
    from adapter_node_Ok [OF n(1) assms(4)] n(2)
    show "\<exists>i q. inode_new w = Ok i \<and> inode_by_id ns i = Some q \<and> \<not> si_tombstone q \<and> si_kind q = File"
      by (auto simp: visible_def)
  qed
qed

definition demo_fuse_env :: fuse_env where
  "demo_fuse_env = \<lparr>fe_session = demo_session_env, fe_owner = (0, 0)\<rparr>"

definition demo_adapter :: fuse_adapter where
  "demo_adapter = \<lparr>ad_session = demo_session, ad_ready = False\<rparr>"

theorem fuse_read_only_witness:
  "handle demo_fuse_env Rename demo_adapter = (ReplyError 30, demo_adapter) \<and>
   handle demo_fuse_env (Open 1 1) demo_adapter = (ReplyError 30, demo_adapter)"
proof -
  have inv: "env_ok (fe_session demo_fuse_env)" "session_inv (fe_session demo_fuse_env) (ad_session demo_adapter)"
    using demo_session_env_ok demo_session_inv by (simp_all add: demo_fuse_env_def demo_adapter_def)
  obtain ns where ns: "represents (connection (s_store (ad_session demo_adapter))) ns" by (rule session_inv_namespace [OF inv(2)])
  have "fst (handle demo_fuse_env req demo_adapter) = ReplyError EROFS \<and> snd (handle demo_fuse_env req demo_adapter) = demo_adapter"
    if "mutating req" for req
    using fuse_read_only [OF inv _ ns, of req] that by (cases "handle demo_fuse_env req demo_adapter") simp
  from this [of Rename] this [of "Open 1 1"] show ?thesis by (auto simp: EROFS_def prod_eq_iff)
qed

text \<open>
  C37 Paged listings end and are complete. When a first page is served, in any buffer that takes an entry when empty, the kernel
  that resumes each time at the offset of the last entry it was given is done after at most one page per entry and one more. Unless a request in
  between fails, in a way that a listing from the start fails in the same state, the pages are together exactly the entries ".", ".." and the
  visible children in name order, each once. (The number of entries has to fit a signed 64-bit offset.)
\<close>

theorem readdir_pages_complete:
  assumes "env_ok (fe_session fe)" "session_inv (fe_session fe) (ad_session a)" "\<forall>e. fits [] e"
    and "fuse_readdir fe fits w 0 a = (ReplyDirectory page, a')"
  shows "\<exists>ns i q. represents (connection (s_store (ad_session a'))) ns \<and> inode_new w = Ok i \<and> inode_by_id ns i = Some q \<and> si_kind q = Directory \<and>
    (\<forall>n. length (visible_children ns i) + 2 < n \<and> int (length (visible_children ns i)) + 2 \<le> i64_max \<longrightarrow>
       (\<exists>r. readdir_pages fe fits w 0 n a = Some r \<and>
         (\<forall>es. r = Ok es \<longrightarrow> map (\<lambda>(number, offset, kind, name). (number, kind, name)) es =
            (w, DirectoryType, ''.'') # (inode_get (i_parent (visible q)), DirectoryType, ''..'') #
            map (\<lambda>c. (inode_get (i_inode c), file_type_of (i_kind c), i_name c)) (visible_children ns i)) \<and>
         (\<forall>reply. r = Err reply \<longrightarrow>
            (\<exists>b. represents (connection (s_store (ad_session b))) ns \<and> fst (fuse_readdir fe fits w 0 b) = reply))))"
proof -
  obtain rest where d: "directory_entries fe w 0 (ad_session a) = (Ok rest, ad_session a')" "page = fill_reply fits [] rest"
    using fuse_readdir_page [OF assms(4)] by blast
  obtain ns i q where q: "represents (connection (s_store (ad_session a'))) ns" "inode_new w = Ok i" "inode_by_id ns i = Some q"
    "\<not> si_tombstone q" "si_kind q = Directory" "si_directory_loaded q = Some True"
    and rest: "rest = numbered 0 (all_entries w (visible q) (visible_children ns i))"
    using directory_entries_first [OF assms(1,2) d(1)] by auto
  let ?L = "all_entries w (visible q) (visible_children ns i)"
  have len: "length ?L = length (visible_children ns i) + 2" by (simp add: all_entries_def)
  have "pages_from fe fits w ns (numbered 0 ?L) (readdir_pages fe fits w 0 n a)"
    if n: "length ?L < n" and L: "int (length ?L) \<le> i64_max" for n
  proof -
    obtain m where m: "n = Suc m" using n by (cases n) auto
    have "rest \<noteq> []" unfolding rest by (simp flip: length_0_conv add: all_entries_def)
    then obtain k where k: "page = take k rest" "k \<le> length rest" "0 < k"
      using fill_reply_take [of fits "[]" rest] assms(3) d(2) by auto
    have k': "0 < k" "k \<le> length ?L - 0" using k rest by simp_all
    have "page \<noteq> []" using k \<open>rest \<noteq> []\<close> by auto
    moreover have "fst (snd (last page)) = int k" using take_numbered(1) [OF k' L] k(1) rest by simp
    moreover have "pages_from fe fits w ns (numbered k ?L) (readdir_pages fe fits w (int k) m a')"
      using n m k' L by (intro readdir_pages_loaded [where L = ?L, OF q(2-6)]) (simp_all add: q(1) assms(3))
    from pages_from_append [OF this, of page] k(1) rest take_numbered(2) [OF k' L]
    have "pages_from fe fits w ns (numbered 0 ?L) (map_option (map_ok ((@) page)) (readdir_pages fe fits w (int k) m a'))" by simp
    ultimately show ?thesis using assms(4) m by simp
  qed
  then have "\<exists>r. readdir_pages fe fits w 0 n a = Some r \<and> (\<forall>es. r = Ok es \<longrightarrow> map (\<lambda>(number, offset, kind, name). (number, kind, name)) es = ?L) \<and>
      (\<forall>reply. r = Err reply \<longrightarrow>
         (\<exists>b. represents (connection (s_store (ad_session b))) ns \<and> fst (fuse_readdir fe fits w 0 b) = reply))"
    if "length (visible_children ns i) + 2 < n \<and> int (length (visible_children ns i)) + 2 \<le> i64_max" for n
    using that len numbered_entries_all [of ?L] unfolding pages_from_def by fastforce
  with q show ?thesis unfolding all_entries_def by (intro exI [of _ ns] exI [of _ i] exI [of _ q]) simp
qed


theorem readdir_pages_complete_witness:
  "\<exists>a es. readdir_pages demo_fuse_env (\<lambda>buffer e. length buffer < 1) 1 0 5 a = Some (Ok es) \<and> map (\<lambda>(_, _, _, name). name) (take 2 es) = [''.'', ''..'']"
proof -
  let ?ns = "materialize ROOT demo_nodes [root_inode demo_digest]"
  obtain xs s where s: "list_directory demo_session_env ROOT demo_session = (Ok xs, s)" "represents (connection (s_store s)) ?ns"
    "\<And>i. store_inode_get demo_env (s_store s) i = Ok (inode_by_id ?ns i)" "s_poisoned_locks s = {}" "\<not> s_lock_map_poisoned s"
    using demo_session_loaded by blast
  let ?fits = "\<lambda>(buffer :: dir_entry list) (e :: dir_entry). length buffer < 1"
  define q where "q = mark_loaded ROOT (root_inode demo_digest)"
  have q: "inode_by_id ?ns ROOT = Some q"
    by (simp add: q_def inode_by_id_def materialize_def mark_loaded_def root_inode_def inode_of_remote_def)
  have qd: "si_kind q = Directory" "\<not> si_tombstone q" "si_directory_loaded q = Some True" "wf_inode q"
    using q represents_wf [OF s(2)] wf_namespaceD(4)
    by (auto simp: q_def mark_loaded_def root_inode_def inode_of_remote_def inode_by_id_def dest: find_SomeD)
  obtain children where ch: "get_directory_children demo_env (s_store s) ROOT = Ok children"
    "collect project_inode (filter (\<lambda>c. \<not> si_tombstone c) children) = Ok xs"
    using list_directory_Ok [OF s(1)] by (auto simp: demo_session_env_def)
  have xs: "xs = visible_children ?ns ROOT" by (rule list_directory_visible [OF s(1,2)])
  have len: "length xs = 2"
    by (simp add: xs visible_children_materialize children_of_def root_inode_def inode_of_remote_def demo_nodes_def)
  let ?t = "\<lambda>s :: session. s\<lparr>s_inode_locks := insert ROOT (s_inode_locks s)\<rparr>"
  have iroot: "inode_new 1 = Ok ROOT" by (simp add: inode_new_def conv_simps ROOT_def)
  have get: "get_visible_inode demo_session_env t ROOT = Ok q" if "s_store t = s_store s" for t
    using s(3) that q qd by (simp add: get_visible_inode_def demo_session_env_def)
  have dir: "directory_entries demo_fuse_env 1 off t = (Ok (numbered (nat off) (all_entries 1 (visible q) xs)), ?t t)"
    if "0 \<le> off" "s_store t = s_store s" "s_poisoned_locks t = {}" "\<not> s_lock_map_poisoned t" for t off
  proof -
    have "list_directory demo_session_env ROOT t = (Ok xs, ?t t)"
      using that get qd ch
      by (simp add: list_directory_def ensure_directory_loaded_def inode_lock_def) (simp add: demo_session_env_def)
    moreover have "adapter_node demo_fuse_env 1 t = Ok (visible q)"
      using get [OF that(2)] iroot qd by (simp add: adapter_node_def fs_getattr_def get_inode_def demo_fuse_env_def
          project_inode_wf fs_result_def)
    moreover have "i_kind (visible q) = Directory" "i_inode (visible q) = ROOT"
      using qd(1) q by (auto simp: visible_def inode_by_id_def dest: find_SomeD)
    ultimately show ?thesis
      using that(1) by (simp add: directory_entries_def fs_readdir_def demo_fuse_env_def fs_result_def)
  qed
  let ?L = "all_entries 1 (visible q) xs"
  have L: "length ?L = 4" by (simp add: all_entries_def len)
  have pages: "\<exists>es. readdir_pages demo_fuse_env ?fits 1 (int k) (5 - k) \<lparr>ad_session = t, ad_ready = False\<rparr> = Some (Ok es)"
    if "k \<le> 4" "s_store t = s_store s" "s_poisoned_locks t = {}" "\<not> s_lock_map_poisoned t" for k t
    using that
  proof (induction "4 - k" arbitrary: k t)
    case 0
    then have "numbered k ?L = []" using L by (simp flip: length_0_conv)
    with 0 dir [of "int k" t] show ?case by (simp add: fuse_readdir_def reply_with_def numeral_eq_Suc)
  next
    case (Suc m)
    then have lt: "k < length ?L" using L by simp
    then obtain e es where ne: "numbered k ?L = e # es" by (metis length_numbered list.exhaust list.size(3) zero_less_diff less_numeral_extra(3))
    have "fst (snd (last (take 1 (numbered k ?L)))) = int (k + 1)" using lt L by (intro take_numbered(1)) simp_all
    then have e: "fst (snd e) = int (Suc k)" by (simp add: ne)
    have page: "fuse_readdir demo_fuse_env ?fits 1 (int k) \<lparr>ad_session = t, ad_ready = False\<rparr> =
        (ReplyDirectory [e], \<lparr>ad_session = ?t t, ad_ready = False\<rparr>)"
      using dir [of "int k" t] Suc.prems ne by (cases es) (simp_all add: fuse_readdir_def reply_with_def)
    have "\<exists>es. readdir_pages demo_fuse_env ?fits 1 (int (Suc k)) (5 - Suc k) \<lparr>ad_session = ?t t, ad_ready = False\<rparr> = Some (Ok es)"
      using Suc.hyps(2) Suc.prems by (intro Suc.hyps(1)) simp_all
    moreover have "5 - k = Suc (5 - Suc k)" using Suc.hyps(2) by simp
    ultimately show ?case using page e by auto
  qed
  from pages [of 0 s] s(4,5) obtain es where run: "readdir_pages demo_fuse_env ?fits 1 0 5 \<lparr>ad_session = s, ad_ready = False\<rparr> = Some (Ok es)"
    by auto
  have inv: "session_inv demo_session_env s"
    using session_ops_inv(3) [OF demo_session_env_ok demo_session_inv, of ROOT] s(1) by simp
  have pre: "env_ok (fe_session demo_fuse_env)"
    "session_inv (fe_session demo_fuse_env) (ad_session \<lparr>ad_session = s, ad_ready = False\<rparr>)" "\<forall>e. ?fits [] e"
    using inv demo_session_env_ok by (simp_all add: demo_fuse_env_def)
  let ?a = "\<lparr>ad_session = s, ad_ready = False\<rparr>"
  obtain page a' where p: "fuse_readdir demo_fuse_env ?fits 1 0 ?a = (ReplyDirectory page, a')" "s_store (ad_session a') = s_store s"
    using dir [of 0 s] s(4,5) by (auto simp: fuse_readdir_def reply_with_def)
  obtain ns i q' where c: "represents (connection (s_store (ad_session a'))) ns" "inode_new 1 = Ok i"
    "\<forall>n. length (visible_children ns i) + 2 < n \<and> int (length (visible_children ns i)) + 2 \<le> i64_max \<longrightarrow>
       (\<exists>r. readdir_pages demo_fuse_env ?fits 1 0 n ?a = Some r \<and>
         (\<forall>es. r = Ok es \<longrightarrow> map (\<lambda>(number, offset, kind, name). (number, kind, name)) es =
            (1, DirectoryType, ''.'') # (inode_get (i_parent (visible q')), DirectoryType, ''..'') #
            map (\<lambda>c. (inode_get (i_inode c), file_type_of (i_kind c), i_name c)) (visible_children ns i)))"
    using readdir_pages_complete [OF pre p(1)] by blast
  have "represents (connection (s_store s)) ns" using c(1) p(2) by simp
  from list_directory_visible [OF s(1) this] c(2) iroot have "visible_children ns i = xs" by simp
  with c(3) [rule_format, of 5] len run
  have "map (\<lambda>(number, offset, kind, name). (number, kind, name)) es =
      (1, DirectoryType, ''.'') # (inode_get (i_parent (visible q')), DirectoryType, ''..'') #
      map (\<lambda>c. (inode_get (i_inode c), file_type_of (i_kind c), i_name c)) xs" by simp
  then have "map (\<lambda>(_, _, _, name). name) (take 2 es) = [''.'', ''..'']"
    by (cases es; cases "tl es") (auto split: prod.splits)
  with run show ?thesis by (intro exI conjI)
qed

text \<open>
  C38 Attributes are exact. For an inode with a valid modification time the reported time is its seconds and
  nanoseconds since the epoch, before the epoch too, and the other three times equal it; the permission bits are the low twelve bits of the mode;
  the block count is the size in 512-byte blocks, rounded up.
\<close>

theorem attributes_exact:
  assumes "valid_node_time (i_mtime node)"
  shows "fa_mtime (file_attr_of owner node) = nt_seconds (i_mtime node) * 1000000000 + uint (nt_nanos (i_mtime node)) \<and>
    (let a = file_attr_of owner node in fa_atime a = fa_mtime a \<and> fa_ctime a = fa_mtime a \<and> fa_crtime a = fa_mtime a) \<and>
    unat (fa_perm (file_attr_of owner node)) = unat (i_mode node AND 0xFFF) \<and>
    unat (fa_size (file_attr_of owner node)) \<le> 512 * unat (fa_blocks (file_attr_of owner node)) \<and>
    512 * unat (fa_blocks (file_attr_of owner node)) < unat (fa_size (file_attr_of owner node)) + 512"
  using system_time_exact [OF assms] permission_bits_exact(1) [of node] div_ceil_bounds [of "i_size node"]
  by (simp add: file_attr_of_def Let_def)

theorem attributes_exact_witness:
  "fa_mtime (file_attr_of (0, 0) \<lparr>i_inode = ROOT, i_parent = ROOT, i_name = ''f'', i_kind = File, i_size = 513, i_mode = 0x1ED,
     i_mtime = \<lparr>nt_seconds = - 2, nt_nanos = 250000000\<rparr>, i_symlink_target = None\<rparr>) = - 1750000000"
  using attributes_exact [of "\<lparr>i_inode = ROOT, i_parent = ROOT, i_name = ''f'', i_kind = File, i_size = 513, i_mode = 0x1ED,
     i_mtime = \<lparr>nt_seconds = - 2, nt_nanos = 250000000\<rparr>, i_symlink_target = None\<rparr>" "(0, 0)"]
  by (simp add: valid_node_time_def node_time_new_def SESSION_MIN_TIMESTAMP_SECONDS_def SESSION_MAX_TIMESTAMP_SECONDS_def)

end
