(* ===== verification/Cas.thy ===== *)
theory Cas
  imports Cache Error_Context
begin

text \<open>
  The CAS client (\<^verbatim>\<open>crates/rfs-common/src/cas.rs\<close>): configuration and its validation, the retry loop, missing
  blob queries, verified downloads through \<^verbatim>\<open>BatchReadBlobs\<close> and \<^verbatim>\<open>ByteStream.Read\<close>, and uploads through
  \<^verbatim>\<open>BatchUpdateBlobs\<close> batches and \<^verbatim>\<open>ByteStream.Write\<close>. The remote service, the network and tokio's clock are
  parameters: a channel holds one function per RPC that, from a deadline and the state of the remote side,
  gives the outcome of one attempt and the new state. The local files an upload reads and the random UUIDs
  are parameters of the host. The world pairs the remote state with the log of backoff sleeps.
\<close>

section \<open>Constants\<close>

type_synonym duration = nat

definition DEFAULT_DOWNLOAD_BLOB_STREAM_THRESHOLD_BYTES :: usize where
  "DEFAULT_DOWNLOAD_BLOB_STREAM_THRESHOLD_BYTES = 4 * 1024 * 1024"

definition DEFAULT_BATCH_UPDATE_BUDGET_BYTES :: usize where
  "DEFAULT_BATCH_UPDATE_BUDGET_BYTES = 3500 * 1024"

definition DEFAULT_ATTEMPTS :: usize where
  "DEFAULT_ATTEMPTS = 5"

definition MAX_RETRY_ATTEMPTS :: usize where
  "MAX_RETRY_ATTEMPTS = 5"

definition BYTESTREAM_UPLOAD_CHUNK_BYTES :: nat where
  "BYTESTREAM_UPLOAD_CHUNK_BYTES = 1024 * 1024"

text \<open>Durations are milliseconds.\<close>

definition RETRY_BACKOFFS :: "duration list" where
  "RETRY_BACKOFFS = [100, 250, 500, 1000]"

section \<open>Messages and errors\<close>

text \<open>The gRPC status codes.\<close>

datatype code = CodeOk | CodeCancelled | CodeUnknown | CodeInvalidArgument | CodeDeadlineExceeded | CodeNotFound
  | CodeAlreadyExists | CodePermissionDenied | CodeResourceExhausted | CodeFailedPrecondition | CodeAborted
  | CodeOutOfRange | CodeUnimplemented | CodeInternal | CodeUnavailable | CodeDataLoss | CodeUnauthenticated

record status =
  st_code :: code
  st_message :: string

definition internal_status :: "string \<Rightarrow> status" where
  "internal_status m = \<lparr>st_code = CodeInternal, st_message = m\<rparr>"

definition deadline_exceeded :: "string \<Rightarrow> status" where
  "deadline_exceeded m = \<lparr>st_code = CodeDeadlineExceeded, st_message = m\<rparr>"

datatype cas_operation = Connect | FindMissingBlobs | BatchReadBlobs | BatchUpdateBlobs | ByteStreamRead | ByteStreamWrite

text \<open>\<open>CasPanic\<close> stands for the \<^verbatim>\<open>expect\<close>s of the source; it is no constructor of \<^verbatim>\<open>CasError\<close>.\<close>

datatype cas_error =
    InvalidInstanceName string string
  | InvalidRetryAttempts usize string
  | UnsupportedUrl string
  | Transport cas_operation string string string
  | Rpc cas_operation usize string string status
  | BlobStatus cas_operation digest string
  | MissingResponse cas_operation digest
  | Verification digest digest_error
  | InvalidResponseDigest cas_operation digest_error
  | CasIo cas_operation string io_error
  | StreamWrite digest io_error
  | ReApiConversion string
  | CasContext string cas_error
  | CasPanic string

fun cas_root_cause :: "cas_error \<Rightarrow> cas_error" where
  "cas_root_cause (CasContext _ e) = cas_root_cause e"
| "cas_root_cause e = e"

interpretation cas_ctx: result_context_error CasContext cas_root_cause
  by unfold_locales simp

record cas_config =
  cas_url :: string
  instance_name :: string
  download_blob_stream_threshold_bytes :: usize
  batch_update_budget_bytes :: usize
  find_missing_timeout :: duration
  batch_read_timeout :: duration
  batch_update_timeout :: duration
  bytestream_idle_timeout :: duration
  max_attempts :: usize

text \<open>The generated message types, with the fields the client reads and writes.\<close>

record rpc_status =
  rs_code :: int
  rs_message :: string

record find_missing_request =
  fm_instance_name :: string
  fm_blob_digests :: "re_digest list"

record batch_read_request =
  br_instance_name :: string
  br_digests :: "re_digest list"

record batch_read_entry =
  be_data :: bytes
  be_status :: "rpc_status option"

record update_request =
  ur_digest :: "re_digest option"
  ur_data :: bytes

record batch_update_blobs_request =
  bu_instance_name :: string
  bu_requests :: "update_request list"

record update_entry =
  ue_digest :: "re_digest option"
  ue_status :: "rpc_status option"

record read_request =
  rr_resource_name :: string
  rr_read_offset :: int
  rr_read_limit :: int

record write_request =
  wr_resource_name :: string
  wr_write_offset :: int
  wr_finish_write :: bool
  wr_data :: bytes

record write_response =
  committed_size :: int

section \<open>The remote side\<close>

text \<open>
  One attempt of an RPC under \<^verbatim>\<open>tokio::time::timeout\<close>: the deadline elapsed, or the call finished. A read
  stream is the list of what successive \<^verbatim>\<open>next\<close> calls give before the stream ends. A write call also says how
  many of the queued requests the channel accepted before its receiver was dropped.
\<close>

datatype 'r attempt = Elapsed | Finished "('r, status) result"

type_synonym ('s, 'r) rpc = "duration \<Rightarrow> 's \<Rightarrow> 'r attempt \<times> 's"

datatype read_event = Chunk bytes | ChunkFailed status | ChunkIdle

record 's channel =
  ch_find_missing :: "find_missing_request \<Rightarrow> ('s, re_digest list) rpc"
  ch_batch_read :: "batch_read_request \<Rightarrow> ('s, batch_read_entry list) rpc"
  ch_batch_update :: "batch_update_blobs_request \<Rightarrow> ('s, update_entry list) rpc"
  ch_read :: "read_request \<Rightarrow> duration \<Rightarrow> ('s, read_event list) rpc"
  ch_write :: "write_request list \<Rightarrow> duration \<Rightarrow> 's \<Rightarrow> nat \<times> write_response attempt \<times> 's"

text \<open>
  \<open>h_read_file\<close> is \<^verbatim>\<open>tokio::fs::read\<close>; \<open>h_open_file\<close> opens a file and gives the results of its successive
  reads up to the end of the file.
\<close>

record 's host =
  h_read_file :: "string \<Rightarrow> 's \<Rightarrow> (bytes, io_error) result"
  h_open_file :: "string \<Rightarrow> 's \<Rightarrow> ((bytes, io_error) result list, io_error) result"
  h_uuid :: "'s \<Rightarrow> string"

record 's cas_client =
  cc_config :: cas_config
  cc_channel :: "'s channel"
  cc_host :: "'s host"

record 's world =
  w_remote :: 's
  w_slept :: "duration list"

type_synonym 'w writer = "'w \<Rightarrow> bytes \<Rightarrow> (unit, io_error) result \<times> 'w"

section \<open>Configuration\<close>

definition endpoint_from_grpc_url :: "string \<Rightarrow> (string, cas_error) result" where
  "endpoint_from_grpc_url url =
     ok_or (map_option (\<lambda>rest. ''http://'' @ rest)
       (case strip_prefix ''grpc://'' url of Some rest \<Rightarrow> if rest \<noteq> [] then Some rest else None | None \<Rightarrow> None))
       (UnsupportedUrl url)"

definition validate_instance_segment :: "string \<Rightarrow> string \<Rightarrow> (unit, cas_error) result" where
  "validate_instance_segment name segment =
     (if segment = [] then Err (InvalidInstanceName name ''must not contain empty path segments'')
      else if segment \<in> {''blobs'', ''uploads'', ''compressed-blobs''}
      then Err (InvalidInstanceName name ''reserved REAPI resource segment is not allowed'')
      else Ok ())"

definition validate_instance_name :: "string \<Rightarrow> (unit, cas_error) result" where
  "validate_instance_name name =
     (if name = [] then Err (InvalidInstanceName name ''must not be empty'')
      else for_each (validate_instance_segment name) (split_on CHR ''/'' name))"

definition validate_retry_attempts :: "usize \<Rightarrow> (unit, cas_error) result" where
  "validate_retry_attempts n =
     (if n = 0 then Err (InvalidRetryAttempts n ''must be at least 1'')
      else if n > MAX_RETRY_ATTEMPTS then Err (InvalidRetryAttempts n ''must not exceed MAX_RETRY_ATTEMPTS'')
      else Ok ())"

definition config_new :: "string \<Rightarrow> string \<Rightarrow> (cas_config, cas_error) result" where
  "config_new url name =
     (let config = \<lparr>cas_url = url, instance_name = name,
        download_blob_stream_threshold_bytes = DEFAULT_DOWNLOAD_BLOB_STREAM_THRESHOLD_BYTES,
        batch_update_budget_bytes = DEFAULT_BATCH_UPDATE_BUDGET_BYTES,
        find_missing_timeout = 10000, batch_read_timeout = 30000, batch_update_timeout = 30000,
        bytestream_idle_timeout = 30000, max_attempts = DEFAULT_ATTEMPTS\<rparr> in
      and_then (result_context CasContext ''validate CAS instance name while constructing CasConfig''
        (validate_instance_name (instance_name config))) (\<lambda>_.
      and_then (result_context CasContext ''validate retry attempts while constructing CasConfig''
        (validate_retry_attempts (max_attempts config))) (\<lambda>_. Ok config)))"

fun operation_timeout :: "cas_operation \<Rightarrow> cas_config \<Rightarrow> duration" where
  "operation_timeout FindMissingBlobs c = find_missing_timeout c"
| "operation_timeout BatchReadBlobs c = batch_read_timeout c"
| "operation_timeout BatchUpdateBlobs c = batch_update_timeout c"
| "operation_timeout ByteStreamRead c = bytestream_idle_timeout c"
| "operation_timeout ByteStreamWrite c = bytestream_idle_timeout c"
| "operation_timeout Connect c = 30000"

text \<open>\<open>parse_endpoint\<close> is \<^verbatim>\<open>Endpoint::from_shared\<close>, \<open>dial\<close> the transport's \<^verbatim>\<open>connect\<close>.\<close>

definition connect ::
  "(string \<Rightarrow> (unit, string) result) \<Rightarrow> (string \<Rightarrow> ('s channel, string) result) \<Rightarrow> 's host \<Rightarrow> cas_config \<Rightarrow>
     ('s cas_client, cas_error) result" where
  "connect parse_endpoint dial host config =
     and_then (result_context CasContext ''validate CAS instance name before connecting''
       (validate_instance_name (instance_name config))) (\<lambda>_.
     and_then (result_context CasContext ''validate retry attempts before connecting''
       (validate_retry_attempts (max_attempts config))) (\<lambda>_.
     and_then (result_context CasContext ''parse grpc CAS endpoint''
       (endpoint_from_grpc_url (cas_url config))) (\<lambda>endpoint.
     and_then (map_err (Transport Connect (cas_url config) (instance_name config)) (parse_endpoint endpoint)) (\<lambda>_.
     and_then (map_err (Transport Connect (cas_url config) (instance_name config)) (dial endpoint)) (\<lambda>channel.
       Ok \<lparr>cc_config = config, cc_channel = channel, cc_host = host\<rparr>)))))"

section \<open>Resource names and sizes\<close>

definition bytestream_read_resource_name :: "string \<Rightarrow> digest \<Rightarrow> string" where
  "bytestream_read_resource_name name d =
     name @ ''/blobs/'' @ hash d @ ''/'' @ show_int (size_bytes d)"

definition bytestream_write_resource_name :: "string \<Rightarrow> string \<Rightarrow> digest \<Rightarrow> string" where
  "bytestream_write_resource_name uuid name d =
     name @ ''/uploads/'' @ uuid @ ''/blobs/'' @ hash d @ ''/'' @ show_int (size_bytes d)"

definition digest_size_u64 :: "digest \<Rightarrow> (u64, cas_error) result" where
  "digest_size_u64 d = ok_or (u64_try_from_i64 (size_bytes d)) (ReApiConversion ''convert digest size into u64'')"

definition digest_size_usize :: "digest \<Rightarrow> (usize, cas_error) result" where
  "digest_size_usize d = ok_or (u64_try_from_i64 (size_bytes d)) (ReApiConversion ''convert digest size into usize'')"

definition verify_download :: "(bytes \<Rightarrow> string) \<Rightarrow> digest \<Rightarrow> bytes \<Rightarrow> (unit, cas_error) result" where
  "verify_download sha d bs = map_err (Verification d) (verify_bytes sha d bs)"

section \<open>Retries\<close>

text \<open>\<^verbatim>\<open>to_ascii_lowercase().contains("reset")\<close>.\<close>

definition ascii_lower :: "char \<Rightarrow> char" where
  "ascii_lower c = (if is_ascii_uppercase c then char_of (of_char c + (32 :: nat)) else c)"

definition is_retryable_status :: "status \<Rightarrow> bool" where
  "is_retryable_status s \<longleftrightarrow>
     st_code s \<in> {CodeUnavailable, CodeDeadlineExceeded, CodeResourceExhausted, CodeAborted} \<or>
     (st_code s = CodeInternal \<and> sublist ''reset'' (map ascii_lower (st_message s)))"

definition saturating_pred :: "usize \<Rightarrow> usize" where
  "saturating_pred n = saturating_sub_u64 n 1"

definition retry_backoff :: "usize \<Rightarrow> duration" where
  "retry_backoff attempt =
     (let i = unat (saturating_pred attempt) in
      if i < length RETRY_BACKOFFS then RETRY_BACKOFFS ! i else last RETRY_BACKOFFS)"

definition sleep_before_retry :: "usize \<Rightarrow> 's world \<Rightarrow> 's world" where
  "sleep_before_retry attempt w = w\<lparr>w_slept := w_slept w @ [retry_backoff attempt]\<rparr>"

definition rpc_error :: "cas_config \<Rightarrow> cas_operation \<Rightarrow> usize \<Rightarrow> status \<Rightarrow> cas_error" where
  "rpc_error config operation attempts s = Rpc operation attempts (cas_url config) (instance_name config) s"

function retry_from ::
  "cas_config \<Rightarrow> cas_operation \<Rightarrow> ('s, 'r) rpc \<Rightarrow> usize \<Rightarrow> 's world \<Rightarrow> ('r, cas_error) result \<times> 's world" where
  "retry_from config operation op attempt w =
     (case op (operation_timeout operation config) (w_remote w) of
        (Finished (Inr response), r) \<Rightarrow> (Ok response, w\<lparr>w_remote := r\<rparr>)
      | (Finished (Inl s), r) \<Rightarrow>
          if attempt < max_attempts config \<and> is_retryable_status s
          then retry_from config operation op (attempt + 1) (sleep_before_retry attempt (w\<lparr>w_remote := r\<rparr>))
          else (Err (rpc_error config operation attempt s), w\<lparr>w_remote := r\<rparr>)
      | (Elapsed, r) \<Rightarrow>
          if attempt < max_attempts config
          then retry_from config operation op (attempt + 1) (sleep_before_retry attempt (w\<lparr>w_remote := r\<rparr>))
          else (Err (rpc_error config operation attempt (deadline_exceeded ''operation attempt timed out'')),
                w\<lparr>w_remote := r\<rparr>))"
  by pat_completeness auto

lemma unat_Suc_attempt: "a < (b :: usize) \<Longrightarrow> unat (a + 1) = Suc (unat a)"
  using unsigned_less [of b, where ?'a = nat] by (simp add: word_less_nat_alt unat_word_ariths)

termination retry_from
  by (relation "measure (\<lambda>(config, operation, op, attempt, w). unat (max_attempts config) - unat attempt)")
    (auto simp: unat_Suc_attempt word_less_nat_alt intro!: diff_less_mono2)

declare retry_from.simps [simp del]

definition retry_rpc ::
  "'s cas_client \<Rightarrow> cas_operation \<Rightarrow> ('s, 'r) rpc \<Rightarrow> 's world \<Rightarrow> ('r, cas_error) result \<times> 's world" where
  "retry_rpc c operation op w = retry_from (cc_config c) operation op 1 w"


section \<open>Queries and downloads\<close>

definition parse_response_digests :: "cas_operation \<Rightarrow> re_digest list \<Rightarrow> (digest list, cas_error) result" where
  "parse_response_digests operation ds = map_err (InvalidResponseDigest operation) (collect from_reapi ds)"

definition find_missing_blobs ::
  "'s cas_client \<Rightarrow> digest list \<Rightarrow> 's world \<Rightarrow> (digest list, cas_error) result \<times> 's world" where
  "find_missing_blobs c digests w =
     (let request = \<lparr>fm_instance_name = instance_name (cc_config c), fm_blob_digests = map to_reapi digests\<rparr> in
      case retry_rpc c FindMissingBlobs (ch_find_missing (cc_channel c) request) w of
        (response, w') \<Rightarrow>
          (and_then (result_context CasContext ''check which blob digests are missing from CAS'' response)
             (parse_response_digests FindMissingBlobs), w'))"

definition blob_status_ok :: "cas_operation \<Rightarrow> digest \<Rightarrow> rpc_status option \<Rightarrow> (unit, cas_error) result" where
  "blob_status_ok operation d s =
     (case s of
        Some s \<Rightarrow> if rs_code s \<noteq> 0 then Err (BlobStatus operation d (rs_message s)) else Ok ()
      | None \<Rightarrow> Ok ())"

definition batch_read_blob ::
  "(bytes \<Rightarrow> string) \<Rightarrow> 's cas_client \<Rightarrow> digest \<Rightarrow> 's world \<Rightarrow> (bytes, cas_error) result \<times> 's world" where
  "batch_read_blob sha c d w =
     (let request = \<lparr>br_instance_name = instance_name (cc_config c), br_digests = [to_reapi d]\<rparr> in
      case retry_rpc c BatchReadBlobs (ch_batch_read (cc_channel c) request) w of
        (response, w') \<Rightarrow>
          (and_then (result_context CasContext ''read blob with BatchReadBlobs'' response) (\<lambda>responses.
           and_then (case responses of [] \<Rightarrow> Err (MissingResponse BatchReadBlobs d) | x # _ \<Rightarrow> Ok x) (\<lambda>x.
           and_then (blob_status_ok BatchReadBlobs d (be_status x)) (\<lambda>_.
           and_then (result_context CasContext ''verify BatchReadBlobs response'' (verify_download sha d (be_data x)))
             (\<lambda>_. Ok (be_data x))))), w'))"

text \<open>
  The loop of \<^verbatim>\<open>bytestream_read_into\<close> over the events of the stream: the hasher's input and the byte counter
  so far, and the caller's destination.
\<close>

fun read_chunks ::
  "cas_config \<Rightarrow> 'w writer \<Rightarrow> digest \<Rightarrow> read_event list \<Rightarrow> bytes \<Rightarrow> u64 \<Rightarrow> 'w \<Rightarrow>
     (bytes \<times> u64, cas_error) result \<times> 'w" where
  "read_chunks config write_all d [] hashed written dest = (Ok (hashed, written), dest)"
| "read_chunks config write_all d (ChunkIdle # es) hashed written dest =
     (Err (rpc_error config ByteStreamRead 1 (deadline_exceeded ''idle timeout reading'')), dest)"
| "read_chunks config write_all d (ChunkFailed s # es) hashed written dest =
     (Err (rpc_error config ByteStreamRead 1
        \<lparr>st_code = st_code s, st_message = ''read next ByteStream chunk: '' @ st_message s\<rparr>), dest)"
| "read_chunks config write_all d (Chunk data # es) hashed written dest =
     (case write_all dest data of
        (Inl e, dest') \<Rightarrow> (Err (StreamWrite d e), dest')
      | (Inr _, dest') \<Rightarrow>
          (case u64_try_from_len (length data) of
             None \<Rightarrow> (Err (CasPanic ''chunk length fits u64''), dest')
           | Some n \<Rightarrow>
               (case checked_add_u64 written n of
                  None \<Rightarrow> (Err (BlobStatus ByteStreamRead d ''downloaded byte counter overflowed u64''), dest')
                | Some written' \<Rightarrow> read_chunks config write_all d es (hashed @ data) written' dest')))"

definition check_streamed :: "(bytes \<Rightarrow> string) \<Rightarrow> digest \<Rightarrow> bytes \<Rightarrow> u64 \<Rightarrow> (unit, cas_error) result" where
  "check_streamed sha d hashed written =
     and_then (ok_or (i64_try_from_u64 written) (ReApiConversion ''convert streamed size into i64'')) (\<lambda>n.
     and_then (map_err (\<lambda>_. CasPanic ''SHA-256 output and non-negative size form a valid digest'')
       (digest_new (sha hashed) n)) (\<lambda>actual.
       if actual \<noteq> d then Err (BlobStatus ByteStreamRead d ''downloaded digest differs'') else Ok ()))"

definition bytestream_read_into ::
  "(bytes \<Rightarrow> string) \<Rightarrow> 's cas_client \<Rightarrow> 'w writer \<Rightarrow> digest \<Rightarrow> 'w \<Rightarrow> 's world \<Rightarrow>
     (unit, cas_error) result \<times> 'w \<times> 's world" where
  "bytestream_read_into sha c write_all d dest w =
     (let request = \<lparr>rr_resource_name = bytestream_read_resource_name (instance_name (cc_config c)) d,
                     rr_read_offset = 0, rr_read_limit = 0\<rparr> in
      case retry_rpc c ByteStreamRead
             (ch_read (cc_channel c) request (bytestream_idle_timeout (cc_config c))) w of
        (response, w') \<Rightarrow>
          (case result_context CasContext ''start ByteStream.Read'' response of
             Inl e \<Rightarrow> (Err e, dest, w')
           | Inr events \<Rightarrow>
               (case read_chunks (cc_config c) write_all d events [] 0 dest of
                  (Inl e, dest') \<Rightarrow> (Err e, dest', w')
                | (Inr (hashed, written), dest') \<Rightarrow> (check_streamed sha d hashed written, dest', w'))))"

definition stream_blob ::
  "(bytes \<Rightarrow> string) \<Rightarrow> 's cas_client \<Rightarrow> 'w writer \<Rightarrow> digest \<Rightarrow> 'w \<Rightarrow> 's world \<Rightarrow>
     (unit, cas_error) result \<times> 'w \<times> 's world" where
  "stream_blob sha c write_all d dest w =
     (case digest_size_usize d of
        Inl e \<Rightarrow> (Err e, dest, w)
      | Inr sz \<Rightarrow>
          if sz \<le> download_blob_stream_threshold_bytes (cc_config c) then
            (case batch_read_blob sha c d w of
               (r, w') \<Rightarrow>
                 (case result_context CasContext ''download blob through BatchReadBlobs'' r of
                    Inl e \<Rightarrow> (Err e, dest, w')
                  | Inr bs \<Rightarrow> (case write_all dest bs of (r, dest') \<Rightarrow> (map_err (StreamWrite d) r, dest', w'))))
          else
            (case bytestream_read_into sha c write_all d dest w of
               (r, dest', w') \<Rightarrow>
                 (result_context CasContext ''download blob through ByteStream.Read'' r, dest', w')))"

text \<open>\<^verbatim>\<open>Write for Vec<u8>\<close> of the standard library.\<close>

definition vec_write_all :: "bytes writer" where
  "vec_write_all v bs = (Ok (), v @ bs)"

definition download_blob ::
  "(bytes \<Rightarrow> string) \<Rightarrow> 's cas_client \<Rightarrow> digest \<Rightarrow> 's world \<Rightarrow> (bytes, cas_error) result \<times> 's world" where
  "download_blob sha c d w =
     (case stream_blob sha c vec_write_all d [] w of (r, bs, w') \<Rightarrow> (and_then r (\<lambda>_. Ok bs), w'))"

section \<open>Uploads\<close>

datatype blob_contents = BlobBytes bytes | FilePath string

record blob =
  bl_digest :: digest
  bl_contents :: blob_contents

definition blob_from_bytes :: "(bytes \<Rightarrow> string) \<Rightarrow> bytes \<Rightarrow> blob" where
  "blob_from_bytes sha data = \<lparr>bl_digest = for_bytes sha data, bl_contents = BlobBytes data\<rparr>"

definition blob_from_file_path :: "digest \<Rightarrow> string \<Rightarrow> blob" where
  "blob_from_file_path d path = \<lparr>bl_digest = d, bl_contents = FilePath path\<rparr>"

record upload_stats =
  uploaded_blobs :: usize
  bytes_uploaded :: u64

record batch_update_state =
  bs_blobs :: "blob list"
  bs_bytes :: usize
  bs_next_index :: usize

definition batch_new :: batch_update_state where
  "batch_new = \<lparr>bs_blobs = [], bs_bytes = 0, bs_next_index = 0\<rparr>"

definition batch_is_empty :: "batch_update_state \<Rightarrow> bool" where
  "batch_is_empty b \<longleftrightarrow> bs_blobs b = []"

definition would_exceed_budget :: "batch_update_state \<Rightarrow> usize \<Rightarrow> usize \<Rightarrow> bool" where
  "would_exceed_budget b sz budget \<longleftrightarrow> \<not> batch_is_empty b \<and> bs_bytes b + sz > budget"

definition batch_push :: "blob \<Rightarrow> usize \<Rightarrow> batch_update_state \<Rightarrow> batch_update_state" where
  "batch_push x sz b = b\<lparr>bs_bytes := bs_bytes b + sz, bs_blobs := bs_blobs b @ [x]\<rparr>"

definition batch_take :: "batch_update_state \<Rightarrow> blob list \<times> batch_update_state" where
  "batch_take b = (bs_blobs b, b\<lparr>bs_bytes := 0, bs_next_index := bs_next_index b + 1, bs_blobs := []\<rparr>)"

definition batch_update_request :: "blob \<Rightarrow> (update_request, cas_error) result" where
  "batch_update_request b =
     (case bl_contents b of
        BlobBytes data \<Rightarrow> Ok \<lparr>ur_digest = Some (to_reapi (bl_digest b)), ur_data = data\<rparr>
      | FilePath _ \<Rightarrow>
          Err (BlobStatus BatchUpdateBlobs (bl_digest b) ''batch construction requires byte-backed blob contents''))"

definition load_blob_as_bytes :: "'s cas_client \<Rightarrow> blob \<Rightarrow> usize \<Rightarrow> 's world \<Rightarrow> (blob, cas_error) result" where
  "load_blob_as_bytes c b expected w =
     (case bl_contents b of
        BlobBytes data \<Rightarrow>
          if length data \<noteq> unat expected
          then Err (BlobStatus BatchUpdateBlobs (bl_digest b) ''byte-backed blob size does not match digest'')
          else Ok \<lparr>bl_digest = bl_digest b, bl_contents = BlobBytes data\<rparr>
      | FilePath path \<Rightarrow>
          and_then (map_err (CasIo BatchUpdateBlobs path) (h_read_file (cc_host c) path (w_remote w))) (\<lambda>data.
            if length data \<noteq> unat expected
            then Err (BlobStatus BatchUpdateBlobs (bl_digest b) ''path-backed blob size changed before upload'')
            else Ok \<lparr>bl_digest = bl_digest b, bl_contents = BlobBytes data\<rparr>))"

definition check_update_response :: "update_entry list \<Rightarrow> blob \<Rightarrow> (unit, cas_error) result" where
  "check_update_response responses b =
     and_then (ok_or (find (\<lambda>x. ue_digest x = Some (to_reapi (bl_digest b))) responses)
         (MissingResponse BatchUpdateBlobs (bl_digest b))) (\<lambda>x.
       blob_status_ok BatchUpdateBlobs (bl_digest b) (ue_status x))"

definition upload_batch_to_cas ::
  "'s cas_client \<Rightarrow> blob list \<Rightarrow> 's world \<Rightarrow> (unit, cas_error) result \<times> 's world" where
  "upload_batch_to_cas c batch w =
     (case collect batch_update_request batch of
        Inl e \<Rightarrow> (Err e, w)
      | Inr requests \<Rightarrow>
          let request = \<lparr>bu_instance_name = instance_name (cc_config c), bu_requests = requests\<rparr> in
          (case retry_rpc c BatchUpdateBlobs (ch_batch_update (cc_channel c) request) w of
             (response, w') \<Rightarrow>
               (and_then (result_context CasContext ''send BatchUpdateBlobs request'' response) (\<lambda>responses.
                  for_each (check_update_response responses) batch), w')))"

definition bytestream_write_status :: "status \<Rightarrow> status" where
  "bytestream_write_status s = \<lparr>st_code = st_code s, st_message = ''send ByteStream write request: '' @ st_message s\<rparr>"

definition bytestream_committed_size_error :: "write_response \<Rightarrow> digest \<Rightarrow> status option" where
  "bytestream_committed_size_error response d =
     (if committed_size response \<noteq> size_bytes d
      then Some \<lparr>st_code = CodeDataLoss, st_message = ''committed size differs''\<rparr> else None)"

definition check_write_response ::
  "digest \<Rightarrow> (write_response, status) result \<Rightarrow> (write_response, status) result" where
  "check_write_response d r =
     and_then (map_err bytestream_write_status r) (\<lambda>response.
       case bytestream_committed_size_error response d of Some s \<Rightarrow> Err s | None \<Rightarrow> Ok response)"

text \<open>The queue of capacity two always takes the single request of an in-memory write.\<close>

definition send_bytestream_bytes_write ::
  "'s cas_client \<Rightarrow> string \<Rightarrow> digest \<Rightarrow> bytes \<Rightarrow> ('s, write_response) rpc" where
  "send_bytestream_bytes_write c resource d data deadline r =
     (case ch_write (cc_channel c)
             [\<lparr>wr_resource_name = resource, wr_write_offset = 0, wr_finish_write = True, wr_data = data\<rparr>] deadline r of
        (_, Elapsed, r') \<Rightarrow> (Elapsed, r')
      | (_, Finished response, r') \<Rightarrow> (Finished (check_write_response d response), r'))"

text \<open>\<^verbatim>\<open>offset += read as i64\<close>.\<close>

definition add_i64 :: "int \<Rightarrow> int \<Rightarrow> int" where
  "add_i64 a b = (a + b + 2 ^ 63) mod 2 ^ 64 - 2 ^ 63"

fun send_bytestream_file_requests ::
  "string \<Rightarrow> int \<Rightarrow> (bytes, io_error) result list \<Rightarrow> write_request list \<times> (unit, status) result" where
  "send_bytestream_file_requests resource offset [] =
     ([\<lparr>wr_resource_name = resource, wr_write_offset = offset, wr_finish_write = True, wr_data = []\<rparr>], Ok ())"
| "send_bytestream_file_requests resource offset (Inl e # reads) = ([], Err (internal_status ''read file''))"
| "send_bytestream_file_requests resource offset (Inr data # reads) =
     (let request = \<lparr>wr_resource_name = resource, wr_write_offset = offset, wr_finish_write = (data = []), wr_data = data\<rparr> in
      if data = [] then ([request], Ok ())
      else (case send_bytestream_file_requests resource (add_i64 offset (as_i64 (length data))) reads of
              (rs, r) \<Rightarrow> (request # rs, r)))"

definition send_bytestream_file_write ::
  "'s cas_client \<Rightarrow> string \<Rightarrow> digest \<Rightarrow> string \<Rightarrow> ('s, write_response) rpc" where
  "send_bytestream_file_write c resource d path deadline r =
     (let (requests, produced) =
        (case h_open_file (cc_host c) path r of
           Inl e \<Rightarrow> ([], Err (internal_status ''open file''))
         | Inr reads \<Rightarrow> send_bytestream_file_requests resource 0 reads) in
      case ch_write (cc_channel c) requests deadline r of
        (_, Elapsed, r') \<Rightarrow> (Elapsed, r')
      | (queued, Finished response, r') \<Rightarrow>
          (Finished (and_then
             (if queued < length requests
              then Err (internal_status ''failed to queue ByteStream file write request'') else produced)
             (\<lambda>_. check_write_response d response)), r'))"

definition bytestream_write_file ::
  "'s cas_client \<Rightarrow> digest \<Rightarrow> string \<Rightarrow> 's world \<Rightarrow> (unit, cas_error) result \<times> 's world" where
  "bytestream_write_file c d path w =
     (let resource = bytestream_write_resource_name (h_uuid (cc_host c) (w_remote w)) (instance_name (cc_config c)) d in
      case retry_rpc c ByteStreamWrite (send_bytestream_file_write c resource d path) w of
        (r, w') \<Rightarrow> (map_ok (\<lambda>_. ()) (result_context CasContext ''write file to ByteStream resource'' r), w'))"

definition bytestream_write_blob ::
  "'s cas_client \<Rightarrow> blob \<Rightarrow> 's world \<Rightarrow> (unit, cas_error) result \<times> 's world" where
  "bytestream_write_blob c b w =
     (case bl_contents b of
        FilePath path \<Rightarrow> bytestream_write_file c (bl_digest b) path w
      | BlobBytes data \<Rightarrow>
          let resource = bytestream_write_resource_name (h_uuid (cc_host c) (w_remote w)) (instance_name (cc_config c))
                           (bl_digest b) in
          (case retry_rpc c ByteStreamWrite (send_bytestream_bytes_write c resource (bl_digest b) data) w of
             (r, w') \<Rightarrow> (map_ok (\<lambda>_. ()) (result_context CasContext ''write blob to ByteStream resource'' r), w')))"

definition upload_oversized_blob ::
  "'s cas_client \<Rightarrow> blob \<Rightarrow> 's world \<Rightarrow> (unit, cas_error) result \<times> 's world" where
  "upload_oversized_blob c b w =
     (case bytestream_write_blob c b w of
        (r, w') \<Rightarrow> (result_context CasContext ''upload oversized blob through ByteStream.Write'' r, w'))"

definition flush_batch_update ::
  "'s cas_client \<Rightarrow> batch_update_state \<Rightarrow> 's world \<Rightarrow> (unit, cas_error) result \<times> batch_update_state \<times> 's world" where
  "flush_batch_update c batch w =
     (if batch_is_empty batch then (Ok (), batch, w)
      else (case batch_take batch of
              (blobs, batch') \<Rightarrow>
                (case upload_batch_to_cas c blobs w of
                   (r, w') \<Rightarrow> (result_context CasContext ''upload BatchUpdateBlobs batch'' r, batch', w'))))"

fun upload_loop ::
  "'s cas_client \<Rightarrow> blob list \<Rightarrow> batch_update_state \<Rightarrow> 's world \<Rightarrow> (unit, cas_error) result \<times> 's world" where
  "upload_loop c [] batch w = (case flush_batch_update c batch w of (r, _, w') \<Rightarrow> (r, w'))"
| "upload_loop c (b # bs) batch w =
     (case digest_size_usize (bl_digest b) of
        Inl e \<Rightarrow> (Err e, w)
      | Inr sz \<Rightarrow>
          if sz > batch_update_budget_bytes (cc_config c) then
            (case flush_batch_update c batch w of
               (Inl e, batch1, w1) \<Rightarrow> (Err e, w1)
             | (Inr _, batch1, w1) \<Rightarrow>
                 (case upload_oversized_blob c b w1 of
                    (Inl e, w2) \<Rightarrow> (Err e, w2)
                  | (Inr _, w2) \<Rightarrow> upload_loop c bs batch1 w2))
          else
            (case load_blob_as_bytes c b sz w of
               Inl e \<Rightarrow> (Err e, w)
             | Inr loaded \<Rightarrow>
                 (case (if would_exceed_budget batch sz (batch_update_budget_bytes (cc_config c))
                        then flush_batch_update c batch w else (Ok (), batch, w)) of
                    (Inl e, batch1, w1) \<Rightarrow> (Err e, w1)
                  | (Inr _, batch1, w1) \<Rightarrow> upload_loop c bs (batch_push loaded sz batch1) w1)))"

definition upload_blobs_to_cas ::
  "'s cas_client \<Rightarrow> blob list \<Rightarrow> 's world \<Rightarrow> (unit, cas_error) result \<times> 's world" where
  "upload_blobs_to_cas c blobs w = upload_loop c blobs batch_new w"

fun sum_blob_sizes :: "u64 \<Rightarrow> blob list \<Rightarrow> (u64, cas_error) result" where
  "sum_blob_sizes acc [] = Ok acc"
| "sum_blob_sizes acc (b # bs) =
     and_then (digest_size_u64 (bl_digest b)) (\<lambda>sz.
     and_then (ok_or (checked_add_u64 acc sz)
         (BlobStatus BatchUpdateBlobs (bl_digest b) ''uploaded byte counter overflowed u64'')) (\<lambda>acc'.
       sum_blob_sizes acc' bs))"

definition upload_blobs ::
  "'s cas_client \<Rightarrow> blob list \<Rightarrow> 's world \<Rightarrow> (upload_stats, cas_error) result \<times> 's world" where
  "upload_blobs c blobs w =
     (case sum_blob_sizes 0 blobs of
        Inl e \<Rightarrow> (Err e, w)
      | Inr acc \<Rightarrow>
          (case upload_blobs_to_cas c blobs w of
             (r, w') \<Rightarrow>
               (and_then (result_context CasContext ''upload caller-selected blobs'' r) (\<lambda>_.
                  Ok \<lparr>uploaded_blobs = of_nat (length blobs), bytes_uploaded = acc\<rparr>), w')))"


section \<open>The retry loop\<close>

text \<open>
  The sequence of attempts a loop would make if it never stopped: the remote state before attempt \<open>k\<close>
  (from zero) and the outcome of attempt \<open>k\<close>.
\<close>

fun remote_after :: "('s, 'r) rpc \<Rightarrow> duration \<Rightarrow> nat \<Rightarrow> 's \<Rightarrow> 's" where
  "remote_after op dl 0 r = r"
| "remote_after op dl (Suc k) r = remote_after op dl k (snd (op dl r))"

definition nth_attempt :: "('s, 'r) rpc \<Rightarrow> duration \<Rightarrow> nat \<Rightarrow> 's \<Rightarrow> 'r attempt" where
  "nth_attempt op dl k r = fst (op dl (remote_after op dl k r))"

fun retryable :: "'r attempt \<Rightarrow> bool" where
  "retryable Elapsed = True"
| "retryable (Finished (Inl s)) = is_retryable_status s"
| "retryable (Finished (Inr x)) = False"

fun attempt_result :: "cas_config \<Rightarrow> cas_operation \<Rightarrow> usize \<Rightarrow> 'r attempt \<Rightarrow> ('r, cas_error) result" where
  "attempt_result config operation n Elapsed =
     Err (rpc_error config operation n (deadline_exceeded ''operation attempt timed out''))"
| "attempt_result config operation n (Finished (Inl s)) = Err (rpc_error config operation n s)"
| "attempt_result config operation n (Finished (Inr x)) = Ok x"

lemma nth_attempt_simps [simp]:
  "nth_attempt op dl 0 r = fst (op dl r)"
  "nth_attempt op dl (Suc k) r = nth_attempt op dl k (snd (op dl r))"
  by (simp_all add: nth_attempt_def)

lemma retry_backoff_eq: "0 < unat a \<Longrightarrow> retry_backoff a = RETRY_BACKOFFS ! min (unat a - 1) 3"
  by (auto simp: retry_backoff_def saturating_pred_def unat_saturating_sub RETRY_BACKOFFS_def Let_def min_def
      numeral_nat less_Suc_eq)

lemma retry_from_step:
  "retry_from config operation op a w =
     (case op (operation_timeout operation config) (w_remote w) of
        (out, r) \<Rightarrow>
          if a < max_attempts config \<and> retryable out
          then retry_from config operation op (a + 1) (sleep_before_retry a (w\<lparr>w_remote := r\<rparr>))
          else (attempt_result config operation a out, w\<lparr>w_remote := r\<rparr>))"
  by (subst retry_from.simps) (auto split: prod.splits attempt.splits sum.splits)

lemma retry_from_spec:
  assumes "0 < unat a" "unat a \<le> max 1 (unat (max_attempts config))"
  shows "\<exists>n. unat a + n \<le> max 1 (unat (max_attempts config)) \<and>
    (\<forall>k < n. retryable (nth_attempt op (operation_timeout operation config) k (w_remote w))) \<and>
    (retryable (nth_attempt op (operation_timeout operation config) n (w_remote w)) \<longrightarrow>
       unat (max_attempts config) \<le> unat a + n) \<and>
    retry_from config operation op a w =
      (attempt_result config operation (of_nat (unat a + n)) (nth_attempt op (operation_timeout operation config) n (w_remote w)),
       w\<lparr>w_remote := remote_after op (operation_timeout operation config) (Suc n) (w_remote w),
         w_slept := w_slept w @ map (\<lambda>k. RETRY_BACKOFFS ! min (unat a - 1 + k) 3) [0..<n]\<rparr>)"
  using assms
proof (induction "unat (max_attempts config) - unat a" arbitrary: a w)
  case (0 a w)
  then have "\<not> a < max_attempts config" by (simp add: word_less_nat_alt)
  with 0 show ?case
    by (intro exI [of _ 0]) (auto simp: retry_from_step [of config operation op a w] split: prod.splits)
next
  case (Suc m a w)
  let ?dl = "operation_timeout operation config"
  obtain out r where o: "op ?dl (w_remote w) = (out, r)" by fastforce
  have lt: "a < max_attempts config" using Suc.hyps(2) by (simp add: word_less_nat_alt)
  show ?case
  proof (cases "retryable out")
    case True
    let ?w = "sleep_before_retry a (w\<lparr>w_remote := r\<rparr>)"
    have u: "unat (a + 1) = Suc (unat a)" by (rule unat_Suc_attempt [OF lt])
    have "m = unat (max_attempts config) - unat (a + 1)" using Suc.hyps(2) u by simp
    moreover have "0 < unat (a + 1)" "unat (a + 1) \<le> max 1 (unat (max_attempts config))"
      using u lt by (simp_all add: word_less_nat_alt)
    moreover have wr: "w_remote ?w = r" "w_slept ?w = w_slept w @ [retry_backoff a]" by (simp_all add: sleep_before_retry_def)
    ultimately obtain n where n: "Suc (unat a) + n \<le> max 1 (unat (max_attempts config))"
      "\<forall>k < n. retryable (nth_attempt op ?dl k r)"
      "retryable (nth_attempt op ?dl n r) \<longrightarrow> unat (max_attempts config) \<le> Suc (unat a) + n"
      "retry_from config operation op (a + 1) ?w =
        (attempt_result config operation (of_nat (Suc (unat a) + n)) (nth_attempt op ?dl n r),
         ?w\<lparr>w_remote := remote_after op ?dl (Suc n) r,
            w_slept := (w_slept w @ [retry_backoff a]) @ map (\<lambda>k. RETRY_BACKOFFS ! min (Suc (unat a) - 1 + k) 3) [0..<n]\<rparr>)"
      using Suc.hyps(1) [of "a + 1" ?w] unfolding u wr by blast
    have "[retry_backoff a] @ map (\<lambda>k. RETRY_BACKOFFS ! min (unat a + k) 3) [0..<n] =
        map (\<lambda>k. RETRY_BACKOFFS ! min (unat a - 1 + k) 3) [0..<Suc n]"
      unfolding upt_conv_Cons [OF zero_less_Suc] map_Suc_upt [symmetric] using Suc.prems(1)
      by (simp add: retry_backoff_eq)
    with n o True lt Suc.prems(1) show ?thesis
      by (intro exI [of _ "Suc n"])
        (simp add: retry_from_step [of config operation op a w] sleep_before_retry_def All_less_Suc2)
  next
    case False
    with o Suc.prems show ?thesis
      by (intro exI [of _ 0]) (simp add: retry_from_step [of config operation op a w])
  qed
qed


section \<open>Downloads\<close>

definition writes :: "'w writer \<Rightarrow> bytes list \<Rightarrow> 'w \<Rightarrow> 'w" where
  "writes write_all bss dest = fold (\<lambda>bs q. snd (write_all q bs)) bss dest"

lemma writes_simps [simp]:
  "writes wa [] dest = dest"
  "writes wa (bs # bss) dest = writes wa bss (snd (wa dest bs))"
  by (simp_all add: writes_def)

lemma writes_vec: "writes vec_write_all bss v = v @ concat bss"
  by (induction bss arbitrary: v) (simp_all add: vec_write_all_def)

lemma read_chunks_effect:
  assumes "read_chunks config wa d es hashed n dest = (r, dest')"
  shows "\<exists>bss. dest' = writes wa bss dest \<and>
    (\<forall>h m. r = Ok (h, m) \<longrightarrow> h = hashed @ concat bss \<and> (unat n = length hashed \<longrightarrow> unat m = length h))"
  using assms
proof (induction config wa d es hashed n dest arbitrary: r rule: read_chunks.induct)
  case (4 config wa d data es hashed n dest)
  obtain rw dest1 where w: "wa dest data = (rw, dest1)" by fastforce
  show ?case
  proof (cases "\<exists>u k m. rw = Ok u \<and> u64_try_from_len (length data) = Some k \<and> checked_add_u64 n k = Some m")
    case True
    then obtain k m where k: "rw = Ok ()" "u64_try_from_len (length data) = Some k" "checked_add_u64 n k = Some m"
      by auto
    have "read_chunks config wa d es (hashed @ data) m dest1 = (r, dest')" using "4.prems" w k by simp
    from "4.IH" [OF w [symmetric] k(1) k(2,3) this] obtain bss where bss: "dest' = writes wa bss dest1"
      "\<forall>h l. r = Ok (h, l) \<longrightarrow> h = (hashed @ data) @ concat bss \<and> (unat m = length (hashed @ data) \<longrightarrow> unat l = length h)"
      by blast
    have "unat m = length (hashed @ data)" if "unat n = length hashed"
      using checked_add_u64_Some [OF k(3)] k(2) that by (auto simp: u64_try_from_len_def unat_of_nat split: if_splits)
    with bss w show ?thesis by (intro exI [of _ "data # bss"]) auto
  next
    case False
    with "4.prems" w show ?thesis
      by (intro exI [of _ "[data]"]) (auto split: sum.splits option.splits)
  qed
qed (rule exI [of _ "[]"], force)+

lemma check_streamed_Ok:
  assumes "check_streamed sha d h n = Ok ()" "unat n = length h"
  shows "for_bytes sha h = d"
proof -
  have len: "int (length h) = uint n" using assms(2) by (metis int_nat_eq uint_nat)
  have n: "uint n \<le> i64_max" and d: "digest_new (sha h) (uint n) = Ok d"
    using assms(1) by (auto simp: check_streamed_def result_simps conv_simps split: if_splits)
  have "as_i64 (length h) = uint n" using as_i64_small [of "length h"] len n by simp
  moreover have "d = \<lparr>hash = sha h, size_bytes = uint n\<rparr>" using d by (auto simp: digest_new_def split: if_splits)
  ultimately show ?thesis by (simp add: for_bytes_def)
qed

lemma batch_read_blob_Ok: "batch_read_blob sha c d w = (Ok bs, w') \<Longrightarrow> for_bytes sha bs = d"
  by (auto simp: batch_read_blob_def Let_def result_simps verify_download_def verify_bytes_eq_Ok split: prod.splits)

lemma stream_blob_effect:
  assumes "stream_blob sha c wa d dest w = (r, dest', w')"
  shows "\<exists>bss. dest' = writes wa bss dest \<and> (r = Ok () \<longrightarrow> for_bytes sha (concat bss) = d)"
proof (cases "\<exists>sz. digest_size_usize d = Ok sz \<and> \<not> sz \<le> download_blob_stream_threshold_bytes (cc_config c)")
  case True
  obtain rr w1 where r1: "retry_rpc c ByteStreamRead (ch_read (cc_channel c)
      \<lparr>rr_resource_name = bytestream_read_resource_name (instance_name (cc_config c)) d, rr_read_offset = 0, rr_read_limit = 0\<rparr>
      (bytestream_idle_timeout (cc_config c))) w = (rr, w1)" by fastforce
  show ?thesis
  proof (cases rr)
    case (Inr es)
    obtain rc dest1 where rc: "read_chunks (cc_config c) wa d es [] 0 dest = (rc, dest1)" by fastforce
    from read_chunks_effect [OF this] obtain bss where bss: "dest1 = writes wa bss dest"
      "\<forall>h m. rc = Ok (h, m) \<longrightarrow> h = concat bss \<and> unat m = length h" by auto
    have dest: "dest' = dest1" and ok: "r = Ok () \<Longrightarrow> \<exists>h m. rc = Ok (h, m) \<and> check_streamed sha d h m = Ok ()"
      using assms True r1 Inr rc
      by (auto simp: stream_blob_def bytestream_read_into_def Let_def result_simps split: sum.splits)
    have "for_bytes sha (concat bss) = d" if r: "r = Ok ()"
    proof -
      obtain h m where h: "rc = Ok (h, m)" "check_streamed sha d h m = Ok ()" using ok [OF r] by (elim exE conjE)
      then have "h = concat bss" "unat m = length h" using bss(2) by simp_all
      with check_streamed_Ok [OF h(2)] show ?thesis by simp
    qed
    with bss(1) dest show ?thesis by (intro exI [of _ bss]) simp
  qed (use assms True r1 in \<open>auto simp: stream_blob_def bytestream_read_into_def Let_def intro!: exI [of _ "[]"]\<close>)
next
  case False
  show ?thesis
  proof (cases "\<exists>sz bs w1. digest_size_usize d = Ok sz \<and> batch_read_blob sha c d w = (Ok bs, w1)")
    case True
    then obtain bs w1 where b: "batch_read_blob sha c d w = (Ok bs, w1)" by blast
    with assms False True have "dest' = writes wa [bs] dest"
      by (auto simp: stream_blob_def split: prod.splits)
    with batch_read_blob_Ok [OF b] show ?thesis by (intro exI [of _ "[bs]"]) simp
  qed (use assms False in \<open>auto simp: stream_blob_def result_context_eq_Ok split: sum.splits prod.splits intro!: exI [of _ "[]"]\<close>)
qed

text \<open>
  The blob store the daemon hands to its session: the CAS client in some state of the world, writing into a
  pending blob. It keeps the contract of a blob source, whatever the remote service does.
\<close>

definition cas_stream :: "(bytes \<Rightarrow> string) \<Rightarrow> 's cas_client \<Rightarrow> 's world \<Rightarrow> fs_env \<Rightarrow> stream" where
  "cas_stream sha c w env d p =
     (case stream_blob sha c (pending_write_all env) d p w of
        (r, p', _) \<Rightarrow> (map_err (\<lambda>_. ''CAS error'') r, p'))"

interpretation cas_source: blob_source env "cas_stream sha c w env" for sha c w env
proof
  have "\<exists>bss. snd (cas_stream sha c w env d p) = write_chunks env bss p" for d p
    using stream_blob_effect [of sha c "pending_write_all env" d p w]
    by (cases "stream_blob sha c (pending_write_all env) d p w") (auto simp: cas_stream_def write_chunks_def writes_def)
  then show "stream_writes env (cas_stream sha c w env)" unfolding stream_writes_def by blast
qed


section \<open>Uploads\<close>

text \<open>
  To speak about the calls an upload makes, the remote state is paired with a log: \<open>recording c\<close> is the client
  \<open>c\<close> whose channel appends every existence check, update and write call, with its outcome, to the log.
\<close>

datatype cas_call =
    FindMissingCall find_missing_request "re_digest list attempt"
  | BatchUpdateCall batch_update_blobs_request "update_entry list attempt"
  | WriteCall "write_request list" "write_response attempt"

definition recording :: "'s cas_client \<Rightarrow> ('s \<times> cas_call list) cas_client" where
  "recording c =
     (let ch = cc_channel c; h = cc_host c in
      \<lparr>cc_config = cc_config c,
       cc_channel =
         \<lparr>ch_find_missing = (\<lambda>q dl (s, l). case ch_find_missing ch q dl s of (x, s') \<Rightarrow> (x, s', l @ [FindMissingCall q x])),
          ch_batch_read = (\<lambda>q dl (s, l). case ch_batch_read ch q dl s of (x, s') \<Rightarrow> (x, s', l)),
          ch_batch_update = (\<lambda>q dl (s, l). case ch_batch_update ch q dl s of (x, s') \<Rightarrow> (x, s', l @ [BatchUpdateCall q x])),
          ch_read = (\<lambda>q idle dl (s, l). case ch_read ch q idle dl s of (x, s') \<Rightarrow> (x, s', l)),
          ch_write = (\<lambda>q dl (s, l). case ch_write ch q dl s of (k, x, s') \<Rightarrow> (k, x, s', l @ [WriteCall q x]))\<rparr>,
       cc_host =
         \<lparr>h_read_file = (\<lambda>p (s, l). h_read_file h p s), h_open_file = (\<lambda>p (s, l). h_open_file h p s),
          h_uuid = (\<lambda>(s, l). h_uuid h s)\<rparr>\<rparr>)"

abbreviation call_log :: "('s \<times> cas_call list) world \<Rightarrow> cas_call list" where
  "call_log w \<equiv> snd (w_remote w)"

lemma recording_config [simp]: "cc_config (recording c) = cc_config c"
  by (simp add: recording_def Let_def)

text \<open>What one call acknowledges: the service confirmed the blob, and was sent its bytes.\<close>

fun acknowledges :: "string \<Rightarrow> cas_call \<Rightarrow> blob \<Rightarrow> bool" where
  "acknowledges name (BatchUpdateCall q (Finished (Inr entries))) b \<longleftrightarrow>
     (\<exists>u \<in> set (bu_requests q). ur_digest u = Some (to_reapi (bl_digest b)) \<and>
        (\<forall>data. bl_contents b = BlobBytes data \<longrightarrow> ur_data u = data)) \<and>
     (\<exists>x \<in> set entries. ue_digest x = Some (to_reapi (bl_digest b)) \<and> (\<forall>s. ue_status x = Some s \<longrightarrow> rs_code s = 0))"
| "acknowledges name (WriteCall rs (Finished (Inr response))) b \<longleftrightarrow>
     committed_size response = size_bytes (bl_digest b) \<and>
     (\<exists>uuid. \<forall>q \<in> set rs. wr_resource_name q = bytestream_write_resource_name uuid name (bl_digest b)) \<and>
     (\<forall>data. bl_contents b = BlobBytes data \<longrightarrow> concat (map wr_data rs) = data)"
| "acknowledges name _ b \<longleftrightarrow> False"

text \<open>What every update request obeys: it is not empty, stays within the budget and sends data of the announced sizes.\<close>

fun within_budget :: "usize \<Rightarrow> cas_call \<Rightarrow> bool" where
  "within_budget budget (BatchUpdateCall q x) \<longleftrightarrow> bu_requests q \<noteq> [] \<and>
     sum_list (map (\<lambda>u. length (ur_data u)) (bu_requests q)) \<le> unat budget \<and>
     (\<forall>u \<in> set (bu_requests q). \<exists>d. ur_digest u = Some (to_reapi d) \<and> int (length (ur_data u)) = size_bytes d)"
| "within_budget budget _ \<longleftrightarrow> True"

text \<open>A check that asked for the digest and did not list it as missing.\<close>

fun reported_present :: "cas_call \<Rightarrow> digest \<Rightarrow> bool" where
  "reported_present (FindMissingCall q (Finished (Inr missing))) d \<longleftrightarrow>
     to_reapi d \<in> set (fm_blob_digests q) \<and> to_reapi d \<notin> set missing"
| "reported_present _ d \<longleftrightarrow> False"

lemma acknowledges_loaded:
  "acknowledges name x b' \<Longrightarrow> bl_digest b' = bl_digest b \<Longrightarrow>
     (\<And>data. bl_contents b = BlobBytes data \<Longrightarrow> bl_contents b' = BlobBytes data) \<Longrightarrow> acknowledges name x b"
  by (induction name x b rule: acknowledges.induct) auto

lemma remote_after_log:
  assumes "\<And>r. \<exists>r' x. snd (op dl r) = (r', snd r @ [x]) \<and> P x (fst (op dl r))"
  shows "\<exists>calls. snd (remote_after op dl (Suc n) r) = snd r @ calls \<and> calls \<noteq> [] \<and>
    (\<forall>x \<in> set calls. \<exists>out. P x out) \<and> P (last calls) (nth_attempt op dl n r)"
proof (induction n arbitrary: r)
  case 0
  obtain r' x where "snd (op dl r) = (r', snd r @ [x])" "P x (fst (op dl r))" using assms by blast
  then show ?case by (intro exI [of _ "[x]"]) auto
next
  case (Suc n)
  obtain r' x where x: "snd (op dl r) = (r', snd r @ [x])" "P x (fst (op dl r))" using assms by blast
  obtain calls where "snd (remote_after op dl (Suc n) (snd (op dl r))) = snd (snd (op dl r)) @ calls" "calls \<noteq> []"
    "\<forall>x \<in> set calls. \<exists>out. P x out" "P (last calls) (nth_attempt op dl n (snd (op dl r)))"
    using Suc.IH by blast
  with x show ?case by (intro exI [of _ "x # calls"]) auto
qed

lemma retry_rpc_log:
  assumes "\<And>dl r. \<exists>r' x. snd (op dl r) = (r', snd r @ [x]) \<and> P x (fst (op dl r))"
    and "retry_rpc c operation op w = (res, w')"
  shows "\<exists>calls. call_log w' = call_log w @ calls \<and> calls \<noteq> [] \<and>
    (\<forall>x \<in> set calls. \<exists>out. P x out) \<and> (\<forall>y. res = Ok y \<longrightarrow> P (last calls) (Finished (Ok y)))"
proof -
  let ?dl = "operation_timeout operation (cc_config c)"
  obtain n where n: "retry_from (cc_config c) operation op 1 w =
      (attempt_result (cc_config c) operation (of_nat (1 + n)) (nth_attempt op ?dl n (w_remote w)),
       w\<lparr>w_remote := remote_after op ?dl (Suc n) (w_remote w),
         w_slept := w_slept w @ map (\<lambda>k. RETRY_BACKOFFS ! min (1 - 1 + k) 3) [0..<n]\<rparr>)"
    using retry_from_spec [of 1 "cc_config c" op operation w] by auto
  have "nth_attempt op ?dl n (w_remote w) = Finished (Ok y)" if "res = Ok y" for y
    using n assms(2) that
    by (cases "nth_attempt op ?dl n (w_remote w)" rule: retryable.cases) (auto simp: retry_rpc_def)
  with remote_after_log [of op ?dl P n "w_remote w", OF assms(1)] n assms(2) show ?thesis
    by (auto simp: retry_rpc_def)
qed


lemma find_missing_effect:
  assumes "find_missing_blobs (recording c) ds w = (r, w')"
  shows "\<exists>calls. call_log w' = call_log w @ calls \<and>
    (\<forall>ms. r = Ok ms \<longrightarrow> (\<forall>d \<in> set ds - set ms. \<exists>x \<in> set calls. reported_present x d))"
proof -
  let ?q = "\<lparr>fm_instance_name = instance_name (cc_config c), fm_blob_digests = map to_reapi ds\<rparr>"
  let ?op = "ch_find_missing (cc_channel (recording c)) ?q"
  obtain res w1 where res: "retry_rpc (recording c) FindMissingBlobs ?op w = (res, w1)" by fastforce
  have op: "\<exists>r' x. snd (?op dl rr) = (r', snd rr @ [x]) \<and> x = FindMissingCall ?q (fst (?op dl rr))" for dl rr
    by (cases rr) (auto simp: recording_def Let_def split: prod.splits)
  obtain calls where calls: "call_log w1 = call_log w @ calls" "calls \<noteq> []"
    "\<forall>y. res = Ok y \<longrightarrow> last calls = FindMissingCall ?q (Finished (Ok y))"
    using retry_rpc_log [where P = "\<lambda>x out. x = FindMissingCall ?q out", OF op res] by blast
  have r: "w' = w1" "r = and_then (result_context CasContext ''check which blob digests are missing from CAS'' res)
      (parse_response_digests FindMissingBlobs)"
    using assms res by (simp_all add: find_missing_blobs_def Let_def)
  have "reported_present (last calls) d" if ms: "r = Ok ms" and d: "d \<in> set ds" "d \<notin> set ms" for ms d
  proof -
    obtain resp where resp: "res = Ok resp" "collect from_reapi resp = Ok ms"
      using ms r(2) by (auto simp: parse_response_digests_def result_simps)
    have "to_reapi d \<notin> set resp"
    proof
      assume "to_reapi d \<in> set resp"
      then obtain d' where "d' \<in> set ms" "from_reapi (to_reapi d) = Ok d'" using collect_Ok_mem(1) [OF resp(2)] by blast
      then have "to_reapi d' = to_reapi d" using from_reapi_OkD by blast
      then have "d' = d" by (simp add: to_reapi_def)
      with \<open>d' \<in> set ms\<close> d(2) show False by simp
    qed
    moreover have "last calls = FindMissingCall ?q (Finished (Ok resp))" using calls(3) resp(1) by blast
    ultimately show ?thesis using d(1) by simp
  qed
  then show ?thesis using calls(1) r(1) last_in_set [OF calls(2)] by (intro exI [of _ calls]) blast
qed

text \<open>One batch. A blob of a batch is loaded: it holds its bytes, of the size its digest announces.\<close>

fun blob_data :: "blob_contents \<Rightarrow> bytes" where
  "blob_data (BlobBytes data) = data"
| "blob_data (FilePath p) = []"

definition loaded :: "blob \<Rightarrow> bool" where
  "loaded b \<longleftrightarrow> (\<exists>data. bl_contents b = BlobBytes data \<and> int (length data) = size_bytes (bl_digest b))"

definition update_of :: "blob \<Rightarrow> update_request" where
  "update_of b = \<lparr>ur_digest = Some (to_reapi (bl_digest b)), ur_data = blob_data (bl_contents b)\<rparr>"

definition batch_size :: "blob list \<Rightarrow> nat" where
  "batch_size bs = sum_list (map (\<lambda>b. length (blob_data (bl_contents b))) bs)"

text \<open>What the log gains from an upload step: only calls within the budget, and on success acknowledgements of \<open>bs\<close>.\<close>

definition upload_effect ::
  "cas_config \<Rightarrow> blob set \<Rightarrow> (unit, cas_error) result \<Rightarrow> ('s \<times> cas_call list) world \<Rightarrow> ('s \<times> cas_call list) world \<Rightarrow> bool" where
  "upload_effect config bs r w w' \<longleftrightarrow> (\<exists>calls. call_log w' = call_log w @ calls \<and>
     (\<forall>x \<in> set calls. within_budget (batch_update_budget_bytes config) x) \<and>
     (r = Ok () \<longrightarrow> (\<forall>b \<in> bs. \<exists>x \<in> set calls. acknowledges (instance_name config) x b)))"

lemma upload_effect_refl: "r = Ok () \<longrightarrow> bs = {} \<Longrightarrow> upload_effect config bs r w w"
  by (auto simp: upload_effect_def)

lemma upload_effect_trans:
  assumes "upload_effect config bs (Ok ()) w w1" "upload_effect config bs' r w1 w2"
  shows "upload_effect config (bs \<union> bs') r w w2"
proof -
  obtain c1 where "call_log w1 = call_log w @ c1" "\<forall>x \<in> set c1. within_budget (batch_update_budget_bytes config) x"
    "\<forall>b \<in> bs. \<exists>x \<in> set c1. acknowledges (instance_name config) x b"
    using assms(1) by (auto simp: upload_effect_def)
  moreover obtain c2 where "call_log w2 = call_log w1 @ c2" "\<forall>x \<in> set c2. within_budget (batch_update_budget_bytes config) x"
    "r = Ok () \<longrightarrow> (\<forall>b \<in> bs'. \<exists>x \<in> set c2. acknowledges (instance_name config) x b)"
    using assms(2) by (auto simp: upload_effect_def)
  ultimately show ?thesis
    unfolding upload_effect_def by (intro exI [of _ "c1 @ c2"]) auto
qed

lemma upload_effect_mono:
  "upload_effect config bs r w w' \<Longrightarrow> r = Ok () \<longrightarrow> bs' \<subseteq> bs \<Longrightarrow> upload_effect config bs' r w w'"
  unfolding upload_effect_def by blast

lemma upload_effect_context [simp]:
  "upload_effect config bs (result_context CasContext op r) w w' = upload_effect config bs r w w'"
  by (cases r) (simp_all add: upload_effect_def)

lemma blob_status_ok_eq: "blob_status_ok operation d s = Ok () \<longleftrightarrow> (\<forall>x. s = Some x \<longrightarrow> rs_code x = 0)"
  by (auto simp: blob_status_ok_def split: option.splits if_splits)

lemma loaded_update:
  "loaded b \<Longrightarrow> \<exists>d. to_reapi (bl_digest b) = to_reapi d \<and> int (length (blob_data (bl_contents b))) = size_bytes d"
  by (auto simp: loaded_def)

lemma upload_batch_effect:
  assumes "upload_batch_to_cas (recording c) batch w = (r, w')" "\<forall>b \<in> set batch. loaded b" "batch \<noteq> []"
    and "batch_size batch \<le> unat (batch_update_budget_bytes (cc_config c))"
  shows "upload_effect (cc_config c) (set batch) r w w'"
proof -
  let ?q = "\<lparr>bu_instance_name = instance_name (cc_config c), bu_requests = map update_of batch\<rparr>"
  let ?op = "ch_batch_update (cc_channel (recording c)) ?q" and ?name = "instance_name (cc_config c)"
  have reqs: "collect batch_update_request batch = Ok (map update_of batch)"
    using assms(2) by (intro collect_total) (auto simp: batch_update_request_def loaded_def update_of_def)
  obtain res w1 where res: "retry_rpc (recording c) BatchUpdateBlobs ?op w = (res, w1)" by fastforce
  have op: "\<exists>r' x. snd (?op dl rr) = (r', snd rr @ [x]) \<and> x = BatchUpdateCall ?q (fst (?op dl rr))" for dl rr
    by (cases rr) (auto simp: recording_def Let_def split: prod.splits)
  obtain calls where calls: "call_log w1 = call_log w @ calls" "calls \<noteq> []" "\<forall>x \<in> set calls. \<exists>out. x = BatchUpdateCall ?q out"
    "\<forall>y. res = Ok y \<longrightarrow> last calls = BatchUpdateCall ?q (Finished (Ok y))"
    using retry_rpc_log [where P = "\<lambda>x out. x = BatchUpdateCall ?q out", OF op res] by blast
  have r: "w' = w1" "r = and_then (result_context CasContext ''send BatchUpdateBlobs request'' res)
      (\<lambda>es. for_each (check_update_response es) batch)"
    using assms(1) reqs res by (simp_all add: upload_batch_to_cas_def Let_def)
  have wb: "within_budget (batch_update_budget_bytes (cc_config c)) (BatchUpdateCall ?q out)" for out
    using assms(2-4) loaded_update by (simp add: update_of_def batch_size_def comp_def)
  have ack: "acknowledges ?name (last calls) b" if ok: "r = Ok ()" and b: "b \<in> set batch" for b
  proof -
    obtain es where es: "res = Ok es" "check_update_response es b = Ok ()"
      using ok b r(2) by (auto simp: result_simps)
    then obtain x where "x \<in> set es" "ue_digest x = Some (to_reapi (bl_digest b))" "\<forall>s. ue_status x = Some s \<longrightarrow> rs_code s = 0"
      by (auto simp: check_update_response_def result_simps blob_status_ok_eq dest: find_SomeD)
    moreover have "last calls = BatchUpdateCall ?q (Finished (Ok es))" using calls(4) es(1) by blast
    ultimately show ?thesis using b by (auto simp: update_of_def intro!: bexI [of _ b])
  qed
  show ?thesis unfolding upload_effect_def
  proof (intro exI [of _ calls] conjI ballI impI)
    fix x assume "x \<in> set calls"
    with calls(3) obtain out where "x = BatchUpdateCall ?q out" by auto
    then show "within_budget (batch_update_budget_bytes (cc_config c)) x" using wb [of out] by (simp only:)
  next
    fix b assume "r = Ok ()" "b \<in> set batch"
    from ack [OF this] show "\<exists>x \<in> set calls. acknowledges ?name x b" using last_in_set [OF calls(2)] by blast
  qed (use calls(1) r(1) in simp)
qed

text \<open>One oversized blob.\<close>

lemma check_write_response_Ok:
  "check_write_response d r = Ok y \<longleftrightarrow> r = Ok y \<and> committed_size y = size_bytes d"
  by (auto simp: check_write_response_def result_simps bytestream_committed_size_error_def split: option.splits if_splits)

lemma file_requests_resource:
  "q \<in> set (fst (send_bytestream_file_requests resource offset reads)) \<Longrightarrow> wr_resource_name q = resource"
  by (induction resource offset reads rule: send_bytestream_file_requests.induct)
    (auto simp: Let_def split: prod.splits if_splits)

lemma recording_write:
  "ch_write (cc_channel (recording c)) q dl r =
     (case ch_write (cc_channel c) q dl (fst r) of (k, x, s') \<Rightarrow> (k, x, s', snd r @ [WriteCall q x]))"
  by (cases r) (simp add: recording_def Let_def)

lemma write_log_effect:
  assumes "\<And>dl r. \<exists>r' rs out. snd (op dl r) = (r', snd r @ [WriteCall rs out]) \<and>
      (\<forall>y. fst (op dl r) = Finished (Ok y) \<longrightarrow> acknowledges (instance_name config) (WriteCall rs out) b)"
    and "retry_rpc c ByteStreamWrite op w = (res, w')"
  shows "upload_effect config {b} (map_ok (\<lambda>_. ()) (result_context CasContext msg res)) w w'"
proof -
  let ?P = "\<lambda>x out. (\<exists>rs o'. x = WriteCall rs o') \<and> (\<forall>y. out = Finished (Ok y) \<longrightarrow> acknowledges (instance_name config) x b)"
  have "\<exists>r' x. snd (op dl r) = (r', snd r @ [x]) \<and> ?P x (fst (op dl r))" for dl r using assms(1) [of dl r] by blast
  from retry_rpc_log [where P = ?P, OF this assms(2)] obtain calls where
    calls: "call_log w' = call_log w @ calls" "calls \<noteq> []" "\<forall>x \<in> set calls. \<exists>rs o'. x = WriteCall rs o'"
      "\<forall>y. res = Ok y \<longrightarrow> acknowledges (instance_name config) (last calls) b"
    by blast
  moreover have "\<forall>x \<in> set calls. within_budget (batch_update_budget_bytes config) x"
    using calls(3) by fastforce
  ultimately show ?thesis
    unfolding upload_effect_def using last_in_set [OF calls(2)] by (intro exI [of _ calls]) (auto simp: result_simps)
qed

lemma upload_oversized_effect:
  assumes "upload_oversized_blob (recording c) b w = (r, w')"
  shows "upload_effect (cc_config c) {b} r w w'"
proof -
  let ?res = "bytestream_write_resource_name (h_uuid (cc_host (recording c)) (w_remote w)) (instance_name (cc_config c)) (bl_digest b)"
  show ?thesis
  proof (cases "bl_contents b")
    case (BlobBytes data)
    let ?op = "send_bytestream_bytes_write (recording c) ?res (bl_digest b) data"
    obtain res w1 where res: "retry_rpc (recording c) ByteStreamWrite ?op w = (res, w1)" by fastforce
    have "\<exists>r' rs out. snd (?op dl rr) = (r', snd rr @ [WriteCall rs out]) \<and>
        (\<forall>y. fst (?op dl rr) = Finished (Ok y) \<longrightarrow> acknowledges (instance_name (cc_config c)) (WriteCall rs out) b)" for dl rr
      by (auto simp: send_bytestream_bytes_write_def recording_write check_write_response_Ok BlobBytes
          split: prod.splits attempt.splits)
    from write_log_effect [OF this res] assms BlobBytes res show ?thesis
      by (auto simp: upload_oversized_blob_def bytestream_write_blob_def Let_def)
  next
    case (FilePath path)
    let ?op = "send_bytestream_file_write (recording c) ?res (bl_digest b) path"
    obtain res w1 where res: "retry_rpc (recording c) ByteStreamWrite ?op w = (res, w1)" by fastforce
    have "\<exists>r' rs out. snd (?op dl rr) = (r', snd rr @ [WriteCall rs out]) \<and>
        (\<forall>y. fst (?op dl rr) = Finished (Ok y) \<longrightarrow> acknowledges (instance_name (cc_config c)) (WriteCall rs out) b)" for dl rr
    proof -
      obtain reqs produced where p: "(case h_open_file (cc_host (recording c)) path rr of
           Inl e \<Rightarrow> ([], Err (internal_status ''open file''))
         | Inr reads \<Rightarrow> send_bytestream_file_requests ?res 0 reads) = (reqs, produced)" by fastforce
      have "\<forall>q \<in> set reqs. wr_resource_name q = ?res"
        using p by (auto split: sum.splits dest!: arg_cong [of _ _ fst] intro!: file_requests_resource)
      with p FilePath show ?thesis
        by (auto simp: send_bytestream_file_write_def recording_write check_write_response_Ok result_simps
          split: prod.splits attempt.splits if_splits)
    qed
    from write_log_effect [OF this res] assms FilePath res show ?thesis
      by (auto simp: upload_oversized_blob_def bytestream_write_blob_def bytestream_write_file_def Let_def)
  qed
qed


text \<open>The batch under construction.\<close>

definition batch_inv :: "cas_config \<Rightarrow> batch_update_state \<Rightarrow> bool" where
  "batch_inv config b \<longleftrightarrow> (\<forall>x \<in> set (bs_blobs b). loaded x) \<and> unat (bs_bytes b) = batch_size (bs_blobs b) \<and>
     bs_bytes b \<le> batch_update_budget_bytes config"

lemma flush_effect:
  assumes "flush_batch_update (recording c) batch w = (r, batch', w')" "batch_inv (cc_config c) batch"
  shows "upload_effect (cc_config c) (set (bs_blobs batch)) r w w' \<and> batch_inv (cc_config c) batch' \<and> bs_blobs batch' = []"
proof (cases "bs_blobs batch = []")
  case True
  then show ?thesis
    using assms by (auto simp: flush_batch_update_def batch_is_empty_def intro: upload_effect_refl)
next
  case False
  obtain r1 w1 where b: "upload_batch_to_cas (recording c) (bs_blobs batch) w = (r1, w1)" by fastforce
  have "batch_size (bs_blobs batch) \<le> unat (batch_update_budget_bytes (cc_config c))"
    using assms(2) by (simp add: batch_inv_def word_le_nat_alt)
  with upload_batch_effect [OF b _ False] assms(2) have "upload_effect (cc_config c) (set (bs_blobs batch)) r1 w w1"
    by (simp add: batch_inv_def)
  with assms False b show ?thesis
    by (auto simp: flush_batch_update_def batch_is_empty_def batch_take_def batch_inv_def batch_size_def)
qed

lemma load_blob_Ok:
  assumes "load_blob_as_bytes c b sz w = Ok b'" "digest_size_usize (bl_digest b) = Ok sz" "is_i64 (size_bytes (bl_digest b))"
  shows "loaded b' \<and> bl_digest b' = bl_digest b \<and> length (blob_data (bl_contents b')) = unat sz \<and>
    (\<forall>data. bl_contents b = BlobBytes data \<longrightarrow> bl_contents b' = BlobBytes data)"
proof -
  have "int (unat sz) = size_bytes (bl_digest b)"
    using assms(2,3) uint_word_of_int_u64 [of "size_bytes (bl_digest b)"]
    by (auto simp: digest_size_usize_def result_simps conv_simps is_i64_def split: if_splits)
  with assms(1) show ?thesis
    by (auto simp: load_blob_as_bytes_def loaded_def result_simps split: blob_contents.splits if_splits)
qed

lemma batch_push_inv:
  assumes "batch_inv config batch" "loaded b" "length (blob_data (bl_contents b)) = unat sz"
    and "unat (batch_update_budget_bytes config) < 2 ^ 63" "sz \<le> batch_update_budget_bytes config"
    and "\<not> would_exceed_budget batch sz (batch_update_budget_bytes config)"
  shows "batch_inv config (batch_push b sz batch)"
proof -
  have "unat (bs_bytes batch + sz) = unat (bs_bytes batch) + unat sz"
    using assms(1,4,5) by (simp add: batch_inv_def word_le_nat_alt unat_word_ariths)
  moreover have "bs_bytes batch + sz \<le> batch_update_budget_bytes config"
  proof (cases "bs_blobs batch = []")
    case True
    with assms(1) have "bs_bytes batch = 0" by (simp add: batch_inv_def batch_size_def unat_eq_0)
    with assms(5) show ?thesis by simp
  qed (use assms(6) in \<open>simp add: would_exceed_budget_def batch_is_empty_def\<close>)
  ultimately show ?thesis
    using assms(1-3) by (auto simp: batch_inv_def batch_push_def batch_size_def)
qed

lemma upload_loop_effect:
  assumes "upload_loop (recording c) blobs batch w = (r, w')" "batch_inv (cc_config c) batch"
    and "unat (batch_update_budget_bytes (cc_config c)) < 2 ^ 63" "\<forall>b \<in> set blobs. is_i64 (size_bytes (bl_digest b))"
  shows "upload_effect (cc_config c) (set (bs_blobs batch) \<union> set blobs) r w w'"
  using assms
proof (induction blobs arbitrary: batch w)
  case Nil
  then show ?case using flush_effect by (fastforce split: prod.splits)
next
  case (Cons b bs)
  let ?cfg = "cc_config c"
  show ?case
  proof (cases "digest_size_usize (bl_digest b)")
    case (Inr sz)
    show ?thesis
    proof (cases "sz > batch_update_budget_bytes ?cfg")
      case True
      obtain r1 batch1 w1 where f: "flush_batch_update (recording c) batch w = (r1, batch1, w1)" by (metis prod_cases3)
      note fe = flush_effect [OF f Cons.prems(2)]
      obtain r2 w2 where o: "upload_oversized_blob (recording c) b w1 = (r2, w2)" by fastforce
      note oe = upload_oversized_effect [OF o]
      show ?thesis
      proof (cases "r1 = Ok () \<and> r2 = Ok ()")
        case ok: True
        have "upload_loop (recording c) bs batch1 w2 = (r, w')" using Cons.prems(1) Inr True f o ok by simp
        from Cons.IH [OF this] fe Cons.prems have "upload_effect ?cfg (set bs) r w2 w'" by simp
        from upload_effect_trans [OF _ upload_effect_trans [OF _ this], of _ w w1 "{b}"] fe oe ok show ?thesis by simp
      next
        case err: False
        then have "r1 \<noteq> Ok () \<and> r = r1 \<and> w' = w1 \<or> r1 = Ok () \<and> r2 \<noteq> Ok () \<and> r = r2 \<and> w' = w2"
          using Cons.prems(1) Inr True f o by (auto split: sum.splits)
        then show ?thesis
          using fe oe upload_effect_trans [of ?cfg "set (bs_blobs batch)" w w1 "{b}" r2 w2]
          by (auto elim: upload_effect_mono)
      qed
    next
      case False
      show ?thesis
      proof (cases "load_blob_as_bytes (recording c) b sz w")
        case l: (Inr b')
        note lb = load_blob_Ok [OF l Inr]
        let ?ex = "would_exceed_budget batch sz (batch_update_budget_bytes ?cfg)"
        obtain r1 batch1 w1 where f: "(if ?ex then flush_batch_update (recording c) batch w else (Ok (), batch, w)) = (r1, batch1, w1)"
          by (metis prod_cases3)
        have fe: "upload_effect ?cfg (if ?ex then set (bs_blobs batch) else {}) r1 w w1" "batch_inv ?cfg batch1"
            "set (bs_blobs batch) = (if ?ex then set (bs_blobs batch) else {}) \<union> set (bs_blobs batch1)"
            "\<not> would_exceed_budget batch1 sz (batch_update_budget_bytes ?cfg)"
          using f flush_effect [of c batch w r1 batch1 w1] Cons.prems(2)
          by (auto split: if_splits intro: upload_effect_refl simp: would_exceed_budget_def batch_is_empty_def)
        show ?thesis
        proof (cases r1)
          case (Inl e)
          then have "r = Err e" "w' = w1" using Cons.prems(1) Inr \<open>\<not> sz > _\<close> l f by auto
          with fe(1) Inl show ?thesis by (auto elim: upload_effect_mono)
        next
          case ok: (Inr u)
          have run: "upload_loop (recording c) bs (batch_push b' sz batch1) w1 = (r, w')"
            using Cons.prems(1) Inr False l f ok by simp
          have "batch_inv ?cfg (batch_push b' sz batch1)"
            using batch_push_inv [OF fe(2)] lb Cons.prems(3,4) fe(4) False by simp
          from Cons.IH [OF run this] Cons.prems(3,4)
          have "upload_effect ?cfg (insert b' (set (bs_blobs batch1)) \<union> set bs) r w1 w'" by (simp add: batch_push_def)
          from upload_effect_trans [OF _ this] fe(1) ok
          have "upload_effect ?cfg ((if ?ex then set (bs_blobs batch) else {}) \<union> (insert b' (set (bs_blobs batch1)) \<union> set bs)) r w w'"
            by auto
          then have e: "upload_effect ?cfg (set (bs_blobs batch) \<union> insert b' (set bs)) r w w'"
            by (rule upload_effect_mono) (use fe(3) in blast)
          have "acknowledges (instance_name ?cfg) x b" if "acknowledges (instance_name ?cfg) x b'" for x
            using acknowledges_loaded [OF that] lb Cons.prems(4) by simp
          with e show ?thesis unfolding upload_effect_def by fastforce
        qed
      qed (use Cons.prems(1) Inr False in \<open>auto intro: upload_effect_refl\<close>)
    qed
  qed (use Cons.prems(1) in \<open>auto intro: upload_effect_refl\<close>)
qed


section \<open>Streaming a file\<close>

lemma add_i64_small: "0 \<le> a \<Longrightarrow> 0 \<le> b \<Longrightarrow> a + b < 2 ^ 63 \<Longrightarrow> add_i64 a b = a + b"
  by (simp add: add_i64_def)

lemma file_requests_chunks:
  assumes "\<forall>bs \<in> set chunks. bs \<noteq> []" "int (length (concat chunks)) + offset < 2 ^ 63" "0 \<le> offset"
  shows "send_bytestream_file_requests resource offset (map Inr chunks) =
    (map (\<lambda>k. \<lparr>wr_resource_name = resource, wr_write_offset = offset + int (length (concat (take k chunks))),
        wr_finish_write = (k = length chunks), wr_data = concat (take 1 (drop k chunks))\<rparr>) [0..<Suc (length chunks)], Ok ())"
  using assms
proof (induction chunks arbitrary: offset)
  case (Cons bs chunks)
  have len: "int (length bs) + offset < 2 ^ 63" "length bs < 2 ^ 63" using Cons.prems(2,3) by auto
  then have off: "add_i64 offset (as_i64 (length bs)) = offset + int (length bs)"
    using Cons.prems(3) by (simp add: as_i64_small add_i64_small)
  have "send_bytestream_file_requests resource (offset + int (length bs)) (map Inr chunks) =
    (map (\<lambda>k. \<lparr>wr_resource_name = resource, wr_write_offset = offset + int (length bs) + int (length (concat (take k chunks))),
        wr_finish_write = (k = length chunks), wr_data = concat (take 1 (drop k chunks))\<rparr>) [0..<Suc (length chunks)], Ok ())"
    using Cons.prems by (intro Cons.IH) auto
  moreover have "[0..<Suc (length (bs # chunks))] = 0 # map Suc [0..<Suc (length chunks)]"
    by (simp add: map_Suc_upt upt_conv_Cons del: upt_Suc)
  ultimately show ?case
    using Cons.prems(1) off by (simp add: Let_def comp_def add.assoc del: upt_Suc)
qed simp

section \<open>Resource names\<close>

definition resource_segments :: "string \<Rightarrow> string list" where
  "resource_segments s = split_on CHR ''/'' s"

definition reserved_segment :: "string \<Rightarrow> bool" where
  "reserved_segment s \<longleftrightarrow> s \<in> {''blobs'', ''uploads'', ''compressed-blobs''}"

lemma digest_segments:
  assumes "valid_digest d"
  shows "split_on CHR ''/'' (hash d @ CHR ''/'' # show_int (size_bytes d)) = [hash d, show_int (size_bytes d)]"
proof -
  have "CHR ''/'' \<notin> set (show_int (size_bytes d))"
    using assms show_nat_digits [of "CHR ''/''"] by (auto simp: valid_digest_def show_int_def is_ascii_digit_def)
  with valid_hash_no_slash assms show ?thesis
    by (simp add: split_on_append split_on_no_sep valid_digest_def)
qed

lemma validate_instance_segment_Ok:
  "validate_instance_segment name s = Ok () \<longleftrightarrow> s \<noteq> [] \<and> \<not> reserved_segment s"
  by (simp add: validate_instance_segment_def reserved_segment_def)

lemma validate_instance_name_Ok:
  "validate_instance_name name = Ok () \<longleftrightarrow>
     (\<forall>s \<in> set (resource_segments name). s \<noteq> [] \<and> \<not> reserved_segment s)"
  by (cases "name = []")
    (simp_all add: validate_instance_name_def resource_segments_def for_each_eq_Ok validate_instance_segment_Ok)

lemma segments_read: "valid_digest d \<Longrightarrow>
  resource_segments (bytestream_read_resource_name name d) =
    resource_segments name @ [''blobs'', hash d, show_int (size_bytes d)]"
  using split_on_append [of "CHR ''/''" name] split_on_append [of "CHR ''/''" "''blobs''"] digest_segments
  by (simp add: resource_segments_def bytestream_read_resource_name_def)

lemma segments_write: "valid_digest d \<Longrightarrow> CHR ''/'' \<notin> set uuid \<Longrightarrow>
  resource_segments (bytestream_write_resource_name uuid name d) =
    resource_segments name @ [''uploads'', uuid, ''blobs'', hash d, show_int (size_bytes d)]"
  using split_on_append [of "CHR ''/''" name] split_on_append [of "CHR ''/''" "''blobs''"]
    split_on_append [of "CHR ''/''" "''uploads''"] split_on_append [of "CHR ''/''" uuid] digest_segments
  by (simp add: resource_segments_def bytestream_write_resource_name_def split_on_no_sep)

section \<open>Properties\<close>

text \<open>
  C34 Retries are bounded and lose nothing. A retried call makes at least one and at most \<^verbatim>\<open>max_attempts\<close>
  attempts (one if \<^verbatim>\<open>max_attempts\<close> is zero). All attempts before the last failed retryably (a timeout, or a
  retryable status) and were followed by the fixed backoff delays in order; the result is that of the last
  attempt, which succeeded, failed with a status that is not retryable, or exhausted the attempts; an error
  carries the number of attempts made. The delays are those of the table in the code, 100, 250, 500 and then 1000 milliseconds: the
  jitter that the design documents ask for is not there, and the comment on \<^verbatim>\<open>max_attempts\<close> speaks of retries where attempts are counted.
\<close>

theorem retry_bounded:
  "\<exists>n < max 1 (unat (max_attempts (cc_config c))).
     (\<forall>k \<in> {0..<n}. retryable (nth_attempt op (operation_timeout operation (cc_config c)) k (w_remote w))) \<and>
     (\<not> retryable (nth_attempt op (operation_timeout operation (cc_config c)) n (w_remote w)) \<or>
        unat (max_attempts (cc_config c)) \<le> Suc n) \<and>
     retry_rpc c operation op w =
       (attempt_result (cc_config c) operation (of_nat (Suc n))
          (nth_attempt op (operation_timeout operation (cc_config c)) n (w_remote w)),
        w\<lparr>w_remote := remote_after op (operation_timeout operation (cc_config c)) (Suc n) (w_remote w),
          w_slept := w_slept w @ map (\<lambda>k. [100, 250, 500, 1000] ! min k 3) [0..<n]\<rparr>)"
  using retry_from_spec [of 1 "cc_config c" op operation w]
  unfolding retry_rpc_def RETRY_BACKOFFS_def by (auto simp: Suc_le_eq)


definition demo_config :: cas_config where
  "demo_config = \<lparr>cas_url = ''grpc://cas'', instance_name = ''main'', download_blob_stream_threshold_bytes = 1,
     batch_update_budget_bytes = 4, find_missing_timeout = 10000, batch_read_timeout = 30000, batch_update_timeout = 30000,
     bytestream_idle_timeout = 30000, max_attempts = 5\<rparr>"

text \<open>A service that stores and serves everything as asked, and a host without files.\<close>

definition demo_channel :: "unit channel" where
  "demo_channel =
     \<lparr>ch_find_missing = (\<lambda>q dl s. (Finished (Ok []), s)),
      ch_batch_read = (\<lambda>q dl s. (Finished (Ok [\<lparr>be_data = [1, 2], be_status = None\<rparr>]), s)),
      ch_batch_update = (\<lambda>q dl s. (Finished (Ok (map (\<lambda>u. \<lparr>ue_digest = ur_digest u, ue_status = None\<rparr>) (bu_requests q))), s)),
      ch_read = (\<lambda>q idle dl s. (Finished (Ok [Chunk [1], Chunk [2]]), s)),
      ch_write = (\<lambda>rs dl s. (length rs, Finished (Ok \<lparr>committed_size = int (length (concat (map wr_data rs)))\<rparr>), s))\<rparr>"

definition demo_client :: "unit cas_client" where
  "demo_client = \<lparr>cc_config = demo_config, cc_channel = demo_channel,
     cc_host = \<lparr>h_read_file = (\<lambda>p s. Err IoNotFound), h_open_file = (\<lambda>p s. Err IoNotFound), h_uuid = (\<lambda>s. ''u'')\<rparr>\<rparr>"

definition unavailable_rpc :: "(unit, unit) rpc" where
  "unavailable_rpc dl s = (Finished (Err \<lparr>st_code = CodeUnavailable, st_message = []\<rparr>), s)"

theorem retry_bounded_witness:
  "retry_rpc demo_client FindMissingBlobs unavailable_rpc \<lparr>w_remote = (), w_slept = []\<rparr> =
     (Err (Rpc FindMissingBlobs 5 ''grpc://cas'' ''main'' \<lparr>st_code = CodeUnavailable, st_message = []\<rparr>),
      \<lparr>w_remote = (), w_slept = [100, 250, 500, 1000]\<rparr>)"
proof -
  have att: "nth_attempt unavailable_rpc dl k r = Finished (Err \<lparr>st_code = CodeUnavailable, st_message = []\<rparr>)" for dl k r
    by (simp add: nth_attempt_def unavailable_rpc_def)
  have five: "max_attempts (cc_config demo_client) = 5" by (simp add: demo_client_def demo_config_def)
  obtain n where "n < 5" "5 \<le> Suc n"
    "retry_rpc demo_client FindMissingBlobs unavailable_rpc \<lparr>w_remote = (), w_slept = []\<rparr> =
       (Err (rpc_error (cc_config demo_client) FindMissingBlobs (of_nat (Suc n)) \<lparr>st_code = CodeUnavailable, st_message = []\<rparr>),
        \<lparr>w_remote = (), w_slept = map (\<lambda>k. [100, 250, 500, 1000] ! min k 3) [0..<n]\<rparr>)"
    using retry_bounded [of demo_client unavailable_rpc FindMissingBlobs "\<lparr>w_remote = (), w_slept = []\<rparr>"]
    by (auto simp: att five is_retryable_status_def)
  moreover from this have "n = 4" by simp
  ultimately show ?thesis
    by (simp add: rpc_error_def demo_client_def demo_config_def upt_conv_Cons)
qed

text \<open>
  C8 Downloads are verified. Whatever the remote service answers, a blob that \<^verbatim>\<open>download_blob\<close> returns has the
  requested digest, on the \<^verbatim>\<open>BatchReadBlobs\<close> path and on the \<^verbatim>\<open>ByteStream.Read\<close> path; and a successful
  \<^verbatim>\<open>stream_blob\<close> handed its writer exactly such bytes, in order.
\<close>

theorem download_verified:
  "(\<forall>bs w'. download_blob sha c d w = (Ok bs, w') \<longrightarrow> for_bytes sha bs = d) \<and>
   (\<forall>dest' w'. stream_blob sha c write_all d dest w = (Ok (), dest', w') \<longrightarrow>
      (\<exists>bss. for_bytes sha (concat bss) = d \<and> dest' = fold (\<lambda>bs q. snd (write_all q bs)) bss dest))"
proof -
  have "for_bytes sha bs = d" if "download_blob sha c d w = (Ok bs, w')" for bs w'
  proof -
    have "stream_blob sha c vec_write_all d [] w = (Ok (), bs, w')"
      using that by (auto simp: download_blob_def result_simps split: prod.splits)
    from stream_blob_effect [OF this] show ?thesis by (auto simp: writes_vec)
  qed
  with stream_blob_effect [of sha c write_all d dest w] show ?thesis by (fastforce simp: writes_def)
qed

theorem download_verified_witness:
  "\<exists>w'. download_blob demo_sha demo_client demo_blob \<lparr>w_remote = (), w_slept = []\<rparr> = (Ok [1, 2], w') \<and>
     for_bytes demo_sha [1, 2] = demo_blob"
proof -
  have size: "digest_size_usize demo_blob = Ok 2"
    by (simp add: digest_size_usize_def demo_shard conv_simps)
  have "check_streamed demo_sha demo_blob [1, 2] 2 = Ok ()"
    using digest_new_valid [OF demo_blob_valid] demo_shard(2)
    by (simp add: check_streamed_def conv_simps demo_blob_def for_bytes_def)
  moreover have "retry_rpc demo_client ByteStreamRead (ch_read (cc_channel demo_client) q idle) w = (Ok [Chunk [1], Chunk [2]], w)" for q idle w
    by (simp add: retry_rpc_def retry_from_step demo_client_def demo_channel_def)
  moreover have "read_chunks config vec_write_all d [Chunk [1], Chunk [2]] [] 0 [] = (Ok ([1, 2], 2), [1, 2])" for config d
    by (simp add: vec_write_all_def u64_try_from_len_def checked_add_u64_def)
  ultimately have "bytestream_read_into demo_sha demo_client vec_write_all demo_blob [] w = (Ok (), [1, 2], w)" for w
    by (simp add: bytestream_read_into_def Let_def)
  then have "\<exists>w'. download_blob demo_sha demo_client demo_blob \<lparr>w_remote = (), w_slept = []\<rparr> = (Ok [1, 2], w')"
    using size by (simp add: download_blob_def stream_blob_def) (simp add: demo_client_def demo_config_def word_le_nat_alt)
  then show ?thesis
    using conjunct1 [OF download_verified [of demo_sha demo_client demo_blob "\<lparr>w_remote = (), w_slept = []\<rparr>" vec_write_all "[]"]]
    by auto
qed


lemma sum_blob_sizes_Ok:
  "sum_blob_sizes acc blobs = Ok n \<Longrightarrow> \<forall>b \<in> set blobs. valid_digest (bl_digest b) \<Longrightarrow>
     int (unat n) = int (unat acc) + sum_list (map (\<lambda>b. size_bytes (bl_digest b)) blobs)"
proof (induction acc blobs rule: sum_blob_sizes.induct)
  case (2 acc b bs)
  then obtain sz m where s: "digest_size_u64 (bl_digest b) = Ok sz" "checked_add_u64 acc sz = Some m" "sum_blob_sizes m bs = Ok n"
    by (auto simp: result_simps)
  have "int (unat sz) = size_bytes (bl_digest b)"
    using s(1) 2(3) uint_word_of_int_u64 [of "size_bytes (bl_digest b)"]
    by (auto simp: digest_size_u64_def result_simps conv_simps valid_digest_def split: if_splits)
  with 2(1) [OF s(3)] 2(3) checked_add_u64_Some [OF s(2)] show ?case by (auto simp: result_simps)
qed simp

lemma upload_blobs_effect:
  assumes "upload_blobs (recording c) blobs w = (r, w')"
    and "unat (batch_update_budget_bytes (cc_config c)) < 2 ^ 63" "\<forall>b \<in> set blobs. valid_digest (bl_digest b)"
  shows "\<exists>r1. upload_effect (cc_config c) (set blobs) r1 w w' \<and> (\<forall>stats. r = Ok stats \<longrightarrow> r1 = Ok () \<and>
    uploaded_blobs stats = of_nat (length blobs) \<and>
    int (unat (bytes_uploaded stats)) = sum_list (map (\<lambda>b. size_bytes (bl_digest b)) blobs))"
proof (cases "sum_blob_sizes 0 blobs")
  case (Inl e)
  with assms(1) show ?thesis
    by (intro exI [of _ "Err e"]) (auto simp: upload_blobs_def intro: upload_effect_refl)
next
  case (Inr n)
  obtain r1 w1 where run: "upload_loop (recording c) blobs batch_new w = (r1, w1)" by fastforce
  have "batch_inv (cc_config c) batch_new" by (simp add: batch_inv_def batch_new_def batch_size_def)
  moreover have "\<forall>b \<in> set blobs. is_i64 (size_bytes (bl_digest b))"
    using assms(3) by (auto simp: valid_digest_def is_i64_def)
  ultimately have "upload_effect (cc_config c) (set blobs) r1 w w1"
    using upload_loop_effect [OF run _ assms(2)] by (simp add: batch_new_def)
  moreover have "w' = w1" "\<And>stats. r = Ok stats \<Longrightarrow> r1 = Ok () \<and> uploaded_blobs stats = of_nat (length blobs) \<and> bytes_uploaded stats = n"
    using assms(1) Inr run by (auto simp: upload_blobs_def upload_blobs_to_cas_def result_simps)
  ultimately show ?thesis using sum_blob_sizes_Ok [OF Inr assms(3)] by (intro exI [of _ r1]) simp
qed

text \<open>
  C35 Uploads are batched within budget and acknowledged. In every run of \<^verbatim>\<open>upload_blobs\<close>, successful or not,
  each \<^verbatim>\<open>BatchUpdateBlobs\<close> request is not empty, carries at most the configured budget of data, and sends
  each blob with exactly as many bytes as its digest says. If the upload reports success, every blob was
  confirmed by the service: by a batch entry with status zero, or by a write whose committed size is the
  digest's size under a resource name of that digest, in-memory blobs with exactly their bytes; and the
  statistics are the number of blobs and the sum of their sizes.
\<close>

theorem upload_batches_acknowledged:
  assumes "unat (batch_update_budget_bytes (cc_config c)) < 2 ^ 63" "\<forall>b \<in> set blobs. valid_digest (bl_digest b)"
    and "upload_blobs (recording c) blobs \<lparr>w_remote = (s, []), w_slept = []\<rparr> = (r, w')"
  shows "(\<forall>x \<in> set (call_log w'). within_budget (batch_update_budget_bytes (cc_config c)) x) \<and>
    (\<forall>stats. r = Ok stats \<longrightarrow>
       (\<forall>b \<in> set blobs. \<exists>x \<in> set (call_log w'). acknowledges (instance_name (cc_config c)) x b) \<and>
       uploaded_blobs stats = of_nat (length blobs) \<and>
       int (unat (bytes_uploaded stats)) = sum_list (map (\<lambda>b. size_bytes (bl_digest b)) blobs))"
proof -
  obtain r1 where e: "upload_effect (cc_config c) (set blobs) r1 \<lparr>w_remote = (s, []), w_slept = []\<rparr> w'"
    and ok: "\<forall>stats. r = Ok stats \<longrightarrow> r1 = Ok () \<and> uploaded_blobs stats = of_nat (length blobs) \<and>
      int (unat (bytes_uploaded stats)) = sum_list (map (\<lambda>b. size_bytes (bl_digest b)) blobs)"
    using upload_blobs_effect [OF assms(3,1,2)] by blast
  obtain calls where "call_log w' = calls" "\<forall>x \<in> set calls. within_budget (batch_update_budget_bytes (cc_config c)) x"
    "r1 = Ok () \<longrightarrow> (\<forall>b \<in> set blobs. \<exists>x \<in> set calls. acknowledges (instance_name (cc_config c)) x b)"
    using e unfolding upload_effect_def by (metis append_Nil snd_conv world.select_convs(1))
  with ok show ?thesis by blast
qed

theorem upload_batches_acknowledged_witness:
  "\<exists>stats w'. upload_blobs (recording demo_client) [blob_from_bytes demo_sha [1, 2]] \<lparr>w_remote = ((), []), w_slept = []\<rparr> = (Ok stats, w') \<and>
     uploaded_blobs stats = 1 \<and> unat (bytes_uploaded stats) = 2"
proof -
  let ?b = "blob_from_bytes demo_sha [1, 2]" and ?w = "\<lparr>w_remote = ((), []), w_slept = []\<rparr>"
  have b: "bl_digest ?b = demo_blob" "bl_contents ?b = BlobBytes [1, 2]" by (simp_all add: blob_from_bytes_def demo_blob_def)
  have size: "digest_size_usize demo_blob = Ok 2" "digest_size_u64 demo_blob = Ok 2"
    by (simp_all add: digest_size_usize_def digest_size_u64_def demo_shard conv_simps)
  have budget: "batch_update_budget_bytes (cc_config demo_client) = 4" by (simp add: demo_client_def demo_config_def)
  have "\<exists>w'. retry_rpc (recording demo_client) BatchUpdateBlobs (ch_batch_update (cc_channel (recording demo_client)) q) w =
      (Ok (map (\<lambda>u. \<lparr>ue_digest = ur_digest u, ue_status = None\<rparr>) (bu_requests q)), w')" for q w
    by (cases "w_remote w") (simp add: retry_rpc_def retry_from_step recording_def demo_client_def demo_channel_def)
  note rpc = this
  have "\<exists>w'. upload_batch_to_cas (recording demo_client) [?b] w = (Ok (), w')" for w
  proof -
    let ?u = "\<lparr>ur_digest = Some (to_reapi demo_blob), ur_data = [1, 2]\<rparr>"
    obtain w' where "retry_rpc (recording demo_client) BatchUpdateBlobs (ch_batch_update (cc_channel (recording demo_client))
        \<lparr>bu_instance_name = instance_name (cc_config demo_client), bu_requests = [?u]\<rparr>) w =
        (Ok [\<lparr>ue_digest = ur_digest ?u, ue_status = None\<rparr>], w')"
      using rpc [of "\<lparr>bu_instance_name = instance_name (cc_config demo_client), bu_requests = [?u]\<rparr>" w] by auto
    then show ?thesis
      by (simp add: upload_batch_to_cas_def batch_update_request_def check_update_response_def blob_status_ok_def b Let_def)
  qed
  then obtain w1 where "upload_batch_to_cas (recording demo_client) [?b] ?w = (Ok (), w1)" by blast
  then have "\<exists>w'. flush_batch_update (recording demo_client) (batch_push ?b 2 batch_new) ?w = (Ok (), w')"
    by (auto simp: flush_batch_update_def batch_is_empty_def batch_push_def batch_new_def batch_take_def split: prod.splits)
  moreover have "load_blob_as_bytes (recording demo_client) ?b 2 ?w = Ok ?b"
    using b by (simp add: load_blob_as_bytes_def blob_from_bytes_def)
  ultimately have "\<exists>w'. upload_blobs (recording demo_client) [?b] ?w = (Ok \<lparr>uploaded_blobs = 1, bytes_uploaded = 2\<rparr>, w')"
    using b size by (auto simp: upload_blobs_def upload_blobs_to_cas_def checked_add_u64_def word_less_nat_alt budget
        would_exceed_budget_def batch_is_empty_def batch_new_def)
  then obtain w' where run: "upload_blobs (recording demo_client) [?b] ?w = (Ok \<lparr>uploaded_blobs = 1, bytes_uploaded = 2\<rparr>, w')" by blast
  have "\<forall>x \<in> set [?b]. valid_digest (bl_digest x)" using demo_blob_valid b(1) by simp
  from upload_batches_acknowledged [OF _ this run] run budget show ?thesis by simp
qed

text \<open>
  C36 A streamed file is sent completely and contiguously. When the reads of a file give non-empty pieces up
  to its end, the write requests carry the pieces in order, each at the offset where the previous ended,
  followed by one empty request at the file's length; only that one finishes the write.
\<close>

theorem file_upload_contiguous:
  assumes "\<forall>bs \<in> set chunks. bs \<noteq> []" "length (concat chunks) < 2 ^ 63"
  shows "\<exists>rs. send_bytestream_file_requests resource 0 (map Inr chunks) = (rs, Ok ()) \<and>
    concat (map wr_data rs) = concat chunks \<and> length rs = Suc (length chunks) \<and>
    (\<forall>k < length rs. wr_write_offset (rs ! k) = int (length (concat (map wr_data (take k rs)))) \<and>
       (wr_finish_write (rs ! k) \<longleftrightarrow> Suc k = length rs) \<and> wr_resource_name (rs ! k) = resource)"
proof -
  let ?req = "\<lambda>k. \<lparr>wr_resource_name = resource, wr_write_offset = int (length (concat (take k chunks))),
        wr_finish_write = (k = length chunks), wr_data = concat (take 1 (drop k chunks))\<rparr>"
  let ?rs = "map ?req [0..<Suc (length chunks)]"
  have run: "send_bytestream_file_requests resource 0 (map Inr chunks) = (?rs, Ok ())"
    using file_requests_chunks [OF assms(1), of 0 resource] assms(2) by simp
  have data: "concat (map wr_data (map ?req [0..<k])) = concat (take k chunks)" if "k \<le> Suc (length chunks)" for k
    using that
  proof (induction k)
    case (Suc k)
    then show ?case by (cases "k < length chunks") (simp_all add: take_Suc_conv_app_nth take_Suc Cons_nth_drop_Suc [symmetric])
  qed simp
  have "wr_write_offset (?rs ! k) = int (length (concat (map wr_data (take k ?rs)))) \<and>
      (wr_finish_write (?rs ! k) \<longleftrightarrow> Suc k = length ?rs) \<and> wr_resource_name (?rs ! k) = resource" if "k < length ?rs" for k
    using that data [of k] by (simp add: take_map take_upt del: upt_Suc)
  with run data [of "Suc (length chunks)"] show ?thesis
    by (intro exI [of _ ?rs]) (simp del: upt_Suc)
qed

theorem file_upload_contiguous_witness:
  "\<exists>rs. send_bytestream_file_requests ''r'' 0 (map Inr [[1, 2], [3]]) = (rs, Ok ()) \<and> concat (map wr_data rs) = [1, 2, 3] \<and>
     wr_write_offset (rs ! 2) = 3"
proof -
  have "\<forall>bs \<in> set [[1, 2], [3 :: u8]]. bs \<noteq> []" "length (concat [[1, 2], [3 :: u8]]) < 2 ^ 63" by simp_all
  from file_upload_contiguous [OF this, of "''r''"] obtain rs where
    rs: "send_bytestream_file_requests ''r'' 0 (map Inr [[1, 2], [3]]) = (rs, Ok ())" "concat (map wr_data rs) = [1, 2, 3]"
      "length rs = 3" "wr_write_offset (rs ! 2) = int (length (concat (map wr_data (take 2 rs))))" by auto
  moreover have "map wr_data rs = [[1, 2], [3], []]" using rs(1) by (auto simp: Let_def)
  ultimately show ?thesis by (auto simp: take_map [symmetric] numeral_2_eq_2)
qed

text \<open>
  Resource names are unambiguous. For a validated instance name, a service that splits a read or write
  resource name at slashes and takes the segments before the first reserved word recovers the instance
  name, and the remaining segments are the upload id (for writes), the hash and the size.
\<close>

theorem resource_names_parse:
  assumes "validate_instance_name name = Ok ()" "valid_digest d" "CHR ''/'' \<notin> set uuid"
  shows "takeWhile (\<lambda>s. \<not> reserved_segment s) (resource_segments (bytestream_read_resource_name name d)) = resource_segments name \<and>
    dropWhile (\<lambda>s. \<not> reserved_segment s) (resource_segments (bytestream_read_resource_name name d)) =
      [''blobs'', hash d, show_int (size_bytes d)] \<and>
    takeWhile (\<lambda>s. \<not> reserved_segment s) (resource_segments (bytestream_write_resource_name uuid name d)) = resource_segments name \<and>
    dropWhile (\<lambda>s. \<not> reserved_segment s) (resource_segments (bytestream_write_resource_name uuid name d)) =
      [''uploads'', uuid, ''blobs'', hash d, show_int (size_bytes d)]"
proof -
  have "\<forall>s \<in> set (resource_segments name). \<not> reserved_segment s" using assms(1) by (simp add: validate_instance_name_Ok)
  moreover have "reserved_segment ''blobs''" "reserved_segment ''uploads''" by (simp_all add: reserved_segment_def)
  ultimately show ?thesis
    by (simp add: segments_read [OF assms(2)] segments_write [OF assms(2,3)] takeWhile_append2 dropWhile_append2)
qed

theorem resource_names_parse_witness:
  "takeWhile (\<lambda>s. \<not> reserved_segment s) (resource_segments (bytestream_read_resource_name ''a/b'' demo_blob)) = [''a'', ''b'']"
proof -
  have "validate_instance_name ''a/b'' = Ok ()"
    by (simp add: validate_instance_name_def validate_instance_segment_def)
  from resource_names_parse [OF this demo_blob_valid, of "''u''"] show ?thesis by (simp add: resource_segments_def)
qed

end
