(* ===== verification/Logging.thy ===== *)
theory Logging
  imports Cache
begin

text \<open>
  Process-level logging (\<^verbatim>\<open>crates/rfs-common/src/logging.rs\<close>): the log files of the daemon and the one global subscriber that a
  process installs. The library that formats and filters events is not modelled; a subscriber is what it was configured with.
\<close>

definition DAEMON_TRACE_LOG :: string where "DAEMON_TRACE_LOG = ''rfsd.log''"
definition DAEMON_STDIO_LOG :: string where "DAEMON_STDIO_LOG = ''rfsd_stdout_stderr.log''"

datatype log_format = LogText | LogJson

record daemon_log_files =
  dl_stdio :: string
  dl_trace :: string

definition daemon_log_paths :: "string \<Rightarrow> daemon_log_files" where
  "daemon_log_paths home = \<lparr>dl_stdio = path_join home DAEMON_STDIO_LOG, dl_trace = path_join home DAEMON_TRACE_LOG\<rparr>"

text \<open>What the process installs: a filter, a format, and where the events go (\<open>None\<close> is standard error).\<close>

record subscriber =
  sb_filter :: string
  sb_json :: bool
  sb_file :: "string option"

datatype logging_error = LogOpen string io_error | AlreadyInitialized

definition set_global_default :: "subscriber \<Rightarrow> subscriber option \<Rightarrow> (unit, logging_error) result \<times> subscriber option" where
  "set_global_default sub global = (case global of None \<Rightarrow> (Ok (), Some sub) | Some _ \<Rightarrow> (Err AlreadyInitialized, global))"

definition init_cli :: "string \<Rightarrow> log_format \<Rightarrow> subscriber option \<Rightarrow> (unit, logging_error) result \<times> subscriber option" where
  "init_cli level format global =
     (case format of
        LogText \<Rightarrow> set_global_default \<lparr>sb_filter = level, sb_json = False, sb_file = None\<rparr> global
      | LogJson \<Rightarrow> set_global_default \<lparr>sb_filter = level, sb_json = True, sb_file = None\<rparr> global)"

definition install_file_subscriber :: "string \<Rightarrow> string \<Rightarrow> bool \<Rightarrow> subscriber option \<Rightarrow> (unit, logging_error) result \<times> subscriber option" where
  "install_file_subscriber path level json global =
     (if json then set_global_default \<lparr>sb_filter = level, sb_json = True, sb_file = Some path\<rparr> global
      else set_global_default \<lparr>sb_filter = level, sb_json = False, sb_file = Some path\<rparr> global)"

definition init_daemon ::
  "fs_env \<Rightarrow> string \<Rightarrow> string \<Rightarrow> log_format \<Rightarrow> subscriber option \<Rightarrow> local_fs \<Rightarrow> (unit, logging_error) result \<times> subscriber option \<times> local_fs" where
  "init_daemon fe home level format global fs =
     (let path = dl_trace (daemon_log_paths home) in
      case io_fault fe ''open daemon trace log'' path fs of
        Some e \<Rightarrow> (Err (LogOpen path e), global, fs)
      | None \<Rightarrow>
          if path \<in> fs_dirs fs then (Err (LogOpen path (IoOther ''is a directory'')), global, fs)
          else if path_parent path \<notin> fs_dirs fs then (Err (LogOpen path IoNotFound), global, fs)
          else
            (case install_file_subscriber path level (format = LogJson) global of
               (r, global') \<Rightarrow> (r, global', fs\<lparr>fs_files := (fs_files fs)(path \<mapsto> [])\<rparr>)))"

text \<open>The text of a logging error.\<close>

fun logging_text :: "logging_error \<Rightarrow> string" where
  "logging_text (LogOpen path e) = ''open daemon trace log''"
| "logging_text AlreadyInitialized = ''logging is already initialized''"

text \<open>A process logs through the first subscriber it installed, and a log of the daemon that could be opened starts empty.\<close>

lemma init_cli_Ok [simp]:
  "fst (init_cli level format global) = Ok () \<longleftrightarrow> global = None"
  "fst (init_cli level format global) = Err e \<longleftrightarrow> global \<noteq> None \<and> e = AlreadyInitialized"
  by (auto simp: init_cli_def set_global_default_def split: log_format.splits option.splits)

lemma init_daemon_Ok:
  assumes "init_daemon fe home level format global fs = (Ok (), global', fs')"
  shows "global = None"
    "global' = Some \<lparr>sb_filter = level, sb_json = (format = LogJson), sb_file = Some (path_join home DAEMON_TRACE_LOG)\<rparr>"
    "fs' = fs\<lparr>fs_files := (fs_files fs)(path_join home DAEMON_TRACE_LOG \<mapsto> [])\<rparr>"
  using assms
  by (auto simp: init_daemon_def daemon_log_paths_def install_file_subscriber_def set_global_default_def Let_def
      split: option.splits if_splits)

lemma init_daemon_keeps_first:
  assumes "init_daemon fe home level format (Some sub) fs = (r, global', fs')"
  shows "r \<noteq> Ok ()" "global' = Some sub"
  using assms
  by (auto simp: init_daemon_def install_file_subscriber_def set_global_default_def Let_def split: option.splits if_splits)

end
