(* ===== verification/Control.thy ===== *)
theory Control
  imports Fuse Cas Logging
begin

text \<open>
  The daemon process (\<^verbatim>\<open>crates/rfsd/src/control_service.rs\<close> and \<^verbatim>\<open>crates/rfsd/src/lib.rs\<close>): the control RPC
  handlers, the release of the daemon's resources, the shutdown protocol of \<^verbatim>\<open>serve\<close> as a step relation that
  interleaves it with RPCs, signals, a server exit and FUSE requests, and the construction of the daemon.
  The session is shared between the control service and the FUSE adapter, so it lives in the daemon's state;
  what the resources own besides is the mount and the socket path. The kernel, the tonic server, tokio's task
  joins are parameters.
\<close>

section \<open>Errors and resources\<close>

datatype control_error =
    CtlSocket string io_error
  | CtlTransport string
  | CtlSignal io_error
  | CtlState session_error
  | CtlTask string
  | CtlContext string control_error

fun control_root_cause :: "control_error \<Rightarrow> control_error" where
  "control_root_cause (CtlContext _ e) = control_root_cause e"
| "control_root_cause e = e"

interpretation ctl_ctx: result_context_error CtlContext control_root_cause
  by unfold_locales simp

record daemon_resources =
  dr_socket :: string

record daemon =
  dm_session :: session
  dm_mounted :: bool

text \<open>\<open>rl_join\<close> is the failure of joining a blocking release step, if its task panicked before it took effect.\<close>

record release_env =
  rl_session :: session_env
  rl_clock :: "u64 option"
  rl_join :: "string \<Rightarrow> string option"

text \<open>An answer that the socket is not there means that someone else removed it.\<close>

text \<open>When the system answers that there is no such file, someone else has removed it: the files of the model follow that answer.\<close>

definition remove_socket :: "fs_env \<Rightarrow> string \<Rightarrow> local_fs \<Rightarrow> (unit, control_error) result \<times> local_fs" where
  "remove_socket fe socket fs =
     (case io_fault fe ''remove control socket'' socket fs of
        Some IoNotFound \<Rightarrow> (Ok (), fs\<lparr>fs_files := (fs_files fs)(socket := None)\<rparr>)
      | Some e \<Rightarrow> (Err (CtlSocket socket e), fs)
      | None \<Rightarrow>
          if socket \<in> fs_dirs fs then (Err (CtlSocket socket (IoOther ''is a directory'')), fs)
          else (Ok (), fs\<lparr>fs_files := (fs_files fs)(socket := None)\<rparr>))"

definition session_fs :: "session \<Rightarrow> local_fs" where
  "session_fs s = cb_fs (s_cache s)"

definition with_session_fs :: "local_fs \<Rightarrow> session \<Rightarrow> session" where
  "with_session_fs fs s = s\<lparr>s_cache := (s_cache s)\<lparr>cb_fs := fs\<rparr>\<rparr>"

definition release ::
  "release_env \<Rightarrow> daemon_resources \<Rightarrow> daemon \<Rightarrow> (unit, control_error) result \<times> daemon" where
  "release env r dm =
     (case rl_join env ''unmount'' of
        Some m \<Rightarrow> (Err (CtlContext ''unmount FUSE'' (CtlTask m)), dm)
      | None \<Rightarrow>
          let dm1 = dm\<lparr>dm_mounted := False\<rparr> in
          (case rl_join env ''close'' of
             Some m \<Rightarrow> (Err (CtlContext ''join session close task'' (CtlTask m)), dm1)
           | None \<Rightarrow>
               (case session_close (rl_session env) (rl_clock env) (dm_session dm1) of
                  (Inl e, s) \<Rightarrow> (Err (CtlState e), dm1\<lparr>dm_session := s\<rparr>)
                | (Inr _, s) \<Rightarrow>
                    (case remove_socket (se_fs (rl_session env)) (dr_socket r) (session_fs s) of
                       (res, fs) \<Rightarrow>
                         (result_context CtlContext ''remove control socket'' res,
                          dm1\<lparr>dm_session := with_session_fs fs s\<rparr>)))))"

section \<open>The control service\<close>

definition PROTOCOL_VERSION :: u32 where
  "PROTOCOL_VERSION = 1"

text \<open>The shared resource slot and the handoff channel of capacity one.\<close>

record control_service =
  cs_resources :: "daemon_resources option"
  cs_channel :: "daemon_resources list"

definition shutting_down :: status where
  "shutting_down = \<lparr>st_code = CodeUnavailable, st_message = ''daemon is shutting down''\<rparr>"

definition validate_protocol :: "u32 \<Rightarrow> (unit, status) result" where
  "validate_protocol version =
     (if version = PROTOCOL_VERSION then Ok ()
      else Err \<lparr>st_code = CodeFailedPrecondition, st_message = ''incompatible protocol version''\<rparr>)"

text \<open>\<open>pid\<close> is the process id of the daemon.\<close>

definition active_info :: "u32 \<Rightarrow> daemon \<Rightarrow> control_service \<Rightarrow> u32 \<Rightarrow> (session_info, status) result" where
  "active_info pid dm svc version =
     (case cs_resources svc of
        None \<Rightarrow> Err shutting_down
      | Some r \<Rightarrow> and_then (validate_protocol version) (\<lambda>_. Ok (session_get_info pid (dm_session dm))))"

definition check_protocol :: "u32 \<Rightarrow> daemon \<Rightarrow> control_service \<Rightarrow> u32 \<Rightarrow> (u32, status) result" where
  "check_protocol pid dm svc version = and_then (active_info pid dm svc version) (\<lambda>_. Ok PROTOCOL_VERSION)"

record status_response =
  sr_mounted :: bool
  sr_root_digest :: string
  sr_mountpoint :: string
  sr_dirty_files :: u64
  sr_protocol_version :: u32
  sr_daemon_pid :: u32
  sr_control_socket :: string
  sr_dirty :: bool
  sr_snapshot_blockers :: "string list"

definition control_status :: "u32 \<Rightarrow> daemon \<Rightarrow> control_service \<Rightarrow> u32 \<Rightarrow> (status_response, status) result" where
  "control_status pid dm svc version =
     and_then (active_info pid dm svc version) (\<lambda>info.
       Ok \<lparr>sr_mounted = True, sr_root_digest = digest_to_string (info_root_digest info),
           sr_mountpoint = info_mountpoint info, sr_dirty_files = 0, sr_protocol_version = PROTOCOL_VERSION,
           sr_daemon_pid = info_daemon_pid info, sr_control_socket = info_control_endpoint info, sr_dirty = False,
           sr_snapshot_blockers = [''snapshot is not implemented'']\<rparr>)"

definition control_snapshot :: "u32 \<Rightarrow> daemon \<Rightarrow> control_service \<Rightarrow> u32 \<Rightarrow> (unit, status) result" where
  "control_snapshot pid dm svc version =
     and_then (active_info pid dm svc version) (\<lambda>_.
       Err \<lparr>st_code = CodeUnimplemented, st_message = ''snapshot is not implemented yet''\<rparr>)"

definition try_send :: "daemon_resources \<Rightarrow> control_service \<Rightarrow> (unit, status) result \<times> control_service" where
  "try_send r svc =
     (if length (cs_channel svc) < 1 then (Ok (), svc\<lparr>cs_channel := cs_channel svc @ [r]\<rparr>)
      else (Err (internal_status ''hand off daemon resources for release''), svc))"

definition control_shutdown :: "u32 \<Rightarrow> control_service \<Rightarrow> (unit, status) result \<times> control_service" where
  "control_shutdown version svc =
     (case cs_resources svc of
        None \<Rightarrow> (Err shutting_down, svc)
      | Some r \<Rightarrow>
          (case validate_protocol version of
             Inl e \<Rightarrow> (Err e, svc)
           | Inr _ \<Rightarrow> try_send r (svc\<lparr>cs_resources := None\<rparr>)))"

definition detach :: "control_service \<Rightarrow> daemon_resources option \<times> control_service" where
  "detach svc = (cs_resources svc, svc\<lparr>cs_resources := None\<rparr>)"

text \<open>\<open>None\<close>: \<^verbatim>\<open>recv\<close> is still waiting.\<close>

definition detach_or_receive :: "control_service \<Rightarrow> (daemon_resources \<times> control_service) option" where
  "detach_or_receive svc =
     (case detach svc of
        (Some r, svc') \<Rightarrow> Some (r, svc')
      | (None, svc') \<Rightarrow>
          (case cs_channel svc' of [] \<Rightarrow> None | r # rest \<Rightarrow> Some (r, svc'\<lparr>cs_channel := rest\<rparr>)))"

section \<open>Serving\<close>

text \<open>
  Where \<^verbatim>\<open>serve\<close> is: waiting in its \<^verbatim>\<open>select!\<close>, releasing (with the result of a server that exited first),
  waiting for the server to drain, or returned.
\<close>

datatype serve_phase =
    Selecting
  | Releasing daemon_resources "(unit, string) result option"
  | Draining "(unit, control_error) result" "(unit, string) result option"
  | Served "(unit, control_error) result"

record control_state =
  ct_service :: control_service
  ct_daemon :: daemon
  ct_phase :: serve_phase
  ct_releases :: nat

fun server_running :: "serve_phase \<Rightarrow> bool" where
  "server_running Selecting = True"
| "server_running (Releasing r fin) = (fin = None)"
| "server_running (Draining res fin) = (fin = None)"
| "server_running (Served res) = False"

definition serve_result :: "(unit, control_error) result \<Rightarrow> (unit, string) result \<Rightarrow> (unit, control_error) result" where
  "serve_result released server = (case server of Inr _ \<Rightarrow> released | Inl e \<Rightarrow> Err (CtlTransport e))"

definition serve_start :: "daemon_resources \<Rightarrow> daemon \<Rightarrow> control_state" where
  "serve_start r dm =
     \<lparr>ct_service = \<lparr>cs_resources = Some r, cs_channel = []\<rparr>, ct_daemon = dm, ct_phase = Selecting, ct_releases = 0\<rparr>"

text \<open>The remote store changes over time, so every FUSE request meets one of the environments \<open>fes\<close>.\<close>

inductive control_step :: "fuse_env set \<Rightarrow> release_env \<Rightarrow> control_state \<Rightarrow> control_state \<Rightarrow> bool" for fes env where
  shutdown_rpc: "server_running (ct_phase c) \<Longrightarrow> control_shutdown version (ct_service c) = (reply, svc) \<Longrightarrow>
     control_step fes env c (c\<lparr>ct_service := svc\<rparr>)"
| fuse_request: "dm_mounted (ct_daemon c) \<Longrightarrow> fe \<in> fes \<Longrightarrow>
     handle fe req \<lparr>ad_session = dm_session (ct_daemon c), ad_ready = False\<rparr> = (answer, a) \<Longrightarrow>
     control_step fes env c (c\<lparr>ct_daemon := (ct_daemon c)\<lparr>dm_session := ad_session a\<rparr>\<rparr>)"
| received: "ct_phase c = Selecting \<Longrightarrow> cs_channel (ct_service c) = r # rest \<Longrightarrow>
     control_step fes env c (c\<lparr>ct_phase := Releasing r None, ct_service := (ct_service c)\<lparr>cs_channel := rest\<rparr>\<rparr>)"
| signalled: "ct_phase c = Selecting \<Longrightarrow> detach_or_receive (ct_service c) = Some (r, svc) \<Longrightarrow>
     control_step fes env c (c\<lparr>ct_phase := Releasing r None, ct_service := svc\<rparr>)"
| server_exited: "ct_phase c = Selecting \<Longrightarrow> detach_or_receive (ct_service c) = Some (r, svc) \<Longrightarrow>
     control_step fes env c (c\<lparr>ct_phase := Releasing r (Some result), ct_service := svc\<rparr>)"
| released: "ct_phase c = Releasing r fin \<Longrightarrow> release env r (ct_daemon c) = (res, dm) \<Longrightarrow>
     control_step fes env c (c\<lparr>ct_phase := Draining res fin, ct_daemon := dm, ct_releases := ct_releases c + 1\<rparr>)"
| drained: "ct_phase c = Draining res fin \<Longrightarrow> fin = None \<or> fin = Some server \<Longrightarrow>
     control_step fes env c (c\<lparr>ct_phase := Served (serve_result res server)\<rparr>)"

inductive_cases control_step_cases: "control_step fes env c c'"

abbreviation control_run :: "fuse_env set \<Rightarrow> release_env \<Rightarrow> control_state \<Rightarrow> control_state \<Rightarrow> bool" where
  "control_run fes env \<equiv> (control_step fes env)\<^sup>*\<^sup>*"

section \<open>Constructing the daemon\<close>

datatype config_error = RfsHomeNotResolved

text \<open>\<open>var\<close> reads the process environment.\<close>

definition config_home :: "(string \<Rightarrow> string option) \<Rightarrow> (string, config_error) result" where
  "config_home var =
     (case var ''RFS_HOME'' of
        Some value \<Rightarrow> Ok value
      | None \<Rightarrow> and_then (ok_or (var ''HOME'') RfsHomeNotResolved) (\<lambda>home. Ok (path_join home ''.rfs'')))"

datatype daemon_log_level = LogError | LogWarn | LogInfo | LogDebug

fun daemon_level_as_str :: "daemon_log_level \<Rightarrow> string" where
  "daemon_level_as_str LogError = ''error''"
| "daemon_level_as_str LogWarn = ''warn''"
| "daemon_level_as_str LogInfo = ''info''"
| "daemon_level_as_str LogDebug = ''debug''"

datatype daemon_output_format = DaemonText | DaemonJson

record daemon_cli =
  dc_root_digest :: string
  dc_mountpoint :: string
  dc_cas_url :: "string option"
  dc_instance_name :: "string option"
  dc_log_level :: daemon_log_level
  dc_output_format :: daemon_output_format

definition or_else :: "'a option \<Rightarrow> 'a option \<Rightarrow> 'a option" where
  "or_else a b = (case a of Some x \<Rightarrow> Some x | None \<Rightarrow> b)"

text \<open>The errors of the startup are chains of context messages, outermost first.\<close>

type_synonym startup_error = "string list"

definition connect_cas ::
  "(string \<Rightarrow> string option) \<Rightarrow> (cas_config \<Rightarrow> ('c, cas_error) result) \<Rightarrow> string option \<Rightarrow> string option \<Rightarrow>
     ('c, startup_error) result" where
  "connect_cas var dial url name =
     and_then (ok_or (or_else url (var ''RFS_CAS_URL'')) [''missing CAS URL'']) (\<lambda>url.
     and_then (ok_or (or_else name (var ''RFS_INSTANCE_NAME'')) [''missing instance name'']) (\<lambda>name.
     and_then (map_err (\<lambda>_. [''validate daemon CAS configuration'']) (config_new url name)) (\<lambda>config.
       map_err (\<lambda>_. [''connect daemon to CAS'']) (dial config))))"

definition bind_control_socket ::
  "fs_env \<Rightarrow> string \<Rightarrow> local_fs \<Rightarrow> (unit, startup_error) result \<times> local_fs" where
  "bind_control_socket fe socket fs =
     (case io_fault fe ''bind control socket'' socket fs of
        Some e \<Rightarrow> (Err [''bind control socket''], fs)
      | None \<Rightarrow>
          if path_exists socket fs \<or> path_parent socket \<notin> fs_dirs fs then (Err [''bind control socket''], fs)
          else
            let bound = fs\<lparr>fs_files := (fs_files fs)(socket \<mapsto> [])\<rparr> in
            (case io_fault fe ''restrict control socket permissions'' socket bound of
               None \<Rightarrow> (Ok (), bound)
             | Some e \<Rightarrow>
                 (Err [''restrict control socket permissions''],
                  (case io_fault fe ''remove control socket after permission failure'' socket bound of
                     None \<Rightarrow> bound\<lparr>fs_files := (fs_files bound)(socket := None)\<rparr>
                   | Some _ \<Rightarrow> bound))))"

text \<open>
  What the surroundings contribute to one start: the environment, the CAS connection, whether the session
  lock is held elsewhere, the fresh identifiers, the clock, the log subscriber that the process has already, whether the root validation task could be joined,
  and the kernel's answers to the mount.
\<close>

record 'c startup =
  su_var :: "string \<Rightarrow> string option"
  su_dial :: "cas_config \<Rightarrow> ('c, cas_error) result"
  su_lock_held :: bool
  su_session_id :: string
  su_pid :: u32
  su_clock :: "u64 option"
  su_utf8 :: bool
  su_subscriber :: "subscriber option"
  su_join_ok :: bool
  su_spawn :: "(unit, io_error) result"
  su_initialised :: bool

definition mount_and_bind ::
  "session_env \<Rightarrow> 'c startup \<Rightarrow> session \<Rightarrow> (daemon_resources \<times> daemon, startup_error) result \<times> local_fs" where
  "mount_and_bind env su s =
     (if \<not> su_join_ok su then (Err [''join root-directory validation task''], session_fs s)
      else
        (case filesystem_new env s of
           (Inl e, s1) \<Rightarrow> (Err [''validate root directory before FUSE mount''], session_fs s1)
         | (Inr _, s1) \<Rightarrow>
             (case fuse_mount (su_spawn su) (su_initialised su) s1 of
                Inl e \<Rightarrow> (Err [''mount FUSE filesystem''], session_fs s1)
              | Inr adapter \<Rightarrow>
                  let socket = info_control_endpoint (session_get_info (su_pid su) s1) in
                  (case bind_control_socket (se_fs env) socket (session_fs s1) of
                     (Inl e, fs) \<Rightarrow> (Err (''set up control socket'' # e), fs)
                   | (Inr _, fs) \<Rightarrow>
                       (Ok (\<lparr>dr_socket = socket\<rparr>, \<lparr>dm_session = with_session_fs fs (ad_session adapter), dm_mounted = True\<rparr>), fs)))))"

text \<open>\<open>env_of\<close> is the environment of a session whose blobs come from the connected client.\<close>

definition construct_daemon ::
  "('c \<Rightarrow> session_env) \<Rightarrow> 'c startup \<Rightarrow> daemon_cli \<Rightarrow> local_fs \<Rightarrow>
     ('c \<times> daemon_resources \<times> daemon, startup_error) result \<times> local_fs" where
  "construct_daemon env_of su cli fs0 =
     (case digest_from_str (dc_root_digest cli) of
        Inl e \<Rightarrow> (Err [''parse daemon root digest''], fs0)
      | Inr digest \<Rightarrow>
          (case connect_cas (su_var su) (su_dial su) (dc_cas_url cli) (dc_instance_name cli) of
             Inl e \<Rightarrow> (Err (''set up daemon CAS client'' # e), fs0)
           | Inr client \<Rightarrow>
               (case config_home (su_var su) of
                  Inl e \<Rightarrow> (Err [''load daemon state configuration''], fs0)
                | Inr home \<Rightarrow>
                    let env = env_of client in
                    (case session_open env (su_lock_held su) (su_session_id su) (su_pid su)
                            (su_clock su) home digest (dc_mountpoint cli) (su_utf8 su) fs0 of
                       (Inl e, fs1) \<Rightarrow> (Err [''create daemon session''], fs1)
                     | (Inr s, fs1) \<Rightarrow>
                         (case init_daemon (se_fs env) home (daemon_level_as_str (dc_log_level cli))
                                 (case dc_output_format cli of DaemonText \<Rightarrow> LogText | DaemonJson \<Rightarrow> LogJson)
                                 (su_subscriber su) (session_fs s) of
                            (Inl e, _, fs2) \<Rightarrow> (Err [''initialize daemon logging'', logging_text e], fs2)
                          | (Inr _, _, fs2) \<Rightarrow>
                              (case mount_and_bind env su (with_session_fs fs2 s) of
                                 (Inl e, fs3) \<Rightarrow> (Err e, fs3)
                               | (Inr (r, dm), fs3) \<Rightarrow> (Ok (client, r, dm), fs3)))))))"


section \<open>The shutdown protocol\<close>

text \<open>
  The resources exist once: in the slot, in the channel, or with \<^verbatim>\<open>serve\<close>, which releases them when it leaves
  the releasing phase.
\<close>

definition holders :: "control_state \<Rightarrow> nat" where
  "holders c = (case cs_resources (ct_service c) of None \<Rightarrow> 0 | Some _ \<Rightarrow> 1) + length (cs_channel (ct_service c)) +
     (case ct_phase c of Selecting \<Rightarrow> 0 | _ \<Rightarrow> 1)"

definition control_inv :: "daemon_resources \<Rightarrow> control_state \<Rightarrow> bool" where
  "control_inv r c \<longleftrightarrow> holders c = 1 \<and> set_option (cs_resources (ct_service c)) \<union> set (cs_channel (ct_service c)) \<subseteq> {r} \<and>
     (\<forall>r' fin. ct_phase c = Releasing r' fin \<longrightarrow> r' = r) \<and>
     ct_releases c = (case ct_phase c of Draining _ _ \<Rightarrow> 1 | Served _ \<Rightarrow> 1 | _ \<Rightarrow> 0)"

lemma detach_or_receive_inv:
  assumes "control_inv r c" "ct_phase c = Selecting" "detach_or_receive (ct_service c) = Some (r', svc)"
  shows "r' = r \<and> cs_resources svc = None \<and> cs_channel svc = []"
  using assms
  by (auto simp: control_inv_def holders_def detach_or_receive_def detach_def split: option.splits list.splits)

lemma control_shutdown_cases:
  "control_shutdown v svc = (reply, svc') \<Longrightarrow>
     svc' = svc \<or> (\<exists>r. cs_resources svc = Some r \<and> cs_channel svc = [] \<and> svc' = svc\<lparr>cs_resources := None, cs_channel := [r]\<rparr>) \<or>
     cs_channel svc \<noteq> [] \<and> cs_resources svc \<noteq> None"
  by (auto simp: control_shutdown_def try_send_def split: option.splits sum.splits if_splits)

lemma control_step_inv:
  assumes "control_step fes env c c'" "control_inv r c"
  shows "control_inv r c'"
  using assms(1)
proof cases
  case (shutdown_rpc version reply svc)
  with control_shutdown_cases [OF shutdown_rpc(3)] assms(2) show ?thesis
    by (auto simp: control_inv_def holders_def)
next
  case (signalled r' svc)
  with detach_or_receive_inv [OF assms(2)] assms(2) show ?thesis by (auto simp: control_inv_def holders_def)
next
  case (server_exited r' svc result)
  with detach_or_receive_inv [OF assms(2)] assms(2) show ?thesis by (auto simp: control_inv_def holders_def)
qed (use assms(2) in \<open>auto simp: control_inv_def holders_def\<close>)

lemma control_run_inv: "control_run fes env (serve_start r dm) c \<Longrightarrow> control_inv r c"
proof (induction rule: rtranclp_induct)
  case base
  show ?case by (simp add: control_inv_def holders_def serve_start_def)
next
  case (step c c')
  then show ?case using control_step_inv by blast
qed

lemma detach_or_receive_ready:
  "control_inv r c \<Longrightarrow> ct_phase c = Selecting \<Longrightarrow> \<exists>svc. detach_or_receive (ct_service c) = Some (r, svc)"
  by (cases "cs_resources (ct_service c)"; cases "cs_channel (ct_service c)")
    (auto simp: control_inv_def holders_def detach_or_receive_def detach_def)

text \<open>From every state of a run the daemon can still finish.\<close>

lemma control_can_finish:
  assumes "control_inv r c"
  shows "\<exists>c' res. control_run fes env c c' \<and> ct_phase c' = Served res"
proof -
  have draining: "\<exists>c' res. control_run fes env c c' \<and> ct_phase c' = Served res" if "ct_phase c = Draining x fin" for c x fin
  proof -
    obtain server where "fin = None \<or> fin = Some server" by (cases fin) auto
    from drained [OF that this] show ?thesis by (auto intro!: exI r_into_rtranclp)
  qed
  have releasing: "\<exists>c' res. control_run fes env c c' \<and> ct_phase c' = Served res" if p: "ct_phase c = Releasing r' fin" for c r' fin
  proof -
    obtain res dm where "release env r' (ct_daemon c) = (res, dm)" by fastforce
    from released [OF p this, of fes] obtain c1 where c1: "control_step fes env c c1" "ct_phase c1 = Draining res fin" by fastforce
    with draining show ?thesis by (meson converse_rtranclp_into_rtranclp)
  qed
  show ?thesis
  proof (cases "ct_phase c")
    case Selecting
    with detach_or_receive_ready [OF assms] obtain svc where "detach_or_receive (ct_service c) = Some (r, svc)" by blast
    from signalled [OF Selecting this, of fes env] obtain c1 where c1: "control_step fes env c c1" "ct_phase c1 = Releasing r None"
      by fastforce
    with releasing show ?thesis by (meson converse_rtranclp_into_rtranclp)
  qed (use draining releasing in auto)
qed

section \<open>Clean exits\<close>

definition released_daemon :: "release_env \<Rightarrow> daemon_resources \<Rightarrow> daemon \<Rightarrow> bool" where
  "released_daemon env r dm \<longleftrightarrow> \<not> dm_mounted dm \<and> fs_files (session_fs (dm_session dm)) (dr_socket r) = None \<and>
     (\<exists>md. session_of (uuid_parse_ok (se_store (rl_session env))) (connection (s_store (dm_session dm))) = Some md \<and>
        md_state md = Closed)"

lemma with_session_fs_sel [simp]:
  "session_fs (with_session_fs fs s) = fs" "s_store (with_session_fs fs s) = s_store s"
  "cb_root (s_cache (with_session_fs fs s)) = cb_root (s_cache s)" "s_layout (with_session_fs fs s) = s_layout s"
  by (simp_all add: session_fs_def with_session_fs_def)

lemma remove_socket_Ok: "remove_socket fe p fs = (Ok u, fs') \<Longrightarrow> fs_files fs' p = None"
  by (auto simp: remove_socket_def split: option.splits if_splits io_error.splits)

lemma release_session_Ok:
  assumes "release env r dm = (Ok u, dm')"
  shows "released_daemon env r dm'"
proof -
  obtain s s' fs where c: "session_close (rl_session env) (rl_clock env) (dm_session dm) = (Ok (), s)"
    and f: "remove_socket (se_fs (rl_session env)) (dr_socket r) (session_fs s) = (Ok (), fs)"
    and dm': "dm' = dm\<lparr>dm_mounted := False, dm_session := with_session_fs fs s\<rparr>"
    using assms by (auto simp: release_def Let_def result_context_eq_Ok split: option.splits prod.splits sum.splits)
  obtain st where st: "store_close (se_store (rl_session env)) (rl_clock env) (s_store (dm_session dm)) = (Ok (), st)"
    "s_store s = st" using c by (auto simp: session_close_def split: prod.splits)
  from store_close_transition [OF st(1)] st(2) remove_socket_Ok [OF f] dm' show ?thesis
    by (auto simp: released_daemon_def)
qed

lemma control_step_released:
  assumes "control_step fes env c c'" "control_inv r c"
    and "\<And>fin. ct_phase c = Draining (Ok ()) fin \<Longrightarrow> released_daemon env r (ct_daemon c)"
    and "ct_phase c = Served (Ok ()) \<Longrightarrow> released_daemon env r (ct_daemon c)"
  shows "(\<forall>fin. ct_phase c' = Draining (Ok ()) fin \<longrightarrow> released_daemon env r (ct_daemon c')) \<and>
    (ct_phase c' = Served (Ok ()) \<longrightarrow> released_daemon env r (ct_daemon c'))"
  using assms(1)
proof cases
  case (fuse_request fe req answer a)
  then show ?thesis using assms(3,4) by (auto simp: released_daemon_def)
next
  case (released r' fin res dm)
  with assms(2) have "r' = r" by (simp add: control_inv_def)
  with released release_session_Ok [of env r "ct_daemon c" "()" dm] show ?thesis by auto
next
  case (drained res fin server)
  then show ?thesis using assms(3) by (auto simp: serve_result_def split: sum.splits)
qed (use assms(3,4) in auto)

lemma control_run_released:
  "control_run fes env (serve_start r dm) c \<Longrightarrow>
     (\<forall>fin. ct_phase c = Draining (Ok ()) fin \<longrightarrow> released_daemon env r (ct_daemon c)) \<and>
     (ct_phase c = Served (Ok ()) \<longrightarrow> released_daemon env r (ct_daemon c))"
proof (induction rule: rtranclp_induct)
  case base
  show ?case by (simp add: serve_start_def)
next
  case (step c c')
  then show ?case using control_step_released [OF step(2) control_run_inv [OF step(1)]] by blast
qed


section \<open>The session of a running daemon\<close>

definition same_checks :: "session_env \<Rightarrow> session_env \<Rightarrow> bool" where
  "same_checks env env' \<longleftrightarrow> se_store env' = se_store env \<and> se_sha env' = se_sha env \<and> se_decode env' = se_decode env"

lemma session_inv_same_checks: "same_checks env env' \<Longrightarrow> session_inv env' s = session_inv env s"
  by (simp add: same_checks_def session_inv_def)

lemma session_inv_fewer_files:
  assumes "session_inv env s" "\<And>p x. fs_files fs p = Some x \<Longrightarrow> fs_files (session_fs s) p = Some x"
  shows "session_inv env (with_session_fs fs s)"
  using assms by (auto simp: session_inv_def cache_ok_def session_fs_def with_session_fs_def)

lemma release_inv:
  assumes "env_ok (rl_session env)" "session_inv (rl_session env) (dm_session dm)" "release env r dm = (res, dm')"
  shows "session_inv (rl_session env) (dm_session dm')"
proof -
  let ?c = "session_close (rl_session env) (rl_clock env) (dm_session dm)"
  have c: "session_inv (rl_session env) (snd ?c)" by (rule session_ops_inv(5) [OF assms(1,2)])
  have f: "session_inv (rl_session env) (with_session_fs fs (snd ?c))"
    if "remove_socket (se_fs (rl_session env)) p (session_fs (snd ?c)) = (rr, fs)" for p rr fs
    using that by (intro session_inv_fewer_files [OF c])
      (auto simp: remove_socket_def split: option.splits if_splits io_error.splits)
  show ?thesis
    using assms(2,3) c f by (auto simp: release_def Let_def split: option.splits prod.splits sum.splits)
qed

lemma control_run_session:
  assumes "control_run fes env (serve_start r dm) c" "env_ok (rl_session env)" "session_inv (rl_session env) (dm_session dm)"
    and "\<forall>fe \<in> fes. env_ok (fe_session fe) \<and> same_checks (rl_session env) (fe_session fe)"
  shows "session_inv (rl_session env) (dm_session (ct_daemon c))"
  using assms(1)
proof (induction rule: rtranclp_induct)
  case base
  then show ?case using assms(3) by (simp add: serve_start_def)
next
  case (step c c')
  from step(2) show ?case
  proof cases
    case (fuse_request fe req answer a)
    then have fe: "env_ok (fe_session fe)" "same_checks (rl_session env) (fe_session fe)" using assms(4) by auto
    with step.IH have "session_inv (fe_session fe) (ad_session \<lparr>ad_session = dm_session (ct_daemon c), ad_ready = False\<rparr>)"
      by (simp add: session_inv_same_checks)
    from handle_inv [OF fe(1) this, of req] fuse_request fe(2) show ?thesis by (simp add: session_inv_same_checks)
  next
    case (released r' fin res dm')
    then show ?thesis using release_inv [OF assms(2) step.IH] by simp
  qed (use step.IH in auto)
qed

section \<open>The constructed daemon\<close>

lemma cache_path_not_home:
  assumes "valid_digest d" "p \<noteq> []" "hd p \<noteq> CHR ''/''" "take 5 p \<noteq> ''cache''"
  shows "cache_path (ly_cache (layout_new home)) d \<noteq> path_join home p"
proof -
  obtain X where X: "\<forall>p. p \<noteq> [] \<longrightarrow> hd p \<noteq> CHR ''/'' \<longrightarrow> path_join home p = X @ p" using path_join_prefix by blast
  obtain a r where h: "take 2 (hash d) = a # r" "a \<noteq> CHR ''/''"
    using valid_digest_hash_hd [OF assms(1)] by (cases "hash d") (auto simp: take_Cons split: nat.splits)
  have "ly_cache (layout_new home) = X @ ''cache''" using X by (simp add: layout_new_def Let_def)
  then have "\<exists>t. cache_path (ly_cache (layout_new home)) d = X @ ''cache'' @ t"
    unfolding cache_path_eq [OF assms(1)] using h by (simp add: path_join_def)
  moreover have "path_join home p = X @ p" using X assms(2,3) by blast
  ultimately show ?thesis using assms(4) by auto
qed

lemma control_endpoint_home: "ly_control_endpoint (layout_new home) = path_join home ''session/control.sock''"
  by (simp add: layout_new_def Let_def path_join_def)

lemma session_inv_new_file:
  assumes "session_inv env s" "cb_root (s_cache s) = ly_cache (layout_new home)" "p \<noteq> []" "hd p \<noteq> CHR ''/''" "take 5 p \<noteq> ''cache''"
    and "\<And>q. q \<noteq> path_join home p \<Longrightarrow> fs_files fs q = fs_files (session_fs s) q"
  shows "session_inv env (with_session_fs fs s)"
proof -
  have "fs_files fs (cache_path (ly_cache (layout_new home)) d) = fs_files (session_fs s) (cache_path (ly_cache (layout_new home)) d)"
    if "valid_digest d" for d
    using assms(6) cache_path_not_home [OF that assms(3-5)] by blast
  with assms(1,2) show ?thesis by (auto simp: session_inv_def cache_ok_def session_fs_def with_session_fs_def)
qed

lemma pending_root:
  "start_pending_blob fe s d = (r, s') \<Longrightarrow> cb_root s' = cb_root s"
  "admit_pending_blob fe sha s p = (ra, s') \<Longrightarrow> cb_root s' = cb_root s"
  using start_pending_blob_effect admit_pending_blob_effect by blast+

lemma fill_cache_root: "fill_cache_after_lock fe sha stream d s = (r, s') \<Longrightarrow> cb_root s' = cb_root s"
  by (auto simp: fill_cache_after_lock_def dest!: pending_root split: prod.splits sum.splits if_splits)

lemma ensure_cached_root:
  assumes "ensure_cached fe sha stream d s = (r, s')"
  shows "cb_root s' = cb_root s"
proof -
  have "cb_root (snd (fill_cache_after_lock fe sha stream d t)) = cb_root t" for t
    using fill_cache_root by (metis prod.collapse)
  with assms show ?thesis
    by (auto simp: ensure_cached_def Let_def split: prod.splits sum.splits if_splits) (metis cached_blob_store.select_convs(1) cached_blob_store.surjective cached_blob_store.update_convs(3) snd_conv)+
qed

lemma read_blob_root: "read_blob fe sha stream d s = (r, s') \<Longrightarrow> cb_root s' = cb_root s"
  by (auto simp: read_blob_def dest: ensure_cached_root split: prod.splits sum.splits)

lemma list_directory_layout:
  assumes "list_directory env i s = (r, s')"
  shows "cb_root (s_cache s') = cb_root (s_cache s) \<and> s_layout s' = s_layout s"
proof -
  have "cb_root (s_cache s') = cb_root (s_cache s) \<and> s_layout s' = s_layout s"
    if "fetch_children env d s = (rr, s')" for d s s' rr
    using that by (auto simp: fetch_children_def dest: read_blob_root split: prod.splits sum.splits)
  then have "cb_root (s_cache s') = cb_root (s_cache s) \<and> s_layout s' = s_layout s"
    if "load_remote_directory env i d s = (rr, s')" for d s s' rr
    using that by (fastforce simp: load_remote_directory_def record_directory_read_def Let_def split: prod.splits sum.splits)
  with assms show ?thesis
    by (auto simp: list_directory_def ensure_directory_loaded_def inode_lock_def
        split: prod.splits sum.splits if_splits option.splits)
qed

lemma session_open_layout:
  assumes "session_open env held sid pid clock home root mp utf8 fs0 = (Ok s, fs')"
  shows "cb_root (s_cache s) = ly_cache (layout_new home) \<and> s_layout s = layout_new home"
proof -
  obtain fs7 where o: "open_stores env sid pid clock (layout_new home) root mp utf8 fs7 = (Ok s, fs')"
    using assms unfolding session_open_def Let_def fs_step_Ok by auto
  obtain c fs8 where "cache_open (se_fs env) (ly_cache (layout_new home)) fs7 = (Ok c, fs8)" "s_cache s = c\<lparr>cb_fs := fs'\<rparr>"
    using open_stores_Ok [OF o] by blast
  then have "cb_root (s_cache s) = ly_cache (layout_new home)" by (auto simp: cache_open_def split: prod.splits sum.splits)
  moreover have "s_layout s = layout_new home" using o unfolding open_stores_def by (auto split: prod.split_asm sum.split_asm)
  ultimately show ?thesis by blast
qed

lemma mount_and_bind_Ok:
  assumes "mount_and_bind env su s = (Ok (r, dm), fs)" "env_ok env" "session_inv env s"
    and "cb_root (s_cache s) = ly_cache (layout_new home)" "s_layout s = layout_new home"
  shows "session_inv env (dm_session dm) \<and> dm_mounted dm \<and> dr_socket r = ly_control_endpoint (layout_new home) \<and>
    fs_files (session_fs (dm_session dm)) (dr_socket r) = Some [] \<and>
    s_store (dm_session dm) = s_store (snd (list_directory env ROOT s))"
proof -
  obtain s1 where n: "filesystem_new env s = (Ok (), s1)"
    and b: "bind_control_socket (se_fs env) (ly_control_endpoint (s_layout s1)) (session_fs s1) = (Ok (), fs)"
    and dm: "dm = \<lparr>dm_session = with_session_fs fs s1, dm_mounted = True\<rparr>" "r = \<lparr>dr_socket = ly_control_endpoint (s_layout s1)\<rparr>"
    using assms(1) by (auto simp: mount_and_bind_def fuse_mount_def session_get_info_def result_simps Let_def
        split: if_splits prod.splits sum.splits)
  obtain rr where l: "list_directory env ROOT s = (rr, s1)"
    using n by (auto simp: filesystem_new_def fs_readdir_def split: prod.splits)
  have s1: "cb_root (s_cache s1) = ly_cache (layout_new home)" "s_layout s1 = layout_new home" "session_inv env s1"
    using list_directory_layout [OF l] assms(4,5) session_ops_inv(3) [OF assms(2,3), of ROOT] l by simp_all
  have f: "fs_files fs = (fs_files (session_fs s1))(ly_control_endpoint (layout_new home) \<mapsto> [])"
    using b s1(2) by (auto simp: bind_control_socket_def Let_def split: option.splits if_splits)
  have "session_inv env (with_session_fs fs s1)"
    by (rule session_inv_new_file [OF s1(3,1), of "''session/control.sock''"]) (simp_all add: f control_endpoint_home)
  with dm f s1(2) l show ?thesis by simp
qed

lemma construct_daemon_session:
  assumes "construct_daemon env_of su cli fs0 = (Ok (client, r, dm), fs')"
    and "\<And>home. config_home (su_var su) = Ok home \<Longrightarrow> cache_ok (se_sha (env_of client)) (ly_cache (layout_new home)) fs0"
  shows "\<exists>root home s fs3. config_home (su_var su) = Ok home \<and> digest_from_str (dc_root_digest cli) = Ok root \<and>
    session_inv (env_of client) s \<and> represents (connection (s_store s)) [root_inode root] \<and>
    cb_root (s_cache s) = ly_cache (layout_new home) \<and> s_layout s = layout_new home \<and>
    mount_and_bind (env_of client) su s = (Ok (r, dm), fs3)"
proof -
  let ?env = "env_of client"
  obtain root home s fs1 format sub fs2 fs3 where h: "config_home (su_var su) = Ok home" and d: "digest_from_str (dc_root_digest cli) = Ok root"
    and o: "session_open ?env (su_lock_held su) (su_session_id su) (su_pid su) (su_clock su) home root
        (dc_mountpoint cli) (su_utf8 su) fs0 = (Ok s, fs1)"
    and l: "init_daemon (se_fs ?env) home (daemon_level_as_str (dc_log_level cli)) format (su_subscriber su) (session_fs s) = (Ok (), sub, fs2)"
    and m: "mount_and_bind ?env su (with_session_fs fs2 s) = (Ok (r, dm), fs3)"
    using assms(1) by (auto simp: construct_daemon_def Let_def split: prod.splits sum.splits)
  note valid = digest_from_str_valid [OF d] and ly = session_open_layout [OF o]
  have inv: "session_inv ?env s" by (rule session_open_inv [OF o valid assms(2) [OF h]])
  have "session_inv ?env (with_session_fs fs2 s)"
    by (rule session_inv_new_file [OF inv, of home DAEMON_TRACE_LOG])
      (use init_daemon_Ok(3) [OF l] ly in \<open>auto simp: DAEMON_TRACE_LOG_def\<close>)
  moreover obtain fs7 where "open_stores ?env (su_session_id su) (su_pid su) (su_clock su) (layout_new home) root
      (dc_mountpoint cli) (su_utf8 su) fs7 = (Ok s, fs1)"
    using o unfolding session_open_def Let_def fs_step_Ok by auto
  from open_stores_Ok [OF this] have "represents (connection (s_store s)) [root_inode root]"
    using store_create_fresh [OF _ valid] unfolding store_create_empty_file by blast
  ultimately show ?thesis using h d m ly by (intro exI [of _ root] exI [of _ home] exI [of _ "with_session_fs fs2 s"] exI [of _ fs3]) simp
qed

lemma construct_daemon_Ok:
  assumes "construct_daemon env_of su cli fs0 = (Ok (client, r, dm), fs')" "env_ok (env_of client)"
    and "\<And>home. config_home (su_var su) = Ok home \<Longrightarrow> cache_ok (se_sha (env_of client)) (ly_cache (layout_new home)) fs0"
  shows "session_inv (env_of client) (dm_session dm) \<and> dm_mounted dm \<and>
    (\<exists>home. config_home (su_var su) = Ok home \<and> dr_socket r = ly_control_endpoint (layout_new home)) \<and>
    fs_files (session_fs (dm_session dm)) (dr_socket r) = Some []"
  using construct_daemon_session [OF assms(1,3)] mount_and_bind_Ok [OF _ assms(2)] by blast


section \<open>Properties\<close>

text \<open>
  C7 Shutdown happens exactly once and cannot get stuck. In every interleaving of shutdown RPCs of any
  protocol version, signals, a server exit and FUSE requests, the resources have exactly one holder, and it holds the ones the daemon was constructed
  with: the slot of the service, the channel, or \<^verbatim>\<open>serve\<close> once it has taken them. They are released at most once, and
  exactly once when \<^verbatim>\<open>serve\<close> has returned; the handoff never fails, so a shutdown RPC is never answered with an
  internal error; once the resources are detached every endpoint is unavailable, whatever the version;
  \<^verbatim>\<open>detach_or_receive\<close> never waits for a handoff that does not come; and the daemon can always finish.
\<close>

theorem shutdown_once:
  assumes "control_run fes env (serve_start r dm) c"
  shows "(case cs_resources (ct_service c) of None \<Rightarrow> 0 | Some _ \<Rightarrow> 1) + length (cs_channel (ct_service c)) +
      (case ct_phase c of Selecting \<Rightarrow> 0 | _ \<Rightarrow> 1) = 1 \<and>
    set_option (cs_resources (ct_service c)) \<union> set (cs_channel (ct_service c)) \<subseteq> {r} \<and>
    (\<forall>r' fin. ct_phase c = Releasing r' fin \<longrightarrow> r' = r) \<and>
    ct_releases c \<le> 1 \<and> (\<forall>res. ct_phase c = Served res \<longrightarrow> ct_releases c = 1) \<and>
    (\<forall>version s svc. control_shutdown version (ct_service c) = (Err s, svc) \<longrightarrow> st_code s \<noteq> CodeInternal) \<and>
    (cs_resources (ct_service c) = None \<longrightarrow> (\<forall>version pid.
       active_info pid (ct_daemon c) (ct_service c) version = Err shutting_down \<and>
       control_shutdown version (ct_service c) = (Err shutting_down, ct_service c))) \<and>
    (0 < ct_releases c \<longrightarrow> cs_resources (ct_service c) = None) \<and>
    (ct_phase c = Selecting \<longrightarrow> detach_or_receive (ct_service c) \<noteq> None) \<and>
    (\<exists>c' res. control_run fes env c c' \<and> ct_phase c' = Served res)"
proof -
  have inv: "control_inv r c" by (rule control_run_inv [OF assms])
  then have "(case cs_resources (ct_service c) of None \<Rightarrow> 0 | Some _ \<Rightarrow> 1) + length (cs_channel (ct_service c)) +
      (case ct_phase c of Selecting \<Rightarrow> 0 | _ \<Rightarrow> 1) = 1"
    "set_option (cs_resources (ct_service c)) \<union> set (cs_channel (ct_service c)) \<subseteq> {r}"
    "\<forall>r' fin. ct_phase c = Releasing r' fin \<longrightarrow> r' = r"
    unfolding control_inv_def holders_def by blast+
  moreover have "st_code s \<noteq> CodeInternal" if "control_shutdown version (ct_service c) = (Err s, svc)" for version s svc
    using that inv by (auto simp: control_shutdown_def try_send_def control_inv_def holders_def shutting_down_def
        validate_protocol_def split: option.splits sum.splits if_splits)
  moreover have "active_info pid (ct_daemon c) (ct_service c) version = Err shutting_down \<and>
      control_shutdown version (ct_service c) = (Err shutting_down, ct_service c)"
    if "cs_resources (ct_service c) = None" for version pid
    using that by (simp add: active_info_def control_shutdown_def)
  moreover have "ct_releases c \<le> 1" "\<forall>res. ct_phase c = Served res \<longrightarrow> ct_releases c = 1"
    using inv by (auto simp: control_inv_def split: serve_phase.splits)
  moreover have "0 < ct_releases c \<longrightarrow> cs_resources (ct_service c) = None"
    using inv by (auto simp: control_inv_def holders_def split: serve_phase.splits option.splits)
  moreover have "ct_phase c = Selecting \<longrightarrow> detach_or_receive (ct_service c) \<noteq> None"
    using detach_or_receive_ready [OF inv] by auto
  ultimately show ?thesis using control_can_finish [OF inv] by blast
qed

definition demo_daemon :: daemon where
  "demo_daemon = \<lparr>dm_session = demo_session, dm_mounted = True\<rparr>"

definition demo_release_env :: release_env where
  "demo_release_env = \<lparr>rl_session = demo_session_env, rl_clock = Some 9, rl_join = (\<lambda>_. None)\<rparr>"

lemma demo_shutdown_run:
  "\<exists>c. control_run {demo_fuse_env} demo_release_env (serve_start \<lparr>dr_socket = ''/h/session/control.sock''\<rparr> demo_daemon) c \<and>
     ct_phase c = Served (Ok ())"
proof -
  let ?r = "\<lparr>dr_socket = ''/h/session/control.sock''\<rparr>"
  let ?c0 = "serve_start ?r demo_daemon"
  let ?c1 = "?c0\<lparr>ct_service := \<lparr>cs_resources = None, cs_channel = [?r]\<rparr>\<rparr>"
  let ?c2 = "?c1\<lparr>ct_phase := Releasing ?r None, ct_service := \<lparr>cs_resources = None, cs_channel = []\<rparr>\<rparr>"
  have 1: "control_step {demo_fuse_env} demo_release_env ?c0 ?c1"
    by (rule shutdown_rpc [where version = 1]) (simp_all add: serve_start_def control_shutdown_def validate_protocol_def
        PROTOCOL_VERSION_def try_send_def)
  have 2: "control_step {demo_fuse_env} demo_release_env ?c1 ?c2"
    using received [of ?c1 ?r "[]" "{demo_fuse_env}" demo_release_env] by (simp add: serve_start_def)
  obtain st' where close: "store_close demo_env (Some 9) demo_store = (Ok (), st')" using demo_closed by blast
  have "\<exists>dm. release demo_release_env ?r demo_daemon = (Ok (), dm)"
    using close by (simp add: release_def demo_release_env_def demo_daemon_def session_close_def demo_session_env_def
        demo_session_def remove_socket_def demo_fs_env_def session_fs_def)
  then obtain dm where "release demo_release_env ?r (ct_daemon ?c2) = (Ok (), dm)" by (auto simp: serve_start_def)
  define c3 where "c3 = ?c2\<lparr>ct_phase := Draining (Ok ()) None, ct_daemon := dm, ct_releases := ct_releases ?c2 + 1\<rparr>"
  have 3: "control_step {demo_fuse_env} demo_release_env ?c2 c3"
    unfolding c3_def by (rule released) (use \<open>release demo_release_env ?r (ct_daemon ?c2) = (Ok (), dm)\<close> in simp_all)
  have "ct_phase c3 = Draining (Ok ()) None" by (simp add: c3_def)
  from drained [OF this, of "Ok ()" "{demo_fuse_env}" demo_release_env]
  have 4: "control_step {demo_fuse_env} demo_release_env c3 (c3\<lparr>ct_phase := Served (Ok ())\<rparr>)" by (simp add: serve_result_def)
  have "control_run {demo_fuse_env} demo_release_env ?c0 (c3\<lparr>ct_phase := Served (Ok ())\<rparr>)"
    using 1 2 3 4 by (meson converse_rtranclp_into_rtranclp rtranclp.rtrancl_refl)
  then show ?thesis by (intro exI [of _ "c3\<lparr>ct_phase := Served (Ok ())\<rparr>"]) simp
qed

theorem shutdown_once_witness:
  "\<exists>c. control_run {demo_fuse_env} demo_release_env (serve_start \<lparr>dr_socket = ''/h/session/control.sock''\<rparr> demo_daemon) c \<and>
     ct_phase c = Served (Ok ()) \<and> ct_releases c = 1"
proof -
  obtain c where c: "control_run {demo_fuse_env} demo_release_env (serve_start \<lparr>dr_socket = ''/h/session/control.sock''\<rparr> demo_daemon) c"
    "ct_phase c = Served (Ok ())" using demo_shutdown_run by blast
  from shutdown_once [OF c(1)] c show ?thesis by blast
qed

text \<open>
  C14 A clean exit has released everything. When \<^verbatim>\<open>serve\<close> returns success, the file system is unmounted, the
  control socket is gone, and the stored session is closed; no later FUSE request undoes any of it.
\<close>

theorem clean_exit:
  assumes "control_run fes env (serve_start r dm) c" "ct_phase c = Served (Ok ())"
  shows "\<not> dm_mounted (ct_daemon c) \<and> fs_files (cb_fs (s_cache (dm_session (ct_daemon c)))) (dr_socket r) = None \<and>
    (\<exists>md. session_of (uuid_parse_ok (se_store (rl_session env))) (connection (s_store (dm_session (ct_daemon c)))) = Some md \<and>
       md_state md = Closed)"
  using control_run_released [OF assms(1)] assms(2) by (simp add: released_daemon_def session_fs_def)

theorem clean_exit_witness:
  "\<exists>c. control_run {demo_fuse_env} demo_release_env (serve_start \<lparr>dr_socket = ''/h/session/control.sock''\<rparr> demo_daemon) c \<and>
     ct_phase c = Served (Ok ()) \<and> \<not> dm_mounted (ct_daemon c)"
proof -
  obtain c where c: "control_run {demo_fuse_env} demo_release_env (serve_start \<lparr>dr_socket = ''/h/session/control.sock''\<rparr> demo_daemon) c"
    "ct_phase c = Served (Ok ())" using demo_shutdown_run by blast
  from clean_exit [OF c] c show ?thesis by blast
qed

end
