(* ===== verification/Snapshot.thy ===== *)
theory Snapshot
  imports Control
begin

text \<open>
  The snapshot that a root digest names, as an abstract specification of the mounted file system, and the
  refinement: what the daemon stores, lists and serves is at every moment a part of that snapshot.
  This theory relates \<^verbatim>\<open>session.rs\<close>, \<^verbatim>\<open>session/store.rs\<close>, \<^verbatim>\<open>filesystem.rs\<close>, \<^verbatim>\<open>fuse.rs\<close>, \<^verbatim>\<open>control_service.rs\<close>
  and \<^verbatim>\<open>lib.rs\<close> of the daemon; it models no code of its own.
\<close>

section \<open>The snapshot of a root digest\<close>

text \<open>
  A directory digest names the children \<open>cs\<close> when some content with that digest decodes to a canonical
  directory with these children (\<open>loaded_from\<close>). The entries of a snapshot are the nodes met on the way
  down from the root.
\<close>

inductive snapshot_entry :: "session_env \<Rightarrow> digest \<Rightarrow> string list \<Rightarrow> new_remote_inode \<Rightarrow> bool" for env root where
  top: "loaded_from env root cs \<Longrightarrow> c \<in> set cs \<Longrightarrow> snapshot_entry env root [nr_name c] c"
| below: "snapshot_entry env root p c' \<Longrightarrow> nr_content c' = RemoteDirectory d \<Longrightarrow> loaded_from env d cs \<Longrightarrow>
    c \<in> set cs \<Longrightarrow> snapshot_entry env root (p @ [nr_name c]) c"

inductive snapshot_directory :: "session_env \<Rightarrow> digest \<Rightarrow> string list \<Rightarrow> digest \<Rightarrow> bool" for env root where
  root_directory: "snapshot_directory env root [] root"
| sub_directory: "snapshot_entry env root p c \<Longrightarrow> nr_content c = RemoteDirectory d \<Longrightarrow> snapshot_directory env root p d"

lemma snapshot_child:
  "snapshot_directory env root p d \<Longrightarrow> loaded_from env d cs \<Longrightarrow> c \<in> set cs \<Longrightarrow> snapshot_entry env root (p @ [nr_name c]) c"
  by (erule snapshot_directory.cases) (auto intro: snapshot_entry.intros dest: top)

text \<open>The remote node that an inode stands for.\<close>

definition remote_of :: "store_inode \<Rightarrow> new_remote_inode" where
  "remote_of q =
     \<lparr>nr_name = si_name q, nr_mode = si_mode q, nr_mtime = si_mtime q,
      nr_content = (case si_kind q of
          File \<Rightarrow> RemoteFile (the (si_file_remote_digest q))
        | Directory \<Rightarrow> RemoteDirectory (the (si_directory_remote_digest q))
        | Symlink \<Rightarrow> RemoteSymlink (the (si_symlink_target q)))\<rparr>"

lemma remote_of_inode_of_remote [simp]: "remote_of (inode_of_remote i p c) = c"
  by (cases c; cases "nr_content c") (simp_all add: remote_of_def inode_of_remote_def)

lemma remote_of_mark_loaded [simp]: "remote_of (mark_loaded i q) = remote_of q"
  by (cases "si_kind q") (simp_all add: remote_of_def mark_loaded_def)

lemma remote_of_name [simp]: "nr_name (remote_of q) = si_name q"
  by (simp add: remote_of_def)

lemma remote_of_new_inodes: "map remote_of (new_inodes p k cs) = cs"
  by (induction cs arbitrary: k) simp_all

section \<open>Faithful namespaces\<close>

definition faithful :: "session_env \<Rightarrow> digest \<Rightarrow> store_inode list \<Rightarrow> bool" where
  "faithful env root ns \<longleftrightarrow>
     si_kind (hd ns) = Directory \<and> si_directory_remote_digest (hd ns) = Some root \<and>
     (\<forall>q \<in> set ns. \<not> si_tombstone q \<and> si_file_overlay_path q = None) \<and>
     (\<forall>q \<in> set ns. si_directory_loaded q = Some True \<longrightarrow>
        (\<exists>d cs. si_directory_remote_digest q = Some d \<and> loaded_from env d cs \<and>
           map remote_of (children_of ns (si_id q)) = sort_key nr_name cs))"

lemma faithful_root: "faithful env root [root_inode root]"
  by (simp add: faithful_def root_inode_def inode_of_remote_def)

lemma children_of_materialize_other:
  assumes "j \<noteq> i"
  shows "map remote_of (children_of (materialize i cs ns) j) = map remote_of (children_of ns j)"
proof -
  have "filter (\<lambda>n. si_parent n = Some j) (materialize i cs ns) = map (mark_loaded i) (filter (\<lambda>n. si_parent n = Some j) ns)"
    using assms by (auto simp: materialize_def filter_map comp_def filter_empty_conv dest: new_inodes_sel(2))
  then show ?thesis
    by (simp add: children_of_def sort_key_map comp_def)
qed

lemma loaded_mark_loaded: "si_directory_loaded (mark_loaded i q) = (if si_id q = i then Some True else si_directory_loaded q)"
  by (simp add: mark_loaded_def)

lemma new_inodes_more:
  "n \<in> set (new_inodes p k cs) \<Longrightarrow> si_directory_loaded n \<noteq> Some True \<and> si_file_overlay_path n = None"
  by (induction cs arbitrary: k) (auto simp: inode_of_remote_def split: remote_content.splits)

lemma faithful_materialize:
  assumes f: "faithful env root ns" and wf: "wf_namespace ns"
    and q: "inode_by_id ns i = Some q" "si_directory_loaded q \<noteq> Some True"
    and d: "si_directory_remote_digest q = Some d" "loaded_from env d cs"
  shows "faithful env root (materialize i cs ns)"
proof -
  let ?ms = "materialize i cs ns"
  have set_ms: "set ?ms = mark_loaded i ` set ns \<union> set (new_inodes i (sqlite (si_id (last ns))) cs)"
    by (simp add: materialize_def)
  have hd_ms: "hd ?ms = mark_loaded i (hd ns)" using wf_namespaceD(1) [OF wf] by (cases ns) (simp_all add: materialize_def)
  have q': "q \<in> set ns" "si_id q = i" using q(1) by (auto simp: inode_by_id_def dest: find_SomeD)
  have at_i: "map remote_of (children_of ?ms i) = sort_key nr_name cs"
  proof -
    have "children_of ?ms i = sort_key si_name (new_inodes i (sqlite (si_id (last ns))) cs)"
      by (rule children_of_materialize [OF unloaded_no_children [OF wf q]])
    also have "map remote_of \<dots> = sort_key nr_name (map remote_of (new_inodes i (sqlite (si_id (last ns))) cs))"
      by (simp add: sort_key_map comp_def)
    finally show ?thesis by (simp add: remote_of_new_inodes)
  qed
  have "\<exists>d cs. si_directory_remote_digest n = Some d \<and> loaded_from env d cs \<and>
      map remote_of (children_of ?ms (si_id n)) = sort_key nr_name cs"
    if n: "n \<in> set ?ms" "si_directory_loaded n = Some True" for n
  proof -
    obtain m where m: "m \<in> set ns" "n = mark_loaded i m" using n set_ms new_inodes_more by blast
    show ?thesis
    proof (cases "si_id m = i")
      case True
      then have "m = q" using wf_namespace_unique [OF wf m(1) q'(1)] q'(2) by simp
      with True at_i d m(2) show ?thesis by auto
    next
      case False
      with n(2) m f have "\<exists>d cs. si_directory_remote_digest m = Some d \<and> loaded_from env d cs \<and>
          map remote_of (children_of ns (si_id m)) = sort_key nr_name cs"
        by (auto simp: faithful_def loaded_mark_loaded)
      with False m(2) show ?thesis by (simp add: children_of_materialize_other)
    qed
  qed
  moreover have "\<not> si_tombstone n \<and> si_file_overlay_path n = None" if "n \<in> set ?ms" for n
    using that f new_inodes_more new_inodes_not_tombstone unfolding set_ms faithful_def by fastforce
  ultimately show ?thesis using f by (simp add: faithful_def hd_ms)
qed

section \<open>Sessions stay faithful\<close>

definition faithful_session :: "session_env \<Rightarrow> digest \<Rightarrow> session \<Rightarrow> bool" where
  "faithful_session env root s \<longleftrightarrow> session_inv env s \<and>
     (\<exists>ns. represents (connection (s_store s)) ns \<and> faithful env root ns)"

lemma faithful_load:
  assumes "env_ok env" "faithful_session env root s"
  shows "faithful_session env root (snd (ensure_directory_loaded env i s))"
proof -
  obtain ns where ns: "represents (connection (s_store s)) ns" "faithful env root ns" and inv: "session_inv env s"
    using assms(2) by (auto simp: faithful_session_def)
  obtain r s' where run: "ensure_directory_loaded env i s = (r, s')" by fastforce
  note e = ensure_directory_loaded_effect [OF assms(1) inv ns(1) run]
  show ?thesis
  proof (cases r)
    case (Inl x)
    with ensure_directory_loaded_Err [of env i s x s'] run e ns show ?thesis by (auto simp: faithful_session_def)
  next
    case (Inr u)
    with e obtain q where q: "inode_by_id ns i = Some q" "if si_directory_loaded q = Some True then s_store s' = s_store s \<and> s_counters s' = s_counters s
        else \<exists>d cs dl. si_directory_remote_digest q = Some d \<and> loaded_from env d cs \<and>
          validate_remote_children cs = Ok () \<and>
          represents (connection (s_store s')) (materialize i cs ns) \<and>
          s_counters s' = s_counters (record_directory_read dl s)" by auto
    show ?thesis
    proof (cases "si_directory_loaded q = Some True")
      case True
      with q(2) e run ns show ?thesis by (auto simp: faithful_session_def)
    next
      case False
      with q(2) obtain d cs where d: "si_directory_remote_digest q = Some d" "loaded_from env d cs"
        "represents (connection (s_store s')) (materialize i cs ns)" by auto
      from faithful_materialize [OF ns(2) represents_wf [OF ns(1)] q(1) False d(1,2)] d(3) e run show ?thesis
        by (auto simp: faithful_session_def)
    qed
  qed
qed

lemma faithful_same_store:
  "faithful_session env root s \<Longrightarrow> session_inv env s' \<Longrightarrow> s_store s' = s_store s \<Longrightarrow> faithful_session env root s'"
  by (simp add: faithful_session_def)

lemma store_close_inodes: "store_close env clock st = (r, st') \<Longrightarrow> db_inodes (connection st') = db_inodes (connection st)"
proof (cases r)
  case (Inl e)
  then show "store_close env clock st = (r, st') \<Longrightarrow> db_inodes (connection st') = db_inodes (connection st)"
    by (auto simp: store_close_def dest: with_transaction_Err split: sum.splits)
next
  case (Inr u)
  then show "store_close env clock st = (r, st') \<Longrightarrow> db_inodes (connection st') = db_inodes (connection st)"
    using store_close_transition by blast
qed

lemma represents_same_rows:
  "represents d ns \<Longrightarrow> represents d' ns' \<Longrightarrow> db_inodes d' = db_inodes d \<Longrightarrow> ns' = ns"
  unfolding represents_def wf_namespace_def by (metis collect_rows sum.inject(2))

lemma faithful_ops:
  assumes "env_ok env" "faithful_session env root s"
  shows "faithful_session env root (snd (lookup_child env i name s))" "faithful_session env root (snd (list_directory env i s))"
    "faithful_session env root (snd (session_read_range env i off sz s))" "faithful_session env root (snd (session_close env clock s))"
proof -
  have "snd (lookup_child env i name s) = snd (ensure_directory_loaded env i s)"
    "snd (list_directory env i s) = snd (ensure_directory_loaded env i s)"
    by (simp_all add: lookup_child_def list_directory_def split: prod.splits sum.splits)
  with faithful_load [OF assms] show "faithful_session env root (snd (lookup_child env i name s))"
    "faithful_session env root (snd (list_directory env i s))" by simp_all
  obtain ns where ns: "represents (connection (s_store s)) ns" and inv: "session_inv env s"
    using assms(2) by (auto simp: faithful_session_def)
  show "faithful_session env root (snd (session_read_range env i off sz s))"
    using session_read_range_effect [OF assms(1) inv ns] faithful_same_store [OF assms(2)] by (metis prod.collapse)
  have inv': "session_inv env (snd (session_close env clock s))" by (rule session_ops_inv(5) [OF assms(1) inv])
  show "faithful_session env root (snd (session_close env clock s))"
    using assms(2) inv' session_inv_namespace [OF inv'] represents_same_rows store_close_inodes
    by (simp add: faithful_session_def session_close_def split: prod.splits) (metis session.select_convs(1) session.surjective)
qed

section \<open>The daemon stays faithful\<close>

lemma faithful_same_checks:
  assumes "same_checks env env'"
  shows "faithful_session env' root s = faithful_session env root s"
proof -
  have "loaded_from env' = loaded_from env" using assms by (intro ext) (simp add: loaded_from_def same_checks_def)
  then show ?thesis using session_inv_same_checks [OF assms] by (simp add: faithful_session_def faithful_def)
qed

lemma faithful_handle:
  assumes "env_ok (fe_session fe)" "faithful_session (fe_session fe) root (ad_session a)"
  shows "faithful_session (fe_session fe) root (ad_session (snd (handle fe req a)))"
proof (cases req)
  case (Lookup parent name)
  then show ?thesis using handlers_session(1) [of fe parent name a] faithful_ops(1) [OF assms] assms(2) by auto
next
  case (Readdir fits w off)
  then show ?thesis using handlers_session(2) [of fe fits w off a] faithful_ops(2) [OF assms] assms(2) by auto
next
  case (Read w off sz)
  then show ?thesis using handlers_session(3) [of fe w off sz a] faithful_ops(3) [OF assms] assms(2) by auto
qed (use handle_same_session [of req fe a] assms(2) in \<open>auto simp del: handle.simps\<close>)

lemma faithful_with_fs:
  "faithful_session env root s \<Longrightarrow> session_inv env (with_session_fs fs s) \<Longrightarrow> faithful_session env root (with_session_fs fs s)"
  by (simp add: faithful_session_def)

lemma release_store:
  assumes "release env r dm = (res, dm')"
  shows "s_store (dm_session dm') = s_store (dm_session dm) \<or>
    s_store (dm_session dm') = s_store (snd (session_close (rl_session env) (rl_clock env) (dm_session dm)))"
  using assms by (auto simp: release_def Let_def split: option.splits prod.splits sum.splits)

lemma faithful_run:
  assumes "control_run fes env (serve_start r dm) c" "env_ok (rl_session env)" "faithful_session (rl_session env) root (dm_session dm)"
    and "\<forall>fe \<in> fes. env_ok (fe_session fe) \<and> same_checks (rl_session env) (fe_session fe)"
  shows "faithful_session (rl_session env) root (dm_session (ct_daemon c))"
  using assms(1)
proof (induction rule: rtranclp_induct)
  case base
  then show ?case using assms(3) by (simp add: serve_start_def)
next
  case (step c c')
  from step(2) show ?case
  proof cases
    case (fuse_request fe req answer a)
    then have fe: "env_ok (fe_session fe)" "same_checks (rl_session env) (fe_session fe)" using assms(4) by auto
    with step.IH have "faithful_session (fe_session fe) root (ad_session \<lparr>ad_session = dm_session (ct_daemon c), ad_ready = False\<rparr>)"
      by (simp add: faithful_same_checks)
    from faithful_handle [OF fe(1) this, of req] fuse_request fe(2) show ?thesis by (simp add: faithful_same_checks)
  next
    case (released r' fin res dm')
    have inv: "session_inv (rl_session env) (dm_session dm')"
      by (rule release_inv [OF assms(2) _ released(3)]) (use step.IH in \<open>simp add: faithful_session_def\<close>)
    have "faithful_session (rl_session env) root (dm_session dm')"
      using release_store [OF released(3)] faithful_same_store [OF step.IH inv]
        faithful_same_store [OF faithful_ops(4) [OF assms(2) step.IH] inv] by blast
    with released show ?thesis by simp
  qed (use step.IH in auto)
qed

lemma faithful_constructed:
  assumes run: "construct_daemon env_of su cli fs0 = (Ok (client, r, dm), fs')" and env: "env_ok (env_of client)"
    and cache: "\<And>home. config_home (su_var su) = Ok home \<Longrightarrow> cache_ok (se_sha (env_of client)) (ly_cache (layout_new home)) fs0"
  shows "\<exists>root. digest_from_str (dc_root_digest cli) = Ok root \<and> faithful_session (env_of client) root (dm_session dm)"
proof -
  obtain root home s fs3 where root: "digest_from_str (dc_root_digest cli) = Ok root"
    and s: "session_inv (env_of client) s" "represents (connection (s_store s)) [root_inode root]"
    and m: "cb_root (s_cache s) = ly_cache (layout_new home)" "s_layout s = layout_new home"
      "mount_and_bind (env_of client) su s = (Ok (r, dm), fs3)"
    using construct_daemon_session [OF run cache] by auto
  have "faithful_session (env_of client) root s" using s faithful_root by (auto simp: faithful_session_def)
  from faithful_ops(2) [OF env this, of ROOT] mount_and_bind_Ok [OF m(3) env s(1) m(1,2)] root show ?thesis
    by (auto intro: faithful_same_store)
qed

section \<open>Paths through the mount\<close>

text \<open>\<open>located env root p q\<close>: the inode stands for the entry at the path \<open>p\<close> of the snapshot.\<close>

definition located :: "session_env \<Rightarrow> digest \<Rightarrow> string list \<Rightarrow> store_inode \<Rightarrow> bool" where
  "located env root p q \<longleftrightarrow> (if p = [] then si_id q = ROOT else snapshot_entry env root p (remote_of q))"

lemma located_directory:
  assumes "faithful env root ns" "wf_namespace ns" "q \<in> set ns" "located env root p q"
    and "si_kind q = Directory" "si_directory_loaded q = Some True"
  shows "\<exists>d cs. snapshot_directory env root p d \<and> loaded_from env d cs \<and> map remote_of (children_of ns (si_id q)) = sort_key nr_name cs"
proof -
  obtain d cs where d: "si_directory_remote_digest q = Some d" "loaded_from env d cs"
    "map remote_of (children_of ns (si_id q)) = sort_key nr_name cs"
    using assms(1,3,6) by (auto simp: faithful_def)
  have "snapshot_directory env root p d"
  proof (cases "p = []")
    case True
    then have "q = hd ns"
      using assms(4) wf_namespaceD(1,2) [OF assms(2)] wf_namespace_unique [OF assms(2) _ assms(3), of "hd ns"]
      by (simp add: located_def)
    with assms(1) d(1) True show ?thesis by (simp add: faithful_def root_directory)
  next
    case False
    with assms(4,5) d(1) show ?thesis by (intro sub_directory [of env root p "remote_of q"]) (simp_all add: located_def remote_of_def)
  qed
  with d show ?thesis by blast
qed

lemma located_not_root:
  assumes "faithful env root ns" "wf_namespace ns" "q \<in> set ns" "located env root p q" "si_kind q \<noteq> Directory"
  shows "p \<noteq> []"
proof
  assume "p = []"
  then have "q = hd ns"
    using assms(4) wf_namespaceD(1,2) [OF assms(2)] wf_namespace_unique [OF assms(2) _ assms(3), of "hd ns"]
    by (simp add: located_def)
  with assms(1,5) show False by (simp add: faithful_def)
qed

lemma located_child:
  assumes "faithful env root ns" "wf_namespace ns" "q \<in> set ns" "located env root p q"
    and "si_kind q = Directory" "si_directory_loaded q = Some True" "c \<in> set (children_of ns (si_id q))"
  shows "located env root (p @ [si_name c]) c"
proof -
  obtain d cs where d: "snapshot_directory env root p d" "loaded_from env d cs"
    "map remote_of (children_of ns (si_id q)) = sort_key nr_name cs"
    using located_directory [OF assms(1-6)] by blast
  have "remote_of c \<in> set cs" using assms(7) arg_cong [OF d(3), of set] by auto
  from snapshot_child [OF d(1,2) this] show ?thesis by (simp add: located_def)
qed

lemma located_mark_loaded [simp]: "located env root p (mark_loaded i q) = located env root p q"
  by (simp add: located_def)

text \<open>Loading a directory keeps the places of the inodes.\<close>

lemma load_keeps_place:
  assumes "env_ok env" "session_inv env s" "represents (connection (s_store s)) ns"
    and "ensure_directory_loaded env i s = (Ok (), s')" "inode_by_id ns i = Some q" "located env root p q"
  shows "\<exists>ns' q'. represents (connection (s_store s')) ns' \<and> inode_by_id ns' i = Some q' \<and> located env root p q' \<and>
    si_kind q' = Directory \<and> si_directory_loaded q' = Some True"
proof -
  note e = ensure_directory_loaded_effect [OF assms(1-4)]
  show ?thesis
  proof (cases "si_directory_loaded q = Some True")
    case True
    with e assms(3,5,6) show ?thesis by auto
  next
    case False
    with e assms(5) obtain cs where r: "represents (connection (s_store s')) (materialize i cs ns)" and k: "si_kind q = Directory" by auto
    moreover have "inode_by_id (materialize i cs ns) i = Some (mark_loaded i q)" by (rule inode_by_id_materialize [OF assms(5)])
    moreover have "si_directory_loaded (mark_loaded i q) = Some True"
      using assms(5) by (auto simp: loaded_mark_loaded inode_by_id_def dest: find_SomeD)
    ultimately show ?thesis using assms(6) by (intro exI [of _ "materialize i cs ns"] exI [of _ "mark_loaded i q"]) simp
  qed
qed

text \<open>\<open>at env root p w s\<close>: the inode number \<open>w\<close> of the session \<open>s\<close> denotes the entry at \<open>p\<close>.\<close>

definition at_path :: "session_env \<Rightarrow> digest \<Rightarrow> string list \<Rightarrow> u64 \<Rightarrow> session \<Rightarrow> bool" where
  "at_path env root p w s \<longleftrightarrow> (\<exists>ns i q. represents (connection (s_store s)) ns \<and> inode_new w = Ok i \<and>
     inode_by_id ns i = Some q \<and> located env root p q)"

lemma inode_new_stored: "wf_namespace ns \<Longrightarrow> inode_by_id ns i = Some q \<Longrightarrow> inode_new (inode_get i) = Ok i"
  by (auto simp: inode_new_eq_Ok inode_by_id_def dest!: find_SomeD wf_namespaceD(4) simp: wf_inode_def)

lemma inode_by_id_self:
  assumes "wf_namespace ns" "c \<in> set ns"
  shows "inode_by_id ns (si_id c) = Some c"
proof (cases "inode_by_id ns (si_id c)")
  case None
  with assms(2) show ?thesis by (auto simp: inode_by_id_def find_None_iff)
next
  case (Some c')
  then have "c' \<in> set ns" "si_id c' = si_id c" by (auto simp: inode_by_id_def dest: find_SomeD)
  with Some wf_namespace_unique [OF assms(1)] assms(2) show ?thesis by blast
qed

lemma at_root:
  assumes "faithful_session env root s"
  shows "at_path env root [] 1 s"
proof -
  obtain ns where ns: "represents (connection (s_store s)) ns" using assms by (auto simp: faithful_session_def)
  note wf = represents_wf [OF ns]
  then obtain q rest where q: "ns = q # rest" "si_id q = ROOT" using wf_namespaceD(1,2) [OF wf] by (cases ns) auto
  then have b: "inode_by_id ns ROOT = Some q" by (simp add: inode_by_id_def)
  with inode_new_stored [OF wf b] q ns show ?thesis
    by (auto simp: at_path_def located_def inode_get_def ROOT_def)
qed

lemma lookup_at_path:
  assumes fe: "env_ok (fe_session fe)" and f: "faithful_session (fe_session fe) root (ad_session a)"
    and p: "at_path (fe_session fe) root p w (ad_session a)"
    and run: "fuse_lookup fe w (Some name) a = (ReplyEntry attr, a')"
  shows "at_path (fe_session fe) root (p @ [name]) (fa_ino attr) (ad_session a')"
proof -
  let ?env = "fe_session fe" let ?s = "ad_session a" and ?s' = "ad_session a'"
  obtain ns i q where q: "represents (connection (s_store ?s)) ns" "inode_new w = Ok i" "inode_by_id ns i = Some q" "located ?env root p q"
    using p by (auto simp: at_path_def)
  obtain node where l: "lookup_child ?env i name ?s = (Ok node, ?s')" and attr: "attr = file_attr_of (fe_owner fe) node"
    using run q(2) by (auto simp: fuse_lookup_def lookup_node_def lookup_dir_child_def reply_with_def result_simps
        split: prod.splits sum.splits)
  then have ld: "ensure_directory_loaded ?env i ?s = (Ok (), ?s')"
    by (auto simp: lookup_child_def split: prod.splits sum.splits)
  have inv: "session_inv ?env ?s" using f by (simp add: faithful_session_def)
  obtain ns' q' where q': "represents (connection (s_store ?s')) ns'" "inode_by_id ns' i = Some q'" "located ?env root p q'"
    "si_kind q' = Directory" "si_directory_loaded q' = Some True"
    using load_keeps_place [OF fe inv q(1) ld q(3,4)] by blast
  have "node \<in> set (visible_children ns' i)" "i_name node = name" using lookup_child_Ok [OF q'(1) l ld] by auto
  then obtain c where c: "c \<in> set (children_of ns' i)" "node = visible c" "si_name c = name"
    by (auto simp: visible_children_def)
  have "faithful_session ?env root ?s'" using faithful_ops(1) [OF fe f, of i name] l by simp
  then have faith: "faithful ?env root ns'" using q'(1) represents_unique by (auto simp: faithful_session_def)
  note wf = represents_wf [OF q'(1)]
  have q's: "q' \<in> set ns'" "si_id q' = i" using q'(2) by (auto simp: inode_by_id_def dest: find_SomeD)
  have loc: "located ?env root (p @ [name]) c"
    using located_child [OF faith wf q's(1) q'(3-5)] c q's(2) by auto
  have cs: "c \<in> set ns'" using c(1) by (auto simp: children_of_def)
  then have b: "inode_by_id ns' (si_id c) = Some c" by (rule inode_by_id_self [OF wf])
  with inode_new_stored [OF wf b] loc q'(1) c(2) attr show ?thesis
    by (auto simp: at_path_def file_attr_of_def Let_def)
qed

text \<open>The kernel resolves a path by looking up one name after the other, each at some moment of the remote world.\<close>

fun walk :: "(fuse_env \<times> string) list \<Rightarrow> u64 \<Rightarrow> fuse_adapter \<Rightarrow> (u64 \<times> fuse_adapter) option" where
  "walk [] w a = Some (w, a)"
| "walk ((fe, name) # steps) w a =
     (case fuse_lookup fe w (Some name) a of
        (ReplyEntry attr, a') \<Rightarrow> walk steps (fa_ino attr) a'
      | _ \<Rightarrow> None)"

lemma at_path_same_checks:
  assumes "same_checks env env'"
  shows "at_path env' root p w s = at_path env root p w s"
proof -
  have l: "loaded_from env' = loaded_from env" using assms by (intro ext) (simp add: loaded_from_def same_checks_def)
  have "snapshot_entry env' root p c" if "snapshot_entry env root p c" "loaded_from env' = loaded_from env" for env env' p c
    using that by (induction rule: snapshot_entry.induct) (auto intro: snapshot_entry.intros)
  from this [OF _ l] this [OF _ l [symmetric]] have "snapshot_entry env' root = snapshot_entry env root" by blast
  then show ?thesis by (simp add: at_path_def located_def)
qed

lemma walk_at_path:
  assumes "\<forall>(fe, name) \<in> set steps. env_ok (fe_session fe) \<and> same_checks env (fe_session fe)"
    and "faithful_session env root (ad_session a)" "at_path env root p w (ad_session a)" "walk steps w a = Some (w', a')"
  shows "faithful_session env root (ad_session a') \<and> at_path env root (p @ map snd steps) w' (ad_session a')"
  using assms
proof (induction steps w a arbitrary: p rule: walk.induct)
  case (2 fe name steps w a)
  obtain attr a1 where l: "fuse_lookup fe w (Some name) a = (ReplyEntry attr, a1)" and rest: "walk steps (fa_ino attr) a1 = Some (w', a')"
    using "2.prems"(4) by (auto split: prod.splits fuse_reply.splits)
  have fe: "env_ok (fe_session fe)" "same_checks env (fe_session fe)" using "2.prems"(1) by auto
  note iff = faithful_same_checks [OF fe(2)] at_path_same_checks [OF fe(2)]
  have "at_path env root (p @ [name]) (fa_ino attr) (ad_session a1)"
    using lookup_at_path [OF fe(1) _ _ l] "2.prems"(2,3) by (simp add: iff)
  moreover have "faithful_session env root (ad_session a1)"
    using faithful_handle [OF fe(1), of root a "Lookup w (Some name)"] "2.prems"(2) l by (simp add: iff)
  ultimately show ?case using "2.IH" [OF l [symmetric] refl _ _ _ rest, of "p @ [name]"] "2.prems"(1) by auto
qed simp

lemma read_at_path:
  assumes fe: "env_ok (fe_session fe)" "full_reads (se_fs (fe_session fe))"
    and f: "faithful_session (fe_session fe) root (ad_session a)" and p: "at_path (fe_session fe) root p w (ad_session a)"
    and run: "is_i64 off" "fuse_read fe w off sz a = (ReplyData bs, a')"
  shows "\<exists>c d content. snapshot_entry (fe_session fe) root p c \<and> nr_content c = RemoteFile d \<and>
    for_bytes (se_sha (fe_session fe)) content = d \<and>
    (length content < 2 ^ 64 \<longrightarrow> bs = take (unat sz) (drop (nat off) content))"
proof -
  let ?env = "fe_session fe" let ?s = "ad_session a" and ?s' = "ad_session a'"
  obtain ns i q where q: "represents (connection (s_store ?s)) ns" "inode_new w = Ok i" "inode_by_id ns i = Some q" "located ?env root p q"
    using p by (auto simp: at_path_def)
  obtain o64 where o64: "u64_try_from_i64 off = Some o64"
    and r: "session_read_range ?env i o64 (ucast sz) ?s = (Ok bs, ?s')"
    using run(2) q(2) by (auto simp: fuse_read_def read_bytes_def fs_read_def reply_with_def result_simps
        split: prod.splits sum.splits option.splits)
  have off: "unat o64 = nat off"
  proof -
    have "0 \<le> off" "o64 = word_of_int off" using o64 by (auto simp: conv_simps split: if_splits)
    then show ?thesis using run(1) by (simp add: is_i64_def unat_eq_nat_uint uint_word_of_int)
  qed
  have inv: "session_inv ?env ?s" and faith: "faithful ?env root ns"
    using f q(1) represents_unique by (auto simp: faithful_session_def)
  have q': "q \<in> set ns" "si_id q = i" using q(3) by (auto simp: inode_by_id_def dest: find_SomeD)
  have no: "si_file_overlay_path q = None" using faith q'(1) by (simp add: faithful_def)
  have k: "si_kind q = File" using session_read_range_effect [OF fe(1) inv q(1) r] q(3) by auto
  obtain content d where d: "si_file_remote_digest q = Some d" "for_bytes (se_sha ?env) content = d"
    "length content < 2 ^ 64 \<longrightarrow> bs = take (unat (ucast sz :: usize)) (drop (unat o64) content)"
    using session_read_slice [OF fe(1) inv fe(2) q(1,3) no r] by blast
  have "p \<noteq> []" using located_not_root [OF faith represents_wf [OF q(1)] q'(1) q(4)] k by auto
  then have "snapshot_entry ?env root p (remote_of q)" "nr_content (remote_of q) = RemoteFile d"
    using q(4) d(1) k by (simp_all add: located_def remote_of_def)
  moreover have "unat sz < 2 ^ 64"
    by (rule less_trans [of _ "2 ^ 32"]) (use unsigned_less [of sz] in simp_all)
  then have "unat (ucast sz :: usize) = unat sz" by (simp add: unsigned_ucast_eq take_bit_nat_eq_self)
  ultimately show ?thesis using d off by auto
qed

lemma readlink_at_path:
  assumes fe: "env_ok (fe_session fe)" and f: "faithful_session (fe_session fe) root (ad_session a)"
    and p: "at_path (fe_session fe) root p w (ad_session a)" and run: "fuse_readlink fe w a = (ReplyData bs, a')"
  shows "\<exists>c target. snapshot_entry (fe_session fe) root p c \<and> nr_content c = RemoteSymlink target \<and> bs = as_bytes target"
proof -
  let ?env = "fe_session fe" let ?s = "ad_session a"
  obtain ns i q where q: "represents (connection (s_store ?s)) ns" "inode_new w = Ok i" "inode_by_id ns i = Some q" "located ?env root p q"
    using p by (auto simp: at_path_def)
  obtain node target where t: "get_inode ?env ?s i = Ok node" "i_kind node = Symlink" "i_symlink_target node = Some target" "bs = as_bytes target"
    using run q(2) by (auto simp: fuse_readlink_def fs_readlink_def fs_getattr_def reply_with_def result_simps
        split: sum.splits if_splits option.splits)
  have q': "q \<in> set ns" "si_id q = i" using q(3) by (auto simp: inode_by_id_def dest: find_SomeD)
  have "adapter_node fe w ?s = Ok node" using t(1) q(2) by (simp add: adapter_node_def fs_getattr_def result_simps)
  from adapter_node_Ok [OF this q(1)] q(2,3) have "node = visible q" by auto
  with t have k: "si_kind q = Symlink" "si_symlink_target q = Some target" by (simp_all add: visible_def)
  have faith: "faithful ?env root ns" using f q(1) represents_unique by (auto simp: faithful_session_def)
  have "p \<noteq> []" using located_not_root [OF faith represents_wf [OF q(1)] q'(1) q(4)] k(1) by auto
  then have "snapshot_entry ?env root p (remote_of q)" "nr_content (remote_of q) = RemoteSymlink target"
    using q(4) k by (simp_all add: located_def remote_of_def)
  with t(4) show ?thesis by blast
qed

definition remote_kind :: "new_remote_inode \<Rightarrow> node_kind" where
  "remote_kind c = (case nr_content c of RemoteFile _ \<Rightarrow> File | RemoteDirectory _ \<Rightarrow> Directory | RemoteSymlink _ \<Rightarrow> Symlink)"

lemma remote_kind_of [simp]: "remote_kind (remote_of q) = si_kind q"
  by (cases "si_kind q") (simp_all add: remote_kind_def remote_of_def)

lemma numbered_entries: "map (snd \<circ> snd) (numbered 0 L) = map snd L"
proof -
  have "map (snd \<circ> snd) (enumerate k L) = map snd L" for k by (induction L arbitrary: k) auto
  then show ?thesis by (simp add: numbered_def comp_def case_prod_unfold)
qed

lemma fill_unbounded: "fill_reply (\<lambda>_ _. True) buffer es = buffer @ es"
  by (induction es arbitrary: buffer) simp_all

lemma readdir_at_path:
  assumes fe: "env_ok (fe_session fe)" and f: "faithful_session (fe_session fe) root (ad_session a)"
    and p: "at_path (fe_session fe) root p w (ad_session a)" and run: "fuse_readdir fe (\<lambda>_ _. True) w 0 a = (ReplyDirectory es, a')"
  shows "\<exists>d cs. snapshot_directory (fe_session fe) root p d \<and> loaded_from (fe_session fe) d cs \<and>
    map (snd \<circ> snd) es =
      [(DirectoryType, ''.''), (DirectoryType, ''..'')] @
      map (\<lambda>c. (file_type_of (remote_kind c), nr_name c)) (sort_key nr_name cs)"
proof -
  let ?env = "fe_session fe" let ?s = "ad_session a" and ?s' = "ad_session a'"
  obtain ns0 i q0 where q0: "represents (connection (s_store ?s)) ns0" "inode_new w = Ok i" "inode_by_id ns0 i = Some q0" "located ?env root p q0"
    using p by (auto simp: at_path_def)
  have inv: "session_inv ?env ?s" using f by (simp add: faithful_session_def)
  have d: "directory_entries fe w 0 ?s = (Ok es, ?s')" using fuse_readdir_page [OF run] by (auto simp: fill_unbounded)
  then obtain node children where l: "adapter_node fe w ?s = Ok node" "list_directory ?env (i_inode node) ?s = (Ok children, ?s')"
    by (auto simp: directory_entries_def fs_readdir_def result_simps split: if_splits sum.splits prod.splits)
  from adapter_node_Ok [OF l(1) q0(1)] q0(2,3) have "i_inode node = i" by (auto simp: inode_by_id_def dest: find_SomeD)
  with l(2) have l': "list_directory ?env i ?s = (Ok children, ?s')" by simp
  then have "ensure_directory_loaded ?env i ?s = (Ok (), ?s')" using list_directory_Ok by blast
  from load_keeps_place [OF fe inv q0(1) this q0(3,4)] obtain ns q where q: "represents (connection (s_store ?s')) ns"
    "inode_by_id ns i = Some q" "located ?env root p q" "si_kind q = Directory" "si_directory_loaded q = Some True" by blast
  have es: "es = numbered 0 (all_entries w (visible q) (visible_children ns i))"
    using directory_entries_first [OF fe inv d] q(1,2) q0(2) represents_unique by fastforce
  have "faithful_session ?env root ?s'" using faithful_ops(2) [OF fe f, of i] l' by simp
  then have faith: "faithful ?env root ns" using q(1) represents_unique by (auto simp: faithful_session_def)
  have q': "q \<in> set ns" "si_id q = i" using q(2) by (auto simp: inode_by_id_def dest: find_SomeD)
  obtain d cs where cs: "snapshot_directory ?env root p d" "loaded_from ?env d cs" "map remote_of (children_of ns i) = sort_key nr_name cs"
    using located_directory [OF faith represents_wf [OF q(1)] q'(1) q(3-5)] q'(2) by auto
  have "visible_children ns i = map visible (children_of ns i)"
    using faith by (simp add: visible_children_def faithful_def children_of_def filter_True)
  then have "map (snd \<circ> snd) es = [(DirectoryType, ''.''), (DirectoryType, ''..'')] @
      map (\<lambda>c. (file_type_of (remote_kind (remote_of c)), nr_name (remote_of c))) (children_of ns i)"
    unfolding es numbered_entries by (simp add: all_entries_def visible_def comp_def)
  also have "\<dots> = [(DirectoryType, ''.''), (DirectoryType, ''..'')] @
      map (\<lambda>c. (file_type_of (remote_kind c), nr_name c)) (sort_key nr_name cs)"
    by (simp flip: cs(3) add: comp_def)
  finally show ?thesis using cs by blast
qed

end
