(* ===== verification/Upload.thy ===== *)
theory Upload
  imports Cas "HOL-Library.Product_Lexorder"
begin

text \<open>
  The upload of a local directory (\<^verbatim>\<open>upload.rs\<close>): options, the metadata scan, hashing, the bottom-up encoding
  as canonical REAPI directories, and the upload of the missing objects to a blob store.

  The file system below the upload root is a finite tree of nodes with the answers of \<^verbatim>\<open>symlink_metadata\<close>,
  \<^verbatim>\<open>read_dir\<close> and \<^verbatim>\<open>read_link\<close>; each call may fail, and the tree does not change while it is scanned. File contents are read later, in pieces, so they are
  a separate parameter. A \<^verbatim>\<open>HashMap\<close> gives its keys back in an arbitrary order, a parameter as well.
\<close>

section \<open>Options, summaries and errors\<close>

definition DEFAULT_IN_FLIGHT_BYTES :: usize where "DEFAULT_IN_FLIGHT_BYTES = 67108864"
definition MAX_DEFAULT_HASH_WORKERS :: usize where "MAX_DEFAULT_HASH_WORKERS = 8"
definition MIN_DEFAULT_HASH_WORKERS :: usize where "MIN_DEFAULT_HASH_WORKERS = 2"
definition HASH_CHUNK_BYTES :: usize where "HASH_CHUNK_BYTES = 1048576"

record upload_options =
  opt_hash_workers :: usize
  opt_in_flight_bytes :: usize
  opt_fail_on_unsupported_nodes :: bool

definition default_hash_workers_for :: "usize \<Rightarrow> usize" where
  "default_hash_workers_for available =
     (if available < MIN_DEFAULT_HASH_WORKERS then MIN_DEFAULT_HASH_WORKERS
      else if available > MAX_DEFAULT_HASH_WORKERS then MAX_DEFAULT_HASH_WORKERS else available)"

text \<open>\<open>parallelism\<close> is \<^verbatim>\<open>available_parallelism\<close>, \<open>None\<close> when it is not known.\<close>

definition default_hash_workers :: "usize option \<Rightarrow> usize" where
  "default_hash_workers parallelism = default_hash_workers_for (case parallelism of None \<Rightarrow> 1 | Some n \<Rightarrow> n)"

definition default_upload_options :: "usize option \<Rightarrow> upload_options" where
  "default_upload_options parallelism =
     \<lparr>opt_hash_workers = default_hash_workers parallelism, opt_in_flight_bytes = DEFAULT_IN_FLIGHT_BYTES,
      opt_fail_on_unsupported_nodes = True\<rparr>"

record upload_warnings =
  uw_hard_links :: nat
  uw_masked_setuid :: nat
  uw_masked_setgid :: nat
  uw_absolute_symlinks :: nat
  uw_escaping_symlinks :: nat

definition merge_tree :: "upload_warnings \<Rightarrow> tree_warnings \<Rightarrow> upload_warnings" where
  "merge_tree u w =
     u\<lparr>uw_masked_setuid := uw_masked_setuid u + masked_setuid w, uw_masked_setgid := uw_masked_setgid u + masked_setgid w,
       uw_absolute_symlinks := uw_absolute_symlinks u + absolute_symlinks w,
       uw_escaping_symlinks := uw_escaping_symlinks u + escaping_symlinks w\<rparr>"

record upload_summary =
  us_root_digest :: digest
  us_files :: nat
  us_directories :: nat
  us_symlinks :: nat
  us_uploaded_blobs :: usize
  us_reused_blobs :: nat
  us_bytes_uploaded :: u64
  us_warnings :: upload_warnings

datatype upload_error =
    UploadTree tree_error
  | UploadCas cas_error
  | UploadFilesystem string io_error
  | InvalidOption string string
  | UnexpectedMissingDigest digest
  | UploadContext string upload_error

abbreviation upload_context :: "string \<Rightarrow> ('a, upload_error) result \<Rightarrow> ('a, upload_error) result" where
  "upload_context \<equiv> result_context UploadContext"

fun upload_root_cause :: "upload_error \<Rightarrow> upload_error" where
  "upload_root_cause (UploadContext op e) = upload_root_cause e"
| "upload_root_cause e = e"

interpretation upload_ctx: result_context_error UploadContext upload_root_cause
  by unfold_locales simp

definition validate_options :: "upload_options \<Rightarrow> (unit, upload_error) result" where
  "validate_options opts =
     (if opt_hash_workers opts = 0 then Err (InvalidOption ''hash_workers'' ''must be at least 1'')
      else if opt_in_flight_bytes opts = 0 then Err (InvalidOption ''in_flight_bytes'' ''must be at least 1'')
      else if opt_in_flight_bytes opts < opt_hash_workers opts
      then Err (InvalidOption ''in_flight_bytes'' ''must be at least hash_workers so every worker has a read buffer'')
      else Ok ())"

definition hash_chunk_bytes :: "upload_options \<Rightarrow> usize" where
  "hash_chunk_bytes opts = min HASH_CHUNK_BYTES (max (opt_in_flight_bytes opts div opt_hash_workers opts) 1)"

section \<open>The local tree\<close>

record fs_metadata =
  um_mode :: u32
  um_mtime :: int
  um_mtime_nsec :: int
  um_dev :: u64
  um_ino :: u64
  um_len :: u64

datatype special_node = BlockDevice | CharDevice | Fifo | Socket | UnknownNode

datatype host_node =
    HostFile fs_metadata
  | HostDirectory fs_metadata "(string \<times> host_node) list"
  | HostSymlink fs_metadata string
  | HostSpecial fs_metadata special_node

text \<open>
  \<open>uh_fault operation path\<close> is the failure of a system call, \<open>uh_utf8\<close> whether an OS string is UTF-8, and
  \<open>uh_open path\<close> the outcome of opening a file for hashing with the results of the reads that follow
  (interrupted ones included, as errors); the reads after the list return no bytes.
\<close>

record upload_host =
  uh_fault :: "string \<Rightarrow> string \<Rightarrow> io_error option"
  uh_utf8 :: "string \<Rightarrow> bool"
  uh_open :: "string \<Rightarrow> ((bytes, io_error) result list, io_error) result"

record local_file =
  lf_name :: string
  lf_relative_path :: string
  lf_absolute_path :: string
  lf_metadata :: fs_metadata

record local_sub_directory =
  lsd_name :: string
  lsd_relative_path :: string
  lsd_metadata :: fs_metadata

record local_symlink =
  lsl_name :: string
  lsl_target :: string
  lsl_metadata :: fs_metadata

datatype local_directory_child =
    ChildFile local_file
  | ChildDirectory local_sub_directory
  | ChildSymlink local_symlink

record local_directory =
  ld_relative_path :: string
  ld_absolute_path :: string
  ld_metadata :: fs_metadata
  ld_entries :: "local_directory_child list"

record local_tree =
  lt_root :: string
  lt_directories :: "local_directory list"
  lt_files :: "local_file list"
  lt_symlinks :: nat
  lt_warnings :: upload_warnings

record scan_state =
  sc_directories :: "local_directory list"
  sc_files :: "local_file list"
  sc_symlinks :: nat
  sc_warnings :: upload_warnings
  sc_hard_links :: "(u64 \<times> u64) set"

definition no_upload_warnings :: upload_warnings where
  "no_upload_warnings = \<lparr>uw_hard_links = 0, uw_masked_setuid = 0, uw_masked_setgid = 0, uw_absolute_symlinks = 0,
     uw_escaping_symlinks = 0\<rparr>"

definition scan_state_default :: scan_state where
  "scan_state_default = \<lparr>sc_directories = [], sc_files = [], sc_symlinks = 0, sc_warnings = no_upload_warnings, sc_hard_links = {}\<rparr>"

section \<open>Scanning\<close>

text \<open>\<^verbatim>\<open>Path::file_name\<close> and the number of components, for paths without trailing separators and dots.\<close>

definition path_file_name :: "string \<Rightarrow> string option" where
  "path_file_name p =
     (let name = rev (takeWhile (\<lambda>c. c \<noteq> CHR ''/'') (rev p)) in if name \<in> {[], ''.'', ''..''} then None else Some name)"

definition path_depth :: "string \<Rightarrow> nat" where
  "path_depth p = length (filter (\<lambda>c. c \<noteq> []) (split_on CHR ''/'' p))"

definition component_name :: "upload_host \<Rightarrow> string \<Rightarrow> (string, tree_error) result" where
  "component_name h path =
     ok_or (case path_file_name path of Some name \<Rightarrow> if uh_utf8 h name then Some name else None | None \<Rightarrow> None)
       (NonUtf8Name path)"

fun node_type_name :: "special_node \<Rightarrow> string" where
  "node_type_name BlockDevice = ''block device''"
| "node_type_name CharDevice = ''character device''"
| "node_type_name Fifo = ''fifo''"
| "node_type_name Socket = ''socket''"
| "node_type_name UnknownNode = ''unknown''"

definition record_file :: "local_file \<Rightarrow> scan_state \<Rightarrow> scan_state" where
  "record_file file st =
     (let link = (um_dev (lf_metadata file), um_ino (lf_metadata file));
          seen = link \<in> sc_hard_links st;
          warnings = sc_warnings st
      in st\<lparr>sc_hard_links := insert link (sc_hard_links st),
            sc_warnings := (if seen then warnings\<lparr>uw_hard_links := uw_hard_links warnings + 1\<rparr> else warnings),
            sc_files := sc_files st @ [file]\<rparr>)"

definition entries_size :: "(string \<times> host_node) list \<Rightarrow> nat" where
  "entries_size es = size_list (size_prod (\<lambda>_. 0) size) es"

lemma entries_size_sort: "entries_size (sort_key fst entries) = entries_size entries"
  unfolding entries_size_def size_list_conv_sum_list
  by (simp add: sum_mset_sum_list [symmetric] mset_map [symmetric] del: mset_map) (simp add: mset_map)

function (sequential) scan_directory ::
  "upload_host \<Rightarrow> upload_options \<Rightarrow> string \<Rightarrow> string \<Rightarrow> fs_metadata \<Rightarrow> (string \<times> host_node) list \<Rightarrow> scan_state \<Rightarrow>
     (local_directory \<times> scan_state, upload_error) result"
and scan_entries ::
  "upload_host \<Rightarrow> upload_options \<Rightarrow> string \<Rightarrow> string \<Rightarrow> (string \<times> host_node) list \<Rightarrow> local_directory_child list \<Rightarrow> scan_state \<Rightarrow>
     (local_directory_child list \<times> scan_state, upload_error) result" where
  "scan_directory h opts path rel md entries st =
     (case uh_fault h ''read directory metadata'' path of
        Some e \<Rightarrow> Err (UploadFilesystem path e)
      | None \<Rightarrow>
          (case uh_fault h ''read directory'' path of
             Some e \<Rightarrow> Err (UploadFilesystem path e)
           | None \<Rightarrow>
               (case uh_fault h ''read directory entry'' path of
                  Some e \<Rightarrow> Err (UploadFilesystem path e)
                | None \<Rightarrow>
                    (case scan_entries h opts path rel (sort_key fst entries) [] st of
                       Inl e \<Rightarrow> Err e
                     | Inr (local_entries, st') \<Rightarrow>
                         Ok (\<lparr>ld_relative_path = rel, ld_absolute_path = path, ld_metadata = md, ld_entries = local_entries\<rparr>, st')))))"
| "scan_entries h opts path rel [] acc st = Ok (acc, st)"
| "scan_entries h opts path rel ((os_name, node) # entries) acc st =
     (let child_path = path_join path os_name in
      case component_name h child_path of
        Inl e \<Rightarrow> Err (UploadTree e)
      | Inr name \<Rightarrow>
          (let child_rel = path_join rel name in
           case uh_fault h ''read child metadata'' child_path of
             Some e \<Rightarrow> Err (UploadFilesystem child_path e)
           | None \<Rightarrow>
               (case node of
                  HostFile md \<Rightarrow>
                    (let file = \<lparr>lf_name = name, lf_relative_path = child_rel, lf_absolute_path = child_path, lf_metadata = md\<rparr> in
                     scan_entries h opts path rel entries (acc @ [ChildFile file]) (record_file file st))
                | HostDirectory md children \<Rightarrow>
                    (case upload_context ''scan child directory'' (scan_directory h opts child_path child_rel md children st) of
                       Inl e \<Rightarrow> Err e
                     | Inr (directory, st') \<Rightarrow>
                         scan_entries h opts path rel entries
                           (acc @ [ChildDirectory \<lparr>lsd_name = name, lsd_relative_path = child_rel, lsd_metadata = md\<rparr>])
                           (st'\<lparr>sc_directories := sc_directories st' @ [directory]\<rparr>))
                | HostSymlink md target \<Rightarrow>
                    (case uh_fault h ''read link'' child_path of
                       Some e \<Rightarrow> Err (UploadFilesystem child_path e)
                     | None \<Rightarrow>
                         if \<not> uh_utf8 h target then Err (UploadTree (NonUtf8SymlinkTarget child_path))
                         else scan_entries h opts path rel entries
                           (acc @ [ChildSymlink \<lparr>lsl_name = name, lsl_target = target, lsl_metadata = md\<rparr>])
                           (st\<lparr>sc_symlinks := sc_symlinks st + 1\<rparr>))
                | HostSpecial md kind \<Rightarrow>
                    if opt_fail_on_unsupported_nodes opts
                    then Err (UploadTree (UnsupportedNodeType child_path (node_type_name kind)))
                    else scan_entries h opts path rel entries acc st)))"
  by pat_completeness auto

termination
  by (relation "measure (case_sum (\<lambda>(h, opts, path, rel, md, entries, st). Suc (entries_size entries))
      (\<lambda>(h, opts, path, rel, entries, acc, st). entries_size entries))")
    (auto simp: entries_size_sort, auto simp: entries_size_def)

text \<open>Deepest directories first, then by path.\<close>

definition directory_order :: "local_directory \<Rightarrow> int \<times> string" where
  "directory_order d = (- int (path_depth (ld_relative_path d)), ld_relative_path d)"

definition scan_local_directory_with_options ::
  "upload_host \<Rightarrow> string \<Rightarrow> host_node option \<Rightarrow> upload_options \<Rightarrow> (local_tree, upload_error) result" where
  "scan_local_directory_with_options h root node opts =
     and_then (validate_options opts) (\<lambda>_.
     case uh_fault h ''read root metadata'' root of
       Some e \<Rightarrow> Err (UploadFilesystem root e)
     | None \<Rightarrow>
         (case node of
            None \<Rightarrow> Err (UploadFilesystem root IoNotFound)
          | Some (HostDirectory md entries) \<Rightarrow>
              and_then (scan_directory h opts root [] md entries scan_state_default) (\<lambda>(root_directory, st).
                Ok \<lparr>lt_root = root, lt_directories = sort_key directory_order (sc_directories st @ [root_directory]),
                    lt_files = sc_files st, lt_symlinks = sc_symlinks st, lt_warnings = sc_warnings st\<rparr>)
          | Some _ \<Rightarrow> Err (InvalidOption ''root'' ''is not a directory'')))"

section \<open>Hashing\<close>

record file_digest =
  fd_relative_path :: string
  fd_absolute_path :: string
  fd_digest :: digest
  fd_size_bytes :: u64

text \<open>The read loop, with the bytes given to the hasher and their size_read.\<close>

fun hash_loop :: "(bytes, io_error) result list \<Rightarrow> bytes \<Rightarrow> u64 \<Rightarrow> (bytes \<times> u64, io_error) result" where
  "hash_loop [] hashed size_read = Ok (hashed, size_read)"
| "hash_loop (Inl e # reads) hashed size_read = Err e"
| "hash_loop (Inr bs # reads) hashed size_read =
     (if bs = [] then Ok (hashed, size_read) else hash_loop reads (hashed @ bs) (size_read + of_nat (length bs)))"

definition hash_file :: "(bytes \<Rightarrow> string) \<Rightarrow> upload_host \<Rightarrow> local_file \<Rightarrow> (file_digest, upload_error) result" where
  "hash_file sha h file =
     (let path = lf_absolute_path file in
      and_then (map_err (UploadFilesystem path) (uh_open h path)) (\<lambda>reads.
      and_then (map_err (UploadFilesystem path) (hash_loop reads [] 0)) (\<lambda>(hashed, size_read).
        if size_read \<noteq> um_len (lf_metadata file) then Err (InvalidOption ''file_size'' ''changed size during upload'')
        else and_then (map_err (\<lambda>_. InvalidOption ''digest'' ''invalid digest'') (digest_new (sha hashed) (sint size_read))) (\<lambda>digest.
          Ok \<lparr>fd_relative_path = lf_relative_path file, fd_absolute_path = path, fd_digest = digest, fd_size_bytes = size_read\<rparr>))))"

text \<open>
  The workers run side by side but share nothing, and their results are awaited in order. \<open>completes file\<close>
  says whether the worker's task could be joined. The semaphore is never closed, so acquiring a permit does not fail.
\<close>

definition hash_files ::
  "(bytes \<Rightarrow> string) \<Rightarrow> upload_host \<Rightarrow> (local_file \<Rightarrow> bool) \<Rightarrow> local_file list \<Rightarrow> upload_options \<Rightarrow>
     (file_digest list, upload_error) result" where
  "hash_files sha h completes files opts =
     and_then (validate_options opts) (\<lambda>_.
     and_then (collect (\<lambda>file.
         if \<not> completes file then Err (InvalidOption ''hash_workers'' ''hash worker did not complete'')
         else upload_context ''hash file in blocking worker'' (hash_file sha h file)) files) (\<lambda>digests.
       Ok (sort_key fd_relative_path digests)))"

section \<open>Encoding\<close>

text \<open>The casts of \<^verbatim>\<open>mtime_nsec\<close> to \<^verbatim>\<open>i32\<close>.\<close>

definition as_i32 :: "int \<Rightarrow> int" where
  "as_i32 x = sint (word_of_int x :: u32)"

definition metadata_for :: "node_kind \<Rightarrow> fs_metadata \<Rightarrow> node_metadata" where
  "metadata_for kind md =
     \<lparr>nm_mode = Some (um_mode md AND 0xFFF), nm_mtime = Some \<lparr>ts_seconds = um_mtime md, ts_nanos = as_i32 (um_mtime_nsec md)\<rparr>,
      nm_kind = kind\<rparr>"

definition add_child ::
  "(string \<rightharpoonup> digest) \<Rightarrow> (string \<rightharpoonup> digest) \<Rightarrow> local_directory_child \<Rightarrow> directory_builder \<Rightarrow> (directory_builder, upload_error) result" where
  "add_child file_digests directory_digests child builder =
     (case child of
        ChildFile file \<Rightarrow>
          and_then (ok_or (file_digests (lf_relative_path file)) (InvalidOption ''file_digests'' ''missing digest'')) (\<lambda>digest.
            map_err UploadTree (add_file builder
              \<lparr>fe_name = lf_name file, fe_digest = digest, fe_metadata = metadata_for File (lf_metadata file)\<rparr>))
      | ChildDirectory directory \<Rightarrow>
          and_then (ok_or (directory_digests (lsd_relative_path directory))
              (InvalidOption ''directory_digests'' ''missing digest for directory'')) (\<lambda>digest.
            map_err UploadTree (add_directory builder
              \<lparr>de_name = lsd_name directory, de_digest = digest, de_metadata = metadata_for Directory (lsd_metadata directory)\<rparr>))
      | ChildSymlink symlink \<Rightarrow>
          map_err UploadTree (add_symlink builder
            \<lparr>se_name = lsl_name symlink, se_target = lsl_target symlink, se_metadata = metadata_for Symlink (lsl_metadata symlink)\<rparr>))"

fun add_children ::
  "(string \<rightharpoonup> digest) \<Rightarrow> (string \<rightharpoonup> digest) \<Rightarrow> local_directory_child list \<Rightarrow> directory_builder \<Rightarrow> (directory_builder, upload_error) result" where
  "add_children file_digests directory_digests [] builder = Ok builder"
| "add_children file_digests directory_digests (child # children) builder =
     and_then (add_child file_digests directory_digests child builder) (add_children file_digests directory_digests children)"

definition encode_directory ::
  "(bytes \<Rightarrow> string) \<Rightarrow> (directory \<Rightarrow> bytes) \<Rightarrow> local_directory \<Rightarrow> (string \<rightharpoonup> digest) \<Rightarrow> (string \<rightharpoonup> digest) \<Rightarrow>
     (encoded_directory, upload_error) result" where
  "encode_directory sha enc local_dir file_digests directory_digests =
     and_then (add_children file_digests directory_digests (ld_entries local_dir)
         (builder_with_metadata (metadata_for Directory (ld_metadata local_dir)))) (\<lambda>builder.
       map_err UploadTree (builder_encode sha enc builder))"

record encoded_directory_tree =
  et_root_digest :: digest
  et_directories :: "encoded_directory list"
  et_file_blobs :: "(digest \<times> string) list"
  et_warnings :: tree_warnings

text \<open>The loop over the directories, with the digests found so far.\<close>

fun encode_directories ::
  "(bytes \<Rightarrow> string) \<Rightarrow> (directory \<Rightarrow> bytes) \<Rightarrow> (string \<rightharpoonup> digest) \<Rightarrow> local_directory list \<Rightarrow> (string \<rightharpoonup> digest) \<Rightarrow>
     encoded_directory list \<Rightarrow> tree_warnings \<Rightarrow>
     ((string \<rightharpoonup> digest) \<times> encoded_directory list \<times> tree_warnings, upload_error) result" where
  "encode_directories sha enc file_digests [] directory_digests directories warnings = Ok (directory_digests, directories, warnings)"
| "encode_directories sha enc file_digests (local_dir # rest) directory_digests directories warnings =
     and_then (upload_context ''encode local directory'' (encode_directory sha enc local_dir file_digests directory_digests)) (\<lambda>encoded.
       encode_directories sha enc file_digests rest (directory_digests(ld_relative_path local_dir \<mapsto> ed_digest encoded))
         (directories @ [encoded]) (warnings_merge warnings (ed_warnings encoded)))"

definition digest_by_path :: "file_digest list \<Rightarrow> string \<rightharpoonup> digest" where
  "digest_by_path file_digests = map_of (rev (map (\<lambda>file. (fd_relative_path file, fd_digest file)) file_digests))"

definition encode_local_tree ::
  "(bytes \<Rightarrow> string) \<Rightarrow> (directory \<Rightarrow> bytes) \<Rightarrow> local_tree \<Rightarrow> file_digest list \<Rightarrow> (encoded_directory_tree, upload_error) result" where
  "encode_local_tree sha enc tree file_digests =
     and_then (encode_directories sha enc (digest_by_path file_digests) (lt_directories tree) Map.empty [] no_warnings)
       (\<lambda>(directory_digests, directories, warnings).
     and_then (ok_or (directory_digests []) (InvalidOption ''root'' ''scanned tree did not include a root directory'')) (\<lambda>root_digest.
       Ok \<lparr>et_root_digest = root_digest, et_directories = directories,
           et_file_blobs = map (\<lambda>file. (fd_digest file, fd_absolute_path file)) file_digests, et_warnings = warnings\<rparr>))"

section \<open>Uploading\<close>

text \<open>What the upload uses of the \<^verbatim>\<open>BlobStore\<close> trait: its two operations over the state of the store.\<close>

record 's blob_store_ops =
  st_find_missing_blobs :: "digest list \<Rightarrow> 's \<Rightarrow> (digest list, cas_error) result \<times> 's"
  st_upload_blobs :: "blob list \<Rightarrow> 's \<Rightarrow> (upload_stats, cas_error) result \<times> 's"

definition cas_blob_store :: "'s cas_client \<Rightarrow> 's world blob_store_ops" where
  "cas_blob_store c = \<lparr>st_find_missing_blobs = find_missing_blobs c, st_upload_blobs = upload_blobs c\<rparr>"

record upload_object_stats =
  uo_uploaded_blobs :: usize
  uo_reused_blobs :: nat
  uo_bytes_uploaded :: u64

definition or_insert :: "'k \<Rightarrow> 'v \<Rightarrow> ('k \<times> 'v) list \<Rightarrow> ('k \<times> 'v) list" where
  "or_insert k v m = (if k \<in> set (map fst m) then m else m @ [(k, v)])"

definition sources_by_digest :: "(bytes \<Rightarrow> string) \<Rightarrow> encoded_directory_tree \<Rightarrow> (digest \<times> blob) list" where
  "sources_by_digest sha tree =
     fold (\<lambda>directory. or_insert (ed_digest directory) (blob_from_bytes sha (ed_bytes directory))) (et_directories tree)
       (fold (\<lambda>(digest, path). or_insert digest (blob_from_file_path digest path)) (et_file_blobs tree) [])"

text \<open>\<open>order\<close> is the iteration order of the \<^verbatim>\<open>HashMap\<close>.\<close>

definition upload_encoded_tree ::
  "(bytes \<Rightarrow> string) \<Rightarrow> (digest list \<Rightarrow> digest list) \<Rightarrow> 's blob_store_ops \<Rightarrow> encoded_directory_tree \<Rightarrow> 's \<Rightarrow>
     (upload_object_stats, upload_error) result \<times> 's" where
  "upload_encoded_tree sha order store tree s =
     (let sources = sources_by_digest sha tree; digests = order (map fst sources) in
      case st_find_missing_blobs store digests s of
        (found, s1) \<Rightarrow>
          (case upload_context ''check unique CAS digests for upload'' (map_err UploadCas found) of
             Inl e \<Rightarrow> (Err e, s1)
           | Inr missing \<Rightarrow>
               (case collect (\<lambda>digest. ok_or (map_of sources digest) (UnexpectedMissingDigest digest)) missing of
                  Inl e \<Rightarrow> (Err e, s1)
                | Inr missing_sources \<Rightarrow>
                    (case st_upload_blobs store missing_sources s1 of
                       (stats, s2) \<Rightarrow>
                         (and_then (upload_context ''upload missing CAS objects'' (map_err UploadCas stats)) (\<lambda>stats.
                            Ok \<lparr>uo_uploaded_blobs = uploaded_blobs stats, uo_reused_blobs = length digests - length missing,
                                uo_bytes_uploaded = bytes_uploaded stats\<rparr>), s2)))))"

definition upload_local_directory ::
  "(bytes \<Rightarrow> string) \<Rightarrow> (directory \<Rightarrow> bytes) \<Rightarrow> upload_host \<Rightarrow> (local_file \<Rightarrow> bool) \<Rightarrow> (digest list \<Rightarrow> digest list) \<Rightarrow>
     's blob_store_ops \<Rightarrow> string \<Rightarrow> host_node option \<Rightarrow> upload_options \<Rightarrow> 's \<Rightarrow> (upload_summary, upload_error) result \<times> 's" where
  "upload_local_directory sha enc h completes order store root node opts s =
     (case and_then (validate_options opts) (\<lambda>_.
           and_then (upload_context ''scan local upload root'' (scan_local_directory_with_options h root node opts)) (\<lambda>tree.
           and_then (upload_context ''hash files'' (hash_files sha h completes (lt_files tree) opts)) (\<lambda>file_digests.
           and_then (upload_context ''encode scanned local tree as canonical REAPI directories''
               (encode_local_tree sha enc tree file_digests)) (\<lambda>encoded. Ok (tree, encoded))))) of
        Inl e \<Rightarrow> (Err e, s)
      | Inr (tree, encoded) \<Rightarrow>
          (case upload_encoded_tree sha order store encoded s of
             (r, s') \<Rightarrow>
               (and_then (upload_context ''upload missing file and directory blobs to CAS'' r) (\<lambda>upload.
                  Ok \<lparr>us_root_digest = et_root_digest encoded, us_files = length (lt_files tree),
                      us_directories = length (lt_directories tree), us_symlinks = lt_symlinks tree,
                      us_uploaded_blobs = uo_uploaded_blobs upload, us_reused_blobs = uo_reused_blobs upload,
                      us_bytes_uploaded = uo_bytes_uploaded upload, us_warnings = merge_tree (lt_warnings tree) (et_warnings encoded)\<rparr>), s')))"

section \<open>What hashing reads\<close>

text \<open>The content a sequence of reads delivers: up to the first empty one, \<open>None\<close> if a read fails before.\<close>

fun reads_content :: "(bytes, io_error) result list \<Rightarrow> bytes option" where
  "reads_content [] = Some []"
| "reads_content (Inl e # reads) = None"
| "reads_content (Inr bs # reads) = (if bs = [] then Some [] else map_option (\<lambda>rest. bs @ rest) (reads_content reads))"

lemma hash_loop_Ok:
  "hash_loop reads hashed n = Ok x \<longleftrightarrow>
     (\<exists>content. reads_content reads = Some content \<and> x = (hashed @ content, n + of_nat (length content)))"
  by (induction reads hashed n rule: hash_loop.induct) (auto simp: algebra_simps)

lemma as_i64_sint: "sint (of_nat n :: u64) = as_i64 n"
proof -
  have "sint (of_nat n :: u64) = signed_take_bit 63 (int n)"
    using sint_sbintrunc' [where ?'a = 64, of "int n"] by simp
  then show ?thesis by (simp add: as_i64_def signed_take_bit_eq_take_bit_shift take_bit_eq_mod)
qed

definition read_content :: "upload_host \<Rightarrow> string \<Rightarrow> bytes option" where
  "read_content h path = (case uh_open h path of Inl e \<Rightarrow> None | Inr reads \<Rightarrow> reads_content reads)"

lemma hash_file_Ok:
  assumes "hash_file sha h file = Ok fd"
  shows "fd_relative_path fd = lf_relative_path file \<and> fd_absolute_path fd = lf_absolute_path file \<and> valid_digest (fd_digest fd) \<and>
    (\<exists>content. read_content h (lf_absolute_path file) = Some content \<and> fd_digest fd = for_bytes sha content \<and>
       um_len (lf_metadata file) = of_nat (length content))"
proof -
  obtain reads content where r: "uh_open h (lf_absolute_path file) = Ok reads" "reads_content reads = Some content"
    "of_nat (length content) = um_len (lf_metadata file)"
    and d: "digest_new (sha content) (sint (of_nat (length content) :: u64)) = Ok (fd_digest fd)"
    and fd: "fd_relative_path fd = lf_relative_path file" "fd_absolute_path fd = lf_absolute_path file"
    using assms by (auto simp: hash_file_def Let_def result_simps hash_loop_Ok split: if_splits)
  have "fd_digest fd = for_bytes sha content" "valid_digest (fd_digest fd)"
    using d by (auto simp: digest_new_eq_Ok is_i64_as_i64 for_bytes_def as_i64_sint)
  with r fd show ?thesis by (auto simp: read_content_def)
qed

lemma hash_files_Ok:
  assumes "hash_files sha h completes files opts = Ok digests"
  shows "\<exists>ds. mset digests = mset ds \<and> list_all2 (\<lambda>file fd. hash_file sha h file = Ok fd) files ds"
proof -
  obtain ds where ds: "digests = sort_key fd_relative_path ds"
    "collect (\<lambda>file. if \<not> completes file then Err (InvalidOption ''hash_workers'' ''hash worker did not complete'')
         else upload_context ''hash file in blocking worker'' (hash_file sha h file)) files = Ok ds"
    using assms by (auto simp: hash_files_def result_simps)
  have "list_all2 (\<lambda>file fd. hash_file sha h file = Ok fd) files ds"
    using ds(2) unfolding collect_eq_Ok by (rule list_all2_mono) (auto simp: result_simps split: if_splits)
  with ds(1) show ?thesis by auto
qed

section \<open>What a directory refers to\<close>

lemma add_child_Ok:
  assumes "add_child fds dds child b = Ok b'"
  shows "b_metadata b' = b_metadata b \<and>
    (case child of
       ChildFile f \<Rightarrow> \<exists>d. fds (lf_relative_path f) = Some d \<and> b_directories b' = b_directories b \<and> b_symlinks b' = b_symlinks b \<and>
         b_files b' = b_files b @ [\<lparr>fe_name = lf_name f, fe_digest = d, fe_metadata = metadata_for File (lf_metadata f)\<rparr>]
     | ChildDirectory g \<Rightarrow> \<exists>d. dds (lsd_relative_path g) = Some d \<and> b_files b' = b_files b \<and> b_symlinks b' = b_symlinks b \<and>
         b_directories b' = b_directories b @ [\<lparr>de_name = lsd_name g, de_digest = d, de_metadata = metadata_for Directory (lsd_metadata g)\<rparr>]
     | ChildSymlink l \<Rightarrow> b_files b' = b_files b \<and> b_directories b' = b_directories b \<and>
         b_symlinks b' = b_symlinks b @ [\<lparr>se_name = lsl_name l, se_target = lsl_target l, se_metadata = metadata_for Symlink (lsl_metadata l)\<rparr>])"
  using assms by (cases child) (auto simp: add_child_def result_simps)

text \<open>The entries of a builder that a list of children stands for.\<close>

definition file_entries :: "(string \<rightharpoonup> digest) \<Rightarrow> local_directory_child list \<Rightarrow> file_entry list" where
  "file_entries fds cs = concat (map (\<lambda>c. case c of
     ChildFile f \<Rightarrow> [\<lparr>fe_name = lf_name f, fe_digest = the (fds (lf_relative_path f)), fe_metadata = metadata_for File (lf_metadata f)\<rparr>]
   | _ \<Rightarrow> []) cs)"

definition directory_entries_of :: "(string \<rightharpoonup> digest) \<Rightarrow> local_directory_child list \<Rightarrow> directory_entry list" where
  "directory_entries_of dds cs = concat (map (\<lambda>c. case c of
     ChildDirectory g \<Rightarrow> [\<lparr>de_name = lsd_name g, de_digest = the (dds (lsd_relative_path g)),
       de_metadata = metadata_for Directory (lsd_metadata g)\<rparr>]
   | _ \<Rightarrow> []) cs)"

definition symlink_entries :: "local_directory_child list \<Rightarrow> symlink_entry list" where
  "symlink_entries cs = concat (map (\<lambda>c. case c of
     ChildSymlink l \<Rightarrow> [\<lparr>se_name = lsl_name l, se_target = lsl_target l, se_metadata = metadata_for Symlink (lsl_metadata l)\<rparr>]
   | _ \<Rightarrow> []) cs)"

definition children_known :: "(string \<rightharpoonup> digest) \<Rightarrow> (string \<rightharpoonup> digest) \<Rightarrow> local_directory_child list \<Rightarrow> bool" where
  "children_known fds dds cs \<longleftrightarrow> (\<forall>f. ChildFile f \<in> set cs \<longrightarrow> fds (lf_relative_path f) \<noteq> None) \<and>
     (\<forall>g. ChildDirectory g \<in> set cs \<longrightarrow> dds (lsd_relative_path g) \<noteq> None)"

lemma add_children_Ok:
  assumes "add_children fds dds cs b = Ok b'"
  shows "b_metadata b' = b_metadata b \<and> b_files b' = b_files b @ file_entries fds cs \<and>
    b_directories b' = b_directories b @ directory_entries_of dds cs \<and> b_symlinks b' = b_symlinks b @ symlink_entries cs \<and>
    children_known fds dds cs"
  using assms
proof (induction cs arbitrary: b)
  case (Cons c cs)
  then obtain b1 where b1: "add_child fds dds c b = Ok b1" "add_children fds dds cs b1 = Ok b'" by (auto simp: result_simps)
  show ?case using add_child_Ok [OF b1(1)] Cons.IH [OF b1(2)]
    by (cases c) (auto simp: file_entries_def directory_entries_of_def symlink_entries_def children_known_def)
qed (simp add: file_entries_def directory_entries_of_def symlink_entries_def children_known_def)

definition directory_builder_of :: "(string \<rightharpoonup> digest) \<Rightarrow> (string \<rightharpoonup> digest) \<Rightarrow> local_directory \<Rightarrow> directory_builder" where
  "directory_builder_of fds dds l = \<lparr>b_metadata = Some (metadata_for Directory (ld_metadata l)), b_files = file_entries fds (ld_entries l),
     b_directories = directory_entries_of dds (ld_entries l), b_symlinks = symlink_entries (ld_entries l)\<rparr>"

lemma encode_directory_Ok:
  assumes "encode_directory sha enc l fds dds = Ok ed"
  shows "children_known fds dds (ld_entries l) \<and> builder_ok (directory_builder_of fds dds l) \<and>
    ed_directory ed = canonical_directory (directory_builder_of fds dds l) \<and>
    ed_bytes ed = enc (ed_directory ed) \<and> ed_digest ed = for_bytes sha (ed_bytes ed) \<and>
    ed_warnings ed = builder_warnings (directory_builder_of fds dds l)"
proof -
  obtain b where b: "add_children fds dds (ld_entries l) (builder_with_metadata (metadata_for Directory (ld_metadata l))) = Ok b"
    "builder_encode sha enc b = Ok ed"
    using assms by (auto simp: encode_directory_def result_simps)
  have "b = directory_builder_of fds dds l"
    using add_children_Ok [OF b(1)] by (simp add: builder_with_metadata_def directory_builder_of_def)
  with builder_encode_OkD [OF b(2)] add_children_Ok [OF b(1)] show ?thesis by simp
qed

lemma directory_entries_of_mem:
  "children_known fds dds cs \<Longrightarrow> e \<in> set (directory_entries_of dds cs) \<Longrightarrow> \<exists>p. dds p = Some (de_digest e)"
  "children_known fds dds cs \<Longrightarrow> x \<in> set (file_entries fds cs) \<Longrightarrow> \<exists>p. fds p = Some (fe_digest x)"
  by (auto simp: directory_entries_of_def file_entries_def children_known_def split: local_directory_child.splits)

section \<open>Closed trees\<close>

text \<open>
  A tree is closed when its root is one of its directories and every digest that a directory refers to is
  the digest of one of its directories or of one of its file blobs.
\<close>

definition closed_tree :: "(bytes \<Rightarrow> string) \<Rightarrow> (directory \<Rightarrow> bytes) \<Rightarrow> encoded_directory_tree \<Rightarrow> bool" where
  "closed_tree sha enc t \<longleftrightarrow> et_root_digest t \<in> ed_digest ` set (et_directories t) \<and>
     (\<forall>ed \<in> set (et_directories t).
        ed_bytes ed = enc (ed_directory ed) \<and> ed_digest ed = for_bytes sha (ed_bytes ed) \<and>
        (\<forall>n \<in> set (dir_directories (ed_directory ed)). \<exists>ed' \<in> set (et_directories t). dn_digest n = Some (to_reapi (ed_digest ed'))) \<and>
        (\<forall>n \<in> set (dir_files (ed_directory ed)). \<exists>b \<in> set (et_file_blobs t). fn_digest n = Some (to_reapi (fst b))))"

definition refers_within ::
  "(bytes \<Rightarrow> string) \<Rightarrow> (directory \<Rightarrow> bytes) \<Rightarrow> (string \<rightharpoonup> digest) \<Rightarrow> encoded_directory set \<Rightarrow> encoded_directory \<Rightarrow> bool" where
  "refers_within sha enc fds eds ed \<longleftrightarrow> ed_bytes ed = enc (ed_directory ed) \<and> ed_digest ed = for_bytes sha (ed_bytes ed) \<and>
     (\<forall>n \<in> set (dir_directories (ed_directory ed)). \<exists>ed' \<in> eds. dn_digest n = Some (to_reapi (ed_digest ed'))) \<and>
     (\<forall>n \<in> set (dir_files (ed_directory ed)). \<exists>p d. fds p = Some d \<and> fn_digest n = Some (to_reapi d))"

lemma refers_within_mono: "refers_within sha enc fds A ed \<Longrightarrow> A \<subseteq> B \<Longrightarrow> refers_within sha enc fds B ed"
  unfolding refers_within_def by blast

definition closed_directories ::
  "(bytes \<Rightarrow> string) \<Rightarrow> (directory \<Rightarrow> bytes) \<Rightarrow> (string \<rightharpoonup> digest) \<Rightarrow> (string \<rightharpoonup> digest) \<Rightarrow> encoded_directory list \<Rightarrow> bool" where
  "closed_directories sha enc fds dds eds \<longleftrightarrow> (\<forall>p d. dds p = Some d \<longrightarrow> d \<in> ed_digest ` set eds) \<and>
     (\<forall>ed \<in> set eds. refers_within sha enc fds (set eds) ed)"

lemma closed_directories_step:
  assumes "closed_directories sha enc fds dds eds" "encode_directory sha enc l fds dds = Ok ed"
  shows "closed_directories sha enc fds (dds(p \<mapsto> ed_digest ed)) (eds @ [ed])"
proof -
  note e = encode_directory_Ok [OF assms(2)]
  let ?b = "directory_builder_of fds dds l"
  have "\<exists>ed' \<in> set eds. dn_digest n = Some (to_reapi (ed_digest ed'))" if n: "n \<in> set (dir_directories (ed_directory ed))" for n
  proof -
    obtain x where x: "x \<in> set (directory_entries_of dds (ld_entries l))" "n = directory_node_of x"
      using n e by (auto simp: canonical_directory_def directory_builder_of_def)
    obtain q where "dds q = Some (de_digest x)" using directory_entries_of_mem(1) e x(1) by blast
    then have "de_digest x \<in> ed_digest ` set eds" using assms(1) unfolding closed_directories_def by blast
    with x(2) show ?thesis by (auto simp: directory_node_of_def)
  qed
  moreover have "\<exists>p d. fds p = Some d \<and> fn_digest n = Some (to_reapi d)" if n: "n \<in> set (dir_files (ed_directory ed))" for n
  proof -
    obtain x where x: "x \<in> set (file_entries fds (ld_entries l))" "n = file_node_of x"
      using n e by (auto simp: canonical_directory_def directory_builder_of_def)
    obtain q where "fds q = Some (fe_digest x)" using directory_entries_of_mem(2) e x(1) by blast
    with x(2) show ?thesis by (auto simp: file_node_of_def)
  qed
  ultimately have "refers_within sha enc fds (set eds) ed" using e unfolding refers_within_def by blast
  then have "\<forall>x \<in> insert ed (set eds). refers_within sha enc fds (insert ed (set eds)) x"
    using assms(1) refers_within_mono [OF _ subset_insertI] unfolding closed_directories_def by blast
  moreover have "\<forall>q d. (dds(p \<mapsto> ed_digest ed)) q = Some d \<longrightarrow> d \<in> ed_digest ` insert ed (set eds)"
    using assms(1) unfolding closed_directories_def by simp
  ultimately show ?thesis unfolding closed_directories_def by simp
qed

lemma encode_directories_closed:
  "encode_directories sha enc fds ls dds eds w = Ok (dds', eds', w') \<Longrightarrow> closed_directories sha enc fds dds eds \<Longrightarrow>
     closed_directories sha enc fds dds' eds'"
proof (induction ls arbitrary: dds eds w)
  case (Cons l ls)
  then obtain ed where "encode_directory sha enc l fds dds = Ok ed"
    "encode_directories sha enc fds ls (dds(ld_relative_path l \<mapsto> ed_digest ed)) (eds @ [ed]) (warnings_merge w (ed_warnings ed)) =
      Ok (dds', eds', w')" by (auto simp: result_simps)
  with Cons.IH closed_directories_step [OF Cons.prems(2)] show ?case by blast
qed simp

lemma encode_local_tree_closed:
  assumes "encode_local_tree sha enc tree fds = Ok t"
  shows "closed_tree sha enc t"
proof -
  obtain dds eds w where run: "encode_directories sha enc (digest_by_path fds) (lt_directories tree) Map.empty [] no_warnings = Ok (dds, eds, w)"
    and root: "dds [] = Some (et_root_digest t)"
    and t: "et_directories t = eds" "et_file_blobs t = map (\<lambda>file. (fd_digest file, fd_absolute_path file)) fds"
    using assms by (auto simp: encode_local_tree_def result_simps)
  have "closed_directories sha enc (digest_by_path fds) Map.empty []" by (simp add: closed_directories_def)
  from encode_directories_closed [OF run this] have c: "closed_directories sha enc (digest_by_path fds) dds eds" .
  have files: "\<exists>b \<in> set (et_file_blobs t). fst b = d" if "digest_by_path fds p = Some d" for p d
    using that map_of_SomeD [OF that [unfolded digest_by_path_def]] t(2) by force
  show ?thesis using c root files unfolding closed_tree_def closed_directories_def refers_within_def t(1) by fastforce
qed

section \<open>What an upload leaves in the store\<close>

definition tree_digests :: "encoded_directory_tree \<Rightarrow> digest list" where
  "tree_digests t = map fst (et_file_blobs t) @ map ed_digest (et_directories t)"

lemma or_insert_keys [simp]:
  "set (map fst (or_insert k v m)) = insert k (set (map fst m))"
  "distinct (map fst (or_insert k v m)) = distinct (map fst m)"
  by (auto simp: or_insert_def)

lemma or_insert_mem: "x \<in> set (or_insert k v m) \<Longrightarrow> x = (k, v) \<or> x \<in> set m"
  by (auto simp: or_insert_def split: if_splits)

lemma fold_or_insert:
  "set (map fst (fold (\<lambda>x. or_insert (f x) (g x)) xs m)) = f ` set xs \<union> set (map fst m)"
  "distinct (map fst m) \<Longrightarrow> distinct (map fst (fold (\<lambda>x. or_insert (f x) (g x)) xs m))"
  "y \<in> set (fold (\<lambda>x. or_insert (f x) (g x)) xs m) \<Longrightarrow> y \<in> (\<lambda>x. (f x, g x)) ` set xs \<or> y \<in> set m"
proof -
  show "set (map fst (fold (\<lambda>x. or_insert (f x) (g x)) xs m)) = f ` set xs \<union> set (map fst m)"
    by (induction xs arbitrary: m) (simp_all add: or_insert_keys del: set_map)
  show "distinct (map fst m) \<Longrightarrow> distinct (map fst (fold (\<lambda>x. or_insert (f x) (g x)) xs m))"
    by (induction xs arbitrary: m) simp_all
  show "y \<in> set (fold (\<lambda>x. or_insert (f x) (g x)) xs m) \<Longrightarrow> y \<in> (\<lambda>x. (f x, g x)) ` set xs \<or> y \<in> set m"
  proof (induction xs arbitrary: m)
    case (Cons x xs)
    then have "y \<in> (\<lambda>x. (f x, g x)) ` set xs \<or> y \<in> set (or_insert (f x) (g x) m)" by simp
    with or_insert_mem [of y "f x" "g x" m] show ?case by auto
  qed simp
qed

lemma sources_by_digest_eq:
  "sources_by_digest sha t = fold (\<lambda>ed. or_insert (ed_digest ed) (blob_from_bytes sha (ed_bytes ed))) (et_directories t)
     (fold (\<lambda>x. or_insert (fst x) (blob_from_file_path (fst x) (snd x))) (et_file_blobs t) [])"
  by (simp add: sources_by_digest_def case_prod_unfold)

lemma sources_keys:
  "set (map fst (sources_by_digest sha t)) = set (tree_digests t)" "distinct (map fst (sources_by_digest sha t))"
  unfolding sources_by_digest_eq fold_or_insert(1) tree_digests_def by (auto intro!: fold_or_insert(2))

text \<open>The blobs an upload may send for a tree.\<close>

definition tree_source :: "(bytes \<Rightarrow> string) \<Rightarrow> encoded_directory_tree \<Rightarrow> blob \<Rightarrow> bool" where
  "tree_source sha t b \<longleftrightarrow> (\<exists>ed \<in> set (et_directories t). b = blob_from_bytes sha (ed_bytes ed)) \<or>
     (\<exists>(d, path) \<in> set (et_file_blobs t). b = blob_from_file_path d path)"

lemma sources_blobs:
  assumes "closed_tree sha enc t" "(d, b) \<in> set (sources_by_digest sha t)"
  shows "bl_digest b = d \<and> tree_source sha t b"
proof -
  have "(d, b) \<in> (\<lambda>ed. (ed_digest ed, blob_from_bytes sha (ed_bytes ed))) ` set (et_directories t) \<or>
      (d, b) \<in> (\<lambda>x. (fst x, blob_from_file_path (fst x) (snd x))) ` set (et_file_blobs t)"
    using fold_or_insert(3) [OF assms(2) [unfolded sources_by_digest_eq]]
      fold_or_insert(3) [of _ fst "\<lambda>x. blob_from_file_path (fst x) (snd x)" "et_file_blobs t" "[]"] by auto
  with assms(1) show ?thesis
    by (auto simp: closed_tree_def tree_source_def blob_from_bytes_def blob_from_file_path_def)
qed

lemma upload_encoded_tree_Ok:
  assumes "upload_encoded_tree sha order store t s = (Ok st, s')"
  shows "\<exists>missing s1 blobs stats. st_find_missing_blobs store (order (map fst (sources_by_digest sha t))) s = (Ok missing, s1) \<and>
    list_all2 (\<lambda>d b. map_of (sources_by_digest sha t) d = Some b) missing blobs \<and>
    st_upload_blobs store blobs s1 = (Ok stats, s') \<and>
    st = \<lparr>uo_uploaded_blobs = uploaded_blobs stats,
          uo_reused_blobs = length (order (map fst (sources_by_digest sha t))) - length missing, uo_bytes_uploaded = bytes_uploaded stats\<rparr>"
  using assms by (fastforce simp: upload_encoded_tree_def Let_def result_simps split: prod.splits sum.splits)

text \<open>
  What the upload relies on: \<open>stored s b\<close> says that the store has confirmed the blob. A digest that was asked for and
  is not reported missing is stored, uploaded blobs are stored, and blobs stay stored.
\<close>

locale blob_store =
  fixes store :: "'s blob_store_ops" and stored :: "'s \<Rightarrow> blob \<Rightarrow> bool"
  assumes find_reports: "st_find_missing_blobs store ds s = (Ok ms, s') \<Longrightarrow> bl_digest b \<in> set ds \<Longrightarrow> bl_digest b \<notin> set ms \<Longrightarrow> stored s' b"
    and upload_stores: "st_upload_blobs store bs s = (Ok stats, s') \<Longrightarrow> \<forall>b \<in> set bs. valid_digest (bl_digest b) \<Longrightarrow> b \<in> set bs \<Longrightarrow> stored s' b"
    and upload_keeps: "st_upload_blobs store bs s = (r, s') \<Longrightarrow> \<forall>b \<in> set bs. valid_digest (bl_digest b) \<Longrightarrow> stored s b \<Longrightarrow> stored s' b"
begin

lemma tree_stored:
  assumes run: "upload_encoded_tree sha order store t s = (Ok st, s')" and order: "\<forall>xs. mset (order xs) = mset xs"
    and t: "closed_tree sha enc t" "\<forall>d \<in> set (tree_digests t). valid_digest d" and d: "d \<in> set (tree_digests t)"
  shows "\<exists>b. bl_digest b = d \<and> tree_source sha t b \<and> stored s' b"
proof -
  let ?src = "sources_by_digest sha t"
  obtain missing s1 blobs stats where f: "st_find_missing_blobs store (order (map fst ?src)) s = (Ok missing, s1)"
    and bs: "list_all2 (\<lambda>d b. map_of ?src d = Some b) missing blobs" and u: "st_upload_blobs store blobs s1 = (Ok stats, s')"
    using upload_encoded_tree_Ok [OF run] by blast
  have src: "bl_digest b = x \<and> tree_source sha t b \<and> x \<in> set (tree_digests t)" if "map_of ?src x = Some b" for x b
    using sources_blobs [OF t(1) map_of_SomeD [OF that]] map_of_SomeD [OF that] sources_keys(1) [of sha t] by force
  have valid: "\<forall>b \<in> set blobs. valid_digest (bl_digest b)"
    using bs src t(2) by (fastforce simp: list_all2_conv_all_nth in_set_conv_nth)
  obtain b where b: "map_of ?src d = Some b" using d sources_keys(1) [of sha t] by (metis map_of_eq_None_iff not_None_eq set_map)
  have "d \<in> set (order (map fst ?src))" using order d sources_keys(1) [of sha t] by (metis set_mset_mset)
  then have "stored s' b"
  proof (cases "d \<in> set missing")
    case True
    then have "b \<in> set blobs" using bs b by (auto simp: list_all2_conv_all_nth in_set_conv_nth)
    with upload_stores [OF u valid] show ?thesis by blast
  next
    case False
    with f src [OF b] \<open>d \<in> set (order (map fst ?src))\<close> have "stored s1 b" using find_reports by blast
    with upload_keeps [OF u valid] show ?thesis by blast
  qed
  with src [OF b] show ?thesis by blast
qed

end

text \<open>
  The CAS client keeps this contract whatever the service does, with the confirmations of the service in the
  log as what is stored (for a batch budget that a \<^verbatim>\<open>usize\<close> of 63 bits can hold).
\<close>

definition confirmed :: "'s cas_client \<Rightarrow> cas_call list \<Rightarrow> blob \<Rightarrow> bool" where
  "confirmed c calls b \<longleftrightarrow> (\<exists>x \<in> set calls. reported_present x (bl_digest b) \<or> acknowledges (instance_name (cc_config c)) x b)"

definition cas_stored :: "'s cas_client \<Rightarrow> ('s \<times> cas_call list) world \<Rightarrow> blob \<Rightarrow> bool" where
  "cas_stored c w b \<longleftrightarrow> (unat (batch_update_budget_bytes (cc_config c)) < 2 ^ 63 \<longrightarrow> confirmed c (call_log w) b)"

interpretation cas_store: blob_store "cas_blob_store (recording c)" "cas_stored c" for c
proof
  fix ds ms and w w' :: "('a \<times> cas_call list) world" and b :: blob
  assume f: "st_find_missing_blobs (cas_blob_store (recording c)) ds w = (Ok ms, w')" and b: "bl_digest b \<in> set ds" "bl_digest b \<notin> set ms"
  then have "find_missing_blobs (recording c) ds w = (Ok ms, w')" by (simp add: cas_blob_store_def)
  from find_missing_effect [OF this] b show "cas_stored c w' b" by (fastforce simp: cas_stored_def confirmed_def)
next
  fix bs stats and w w' :: "('a \<times> cas_call list) world" and b :: blob
  assume u: "st_upload_blobs (cas_blob_store (recording c)) bs w = (Ok stats, w')" and v: "\<forall>b \<in> set bs. valid_digest (bl_digest b)" and b: "b \<in> set bs"
  then have u': "upload_blobs (recording c) bs w = (Ok stats, w')" by (simp add: cas_blob_store_def)
  show "cas_stored c w' b" using upload_blobs_effect [OF u' _ v] b by (fastforce simp: cas_stored_def confirmed_def upload_effect_def)
next
  fix bs r and w w' :: "('a \<times> cas_call list) world" and b :: blob
  assume u: "st_upload_blobs (cas_blob_store (recording c)) bs w = (r, w')" and v: "\<forall>b \<in> set bs. valid_digest (bl_digest b)" and b: "cas_stored c w b"
  then have u': "upload_blobs (recording c) bs w = (r, w')" by (simp add: cas_blob_store_def)
  show "cas_stored c w' b" using upload_blobs_effect [OF u' _ v] b by (fastforce simp: cas_stored_def confirmed_def upload_effect_def)
qed

section \<open>What a scan finds\<close>

text \<open>
  The operating system's names are not empty, are not dots, hold no slash and are distinct within a directory.
\<close>

fun wf_host :: "host_node \<Rightarrow> bool" where
  "wf_host (HostDirectory md entries) \<longleftrightarrow> distinct (map fst entries) \<and> (\<forall>e \<in> set entries. valid_name (fst e) \<and> wf_host (snd e))"
| "wf_host _ \<longleftrightarrow> True"

abbreviation wf_entries :: "(string \<times> host_node) list \<Rightarrow> bool" where
  "wf_entries entries \<equiv> distinct (map fst entries) \<and> (\<forall>e \<in> set entries. valid_name (fst e) \<and> wf_host (snd e))"

lemma path_file_name_join:
  assumes "valid_name n"
  shows "path_file_name (path_join p n) = Some n"
proof -
  have n: "n \<noteq> []" "n \<notin> {''.'', ''..''}" "CHR ''/'' \<notin> set n" using assms by (auto simp: valid_name_def)
  have join: "path_join p n = n \<or> (\<exists>q. path_join p n = q @ ''/'' @ n)"
  proof (cases "p = [] \<or> last p = CHR ''/''")
    case True
    then have "path_join p n = p @ n" using n by (cases n) (auto simp: path_join_def)
    with True show ?thesis by (cases p rule: rev_cases) auto
  next
    case False
    then show ?thesis using n by (cases n) (auto simp: path_join_def)
  qed
  let ?P = "\<lambda>c. c \<noteq> CHR ''/''"
  have tw: "takeWhile ?P (rev n @ r) = rev n @ takeWhile ?P r" for r using n(3) by (intro takeWhile_append2) auto
  have "takeWhile ?P (rev n) = rev n" using tw [of "[]"] by (simp only: append_Nil2 takeWhile.simps)
  then have "rev (takeWhile ?P (rev n)) = n" by (simp only: rev_rev_ident)
  moreover have "rev (takeWhile ?P (rev (q @ ''/'' @ n))) = n" for q using tw [of "CHR ''/'' # rev q"] by simp
  ultimately have "rev (takeWhile ?P (rev (path_join p n))) = n" using join by metis
  then show ?thesis using n(1,2) by (simp add: path_file_name_def)
qed

lemma component_name_Ok: "valid_name n \<Longrightarrow> component_name h (path_join p n) = Ok name \<longleftrightarrow> name = n \<and> uh_utf8 h n"
  by (auto simp: component_name_def path_file_name_join result_simps)

text \<open>The records that a scan makes of the entries of a directory, and of the directories and files below it.\<close>

fun child_of :: "string \<Rightarrow> string \<Rightarrow> string \<times> host_node \<Rightarrow> local_directory_child list" where
  "child_of path rel (n, HostFile md) =
     [ChildFile \<lparr>lf_name = n, lf_relative_path = path_join rel n, lf_absolute_path = path_join path n, lf_metadata = md\<rparr>]"
| "child_of path rel (n, HostDirectory md entries) =
     [ChildDirectory \<lparr>lsd_name = n, lsd_relative_path = path_join rel n, lsd_metadata = md\<rparr>]"
| "child_of path rel (n, HostSymlink md target) = [ChildSymlink \<lparr>lsl_name = n, lsl_target = target, lsl_metadata = md\<rparr>]"
| "child_of path rel (n, HostSpecial md kind) = []"

definition dir_of :: "string \<Rightarrow> string \<Rightarrow> fs_metadata \<Rightarrow> (string \<times> host_node) list \<Rightarrow> local_directory" where
  "dir_of path rel md entries = \<lparr>ld_relative_path = rel, ld_absolute_path = path, ld_metadata = md,
     ld_entries = concat (map (child_of path rel) (sort_key fst entries))\<rparr>"

inductive dir_below :: "string \<Rightarrow> string \<Rightarrow> (string \<times> host_node) list \<Rightarrow> local_directory \<Rightarrow> bool" where
  sub: "(n, HostDirectory md entries') \<in> set entries \<Longrightarrow> dir_below path rel entries (dir_of (path_join path n) (path_join rel n) md entries')"
| deeper: "(n, HostDirectory md entries') \<in> set entries \<Longrightarrow> dir_below (path_join path n) (path_join rel n) entries' d \<Longrightarrow>
    dir_below path rel entries d"

inductive file_below :: "string \<Rightarrow> string \<Rightarrow> (string \<times> host_node) list \<Rightarrow> local_file \<Rightarrow> bool" where
  direct: "(n, HostFile md) \<in> set entries \<Longrightarrow> file_below path rel entries
    \<lparr>lf_name = n, lf_relative_path = path_join rel n, lf_absolute_path = path_join path n, lf_metadata = md\<rparr>"
| deeper_file: "(n, HostDirectory md entries') \<in> set entries \<Longrightarrow> file_below (path_join path n) (path_join rel n) entries' f \<Longrightarrow>
    file_below path rel entries f"

lemma dir_below_iff:
  "dir_below path rel es d \<longleftrightarrow> (\<exists>n md es'. (n, HostDirectory md es') \<in> set es \<and>
     (d = dir_of (path_join path n) (path_join rel n) md es' \<or> dir_below (path_join path n) (path_join rel n) es' d))"
  by (subst dir_below.simps) auto

lemma file_below_iff:
  "file_below path rel es f \<longleftrightarrow>
     (\<exists>n md. (n, HostFile md) \<in> set es \<and>
        f = \<lparr>lf_name = n, lf_relative_path = path_join rel n, lf_absolute_path = path_join path n, lf_metadata = md\<rparr>) \<or>
     (\<exists>n md es'. (n, HostDirectory md es') \<in> set es \<and> file_below (path_join path n) (path_join rel n) es' f)"
  by (subst file_below.simps) auto

lemma below_cong:
  "set es = set es' \<Longrightarrow> dir_below path rel es d = dir_below path rel es' d"
  "set es = set es' \<Longrightarrow> file_below path rel es f = file_below path rel es' f"
  by (subst (1 2) dir_below_iff file_below_iff, simp)+

lemma below_Nil [simp]: "\<not> dir_below path rel [] d" "\<not> file_below path rel [] f"
  by (subst dir_below_iff file_below_iff, simp)+

lemma below_Cons:
  "dir_below path rel ((n, node) # es) d \<longleftrightarrow> dir_below path rel es d \<or>
     (\<exists>md es'. node = HostDirectory md es' \<and> (d = dir_of (path_join path n) (path_join rel n) md es' \<or> dir_below (path_join path n) (path_join rel n) es' d))"
  "file_below path rel ((n, node) # es) f \<longleftrightarrow> file_below path rel es f \<or>
     (\<exists>md. node = HostFile md \<and> f = \<lparr>lf_name = n, lf_relative_path = path_join rel n, lf_absolute_path = path_join path n, lf_metadata = md\<rparr>) \<or>
     (\<exists>md es'. node = HostDirectory md es' \<and> file_below (path_join path n) (path_join rel n) es' f)"
  unfolding dir_below_iff [of path rel "(n, node) # es"] dir_below_iff [of path rel es]
    file_below_iff [of path rel "(n, node) # es"] file_below_iff [of path rel es]
  subgoal by (cases node; simp) metis+
  subgoal by (cases node; simp) metis+
  done

lemma record_file_sel [simp]:
  "sc_directories (record_file f st) = sc_directories st" "sc_files (record_file f st) = sc_files st @ [f]"
  "sc_symlinks (record_file f st) = sc_symlinks st"
  by (simp_all add: record_file_def Let_def)

definition scan_gains :: "string \<Rightarrow> string \<Rightarrow> (string \<times> host_node) list \<Rightarrow> scan_state \<Rightarrow> scan_state \<Rightarrow> bool" where
  "scan_gains path rel es st st' \<longleftrightarrow> (\<exists>ds fs. sc_directories st' = sc_directories st @ ds \<and> (\<forall>d. d \<in> set ds \<longleftrightarrow> dir_below path rel es d) \<and>
     sc_files st' = sc_files st @ fs \<and> (\<forall>f. f \<in> set fs \<longleftrightarrow> file_below path rel es f))"

lemma scan_gains_directory:
  assumes "scan_gains (path_join path n) (path_join rel n) es' st st1"
    and "scan_gains path rel es (st1\<lparr>sc_directories := sc_directories st1 @ [dir_of (path_join path n) (path_join rel n) md es']\<rparr>) st'"
  shows "scan_gains path rel ((n, HostDirectory md es') # es) st st'"
proof -
  let ?d = "dir_of (path_join path n) (path_join rel n) md es'"
  obtain ds1 fs1 where 1: "sc_directories st1 = sc_directories st @ ds1" "\<forall>d. d \<in> set ds1 \<longleftrightarrow> dir_below (path_join path n) (path_join rel n) es' d"
    "sc_files st1 = sc_files st @ fs1" "\<forall>f. f \<in> set fs1 \<longleftrightarrow> file_below (path_join path n) (path_join rel n) es' f"
    using assms(1) by (auto simp: scan_gains_def)
  obtain ds2 fs2 where 2: "sc_directories st' = sc_directories st @ ds1 @ [?d] @ ds2" "\<forall>d. d \<in> set ds2 \<longleftrightarrow> dir_below path rel es d"
    "sc_files st' = sc_files st @ fs1 @ fs2" "\<forall>f. f \<in> set fs2 \<longleftrightarrow> file_below path rel es f"
    using assms(2) 1(1,3) by (auto simp: scan_gains_def)
  show ?thesis unfolding scan_gains_def
    by (intro exI [of _ "ds1 @ [?d] @ ds2"] exI [of _ "fs1 @ fs2"]) (use 1(2,4) 2 in \<open>auto simp: below_Cons\<close>)
qed

lemma scan_Ok:
  "scan_directory h opts path rel md es st = Ok (d, st') \<Longrightarrow> wf_entries es \<Longrightarrow>
     d = dir_of path rel md es \<and> scan_gains path rel es st st'"
  "scan_entries h opts path rel es acc st = Ok (cs, st') \<Longrightarrow> wf_entries es \<Longrightarrow>
     cs = acc @ concat (map (child_of path rel) es) \<and> scan_gains path rel es st st'"
proof (induction h opts path rel md es st and h opts path rel es acc st arbitrary: d st' and cs st'
    rule: scan_directory_scan_entries.induct)
  case (1 h opts path rel md es st)
  obtain cs where cs: "scan_entries h opts path rel (sort_key fst es) [] st = Ok (cs, st')"
    and f: "uh_fault h ''read directory metadata'' path = None" "uh_fault h ''read directory'' path = None"
      "uh_fault h ''read directory entry'' path = None"
    and d: "d = \<lparr>ld_relative_path = rel, ld_absolute_path = path, ld_metadata = md, ld_entries = cs\<rparr>"
    using "1.prems"(1) by (auto split: option.splits sum.splits)
  have "wf_entries (sort_key fst es)"
    using "1.prems"(2) by (metis mset_eq_imp_distinct_iff mset_map mset_sort set_sort)
  from "1.IH" [OF f cs this] d show ?case
    using below_cong [of "sort_key fst es" es] by (simp add: dir_of_def scan_gains_def)
next
  case (2 h opts path rel acc st)
  then show ?case by (auto simp: scan_gains_def)
next
  case (3 h opts path rel n node es acc st)
  let ?p = "path_join path n" and ?r = "path_join rel n"
  have wf: "valid_name n" "wf_entries es" "wf_host node" using "3.prems"(2) by auto
  obtain name where name: "component_name h ?p = Ok name" using "3.prems"(1) by (cases "component_name h ?p") (simp_all add: Let_def)
  then have n: "component_name h ?p = Ok n" using component_name_Ok [OF wf(1)] by auto
  have f: "uh_fault h ''read child metadata'' ?p = None"
    using "3.prems"(1) n by (cases "uh_fault h ''read child metadata'' ?p") (simp_all add: Let_def)
  note run = "3.prems"(1) [unfolded scan_entries.simps Let_def n sum.case f option.case]
  show ?case
  proof (cases node)
    case (HostFile md)
    let ?f = "\<lparr>lf_name = n, lf_relative_path = ?r, lf_absolute_path = ?p, lf_metadata = md\<rparr>"
    have "scan_entries h opts path rel es (acc @ [ChildFile ?f]) (record_file ?f st) = Ok (cs, st')" using run HostFile by simp
    from "3.IH"(1) [OF refl n refl f HostFile refl this wf(2)] HostFile show ?thesis
      by (auto simp: scan_gains_def below_Cons intro!: exI [of _ "?f # _"])
  next
    case (HostDirectory md es')
    obtain d st1 where d: "scan_directory h opts ?p ?r md es' st = Ok (d, st1)"
      and rest: "scan_entries h opts path rel es (acc @ [ChildDirectory \<lparr>lsd_name = n, lsd_relative_path = ?r, lsd_metadata = md\<rparr>])
        (st1\<lparr>sc_directories := sc_directories st1 @ [d]\<rparr>) = Ok (cs, st')"
      using run HostDirectory by (auto simp: result_simps split: sum.splits)
    have wf': "wf_entries es'" using wf(3) HostDirectory by simp
    note e1 = "3.IH"(2) [OF refl n refl f HostDirectory d wf']
    have c: "upload_context ''scan child directory'' (scan_directory h opts ?p ?r md es' st) = Inr (d, st1)" using d by simp
    note e2 = "3.IH"(3) [OF refl n refl f HostDirectory c refl rest wf(2)]
    from e1 e2 HostDirectory show ?thesis by (auto intro: scan_gains_directory)
  next
    case (HostSymlink md target)
    have l: "uh_fault h ''read link'' ?p = None" "uh_utf8 h target"
      and rest: "scan_entries h opts path rel es (acc @ [ChildSymlink \<lparr>lsl_name = n, lsl_target = target, lsl_metadata = md\<rparr>])
        (st\<lparr>sc_symlinks := sc_symlinks st + 1\<rparr>) = Ok (cs, st')"
      using run HostSymlink by (auto split: option.splits if_splits)
    from "3.IH"(4) [OF refl n refl f HostSymlink l(1) _ rest wf(2)] l HostSymlink show ?thesis
      by (auto simp: scan_gains_def below_Cons)
  next
    case (HostSpecial md kind)
    have o: "\<not> opt_fail_on_unsupported_nodes opts" and rest: "scan_entries h opts path rel es acc st = Ok (cs, st')"
      using run HostSpecial by (auto split: if_splits)
    from "3.IH"(5) [OF refl n refl f HostSpecial o rest wf(2)] HostSpecial show ?thesis
      by (auto simp: scan_gains_def below_Cons)
  qed
qed

section \<open>Paths in the local tree\<close>

fun host_at :: "host_node \<Rightarrow> string list \<Rightarrow> host_node option" where
  "host_at node [] = Some node"
| "host_at (HostDirectory md entries) (n # ns) = (case map_of entries n of None \<Rightarrow> None | Some node \<Rightarrow> host_at node ns)"
| "host_at node (n # ns) = None"

abbreviation join_path :: "string \<Rightarrow> string list \<Rightarrow> string" where
  "join_path base ns \<equiv> foldl path_join base ns"

lemma host_at_append: "host_at node (ns @ ms) = Option.bind (host_at node ns) (\<lambda>x. host_at x ms)"
  by (induction node ns rule: host_at.induct) (auto split: option.splits)

lemma host_at_wf:
  "host_at node ns = Some x \<Longrightarrow> wf_host node \<Longrightarrow> wf_host x \<and> (\<forall>n \<in> set ns. valid_name n)"
proof (induction node ns rule: host_at.induct)
  case (2 md entries n ns)
  then obtain y where "map_of entries n = Some y" "host_at y ns = Some x" by (auto split: option.splits)
  with 2 show ?case by (auto dest: map_of_SomeD)
qed auto

lemma host_at_snoc:
  assumes "host_at node ns = Some (HostDirectory md entries)" "wf_host node"
  shows "host_at node (ns @ [n]) = Some x \<longleftrightarrow> (n, x) \<in> set entries"
proof -
  have "map_of entries n = Some x \<longleftrightarrow> (n, x) \<in> set entries"
    using host_at_wf [OF assms] by (intro map_of_eq_Some_iff) simp
  then show ?thesis using assms(1) by (cases "map_of entries n") (simp_all add: host_at_append)
qed

lemma path_join_valid:
  assumes "valid_name n"
  shows "path_join p n = (if p = [] \<or> last p = CHR ''/'' then p @ n else p @ ''/'' @ n)"
  using assms by (cases n) (auto simp: path_join_def valid_name_def)

lemma join_path_split:
  assumes "ns \<noteq> []" "\<forall>n \<in> set ns. valid_name n"
  shows "split_on CHR ''/'' (join_path [] ns) = ns \<and> join_path [] ns \<noteq> [] \<and> last (join_path [] ns) \<noteq> CHR ''/''"
  using assms
proof (induction ns rule: rev_induct)
  case (snoc n ns)
  have n: "valid_name n" "n \<noteq> []" "CHR ''/'' \<notin> set n" using snoc.prems(2) by (auto simp: valid_name_def)
  then have l: "last n \<noteq> CHR ''/''" by (metis last_in_set)
  show ?case
  proof (cases "ns = []")
    case True
    with n l show ?thesis by (simp add: path_join_valid split_on_no_sep)
  next
    case False
    with snoc have "split_on CHR ''/'' (join_path [] ns) = ns" "join_path [] ns \<noteq> []" "last (join_path [] ns) \<noteq> CHR ''/''" by auto
    with n l show ?thesis by (simp add: path_join_valid split_on_append split_on_no_sep)
  qed
qed simp

lemma join_path_depth: "\<forall>n \<in> set ns. valid_name n \<Longrightarrow> path_depth (join_path [] ns) = length ns"
proof (cases "ns = []")
  case False
  assume valid: "\<forall>n \<in> set ns. valid_name n"
  then have "filter (\<lambda>c. c \<noteq> []) ns = ns" by (intro filter_True) (auto simp: valid_name_def)
  with join_path_split [OF False valid] show ?thesis by (simp add: path_depth_def)
qed (simp add: path_depth_def)

lemma join_path_inj:
  assumes "\<forall>n \<in> set ns. valid_name n" "\<forall>n \<in> set ms. valid_name n" "join_path [] ns = join_path [] ms"
  shows "ns = ms"
proof (cases "ns = [] \<or> ms = []")
  case True
  then have "join_path [] ns = [] \<or> join_path [] ms = []" by auto
  with assms(3) have "join_path [] ns = []" "join_path [] ms = []" by argo+
  with join_path_split [OF _ assms(1)] join_path_split [OF _ assms(2)] show ?thesis by metis
next
  case False
  with join_path_split [OF _ assms(1)] join_path_split [OF _ assms(2)] assms(3) show ?thesis by metis
qed

lemma dir_below_at:
  "dir_below path rel es d \<Longrightarrow> wf_entries es \<Longrightarrow> \<exists>ns md' es'. ns \<noteq> [] \<and> host_at (HostDirectory md es) ns = Some (HostDirectory md' es') \<and>
     d = dir_of (join_path path ns) (join_path rel ns) md' es'"
proof (induction path rel es d arbitrary: md rule: dir_below.induct)
  case (sub n md' es' es path rel)
  then have "host_at (HostDirectory md es) [n] = Some (HostDirectory md' es')" by auto
  then show ?case by (intro exI [of _ "[n]"]) auto
next
  case (deeper n md1 es1 es path rel d)
  then have "wf_entries es1" by force
  with deeper.IH [of md1] obtain ns md' es' where "host_at (HostDirectory md1 es1) ns = Some (HostDirectory md' es')"
    "d = dir_of (join_path (path_join path n) ns) (join_path (path_join rel n) ns) md' es'" by blast
  moreover have "map_of es n = Some (HostDirectory md1 es1)" using deeper.hyps(1) deeper.prems by simp
  ultimately show ?case by (intro exI [of _ "n # ns"]) auto
qed

lemma at_dir_below:
  "host_at (HostDirectory md es) ns = Some (HostDirectory md' es') \<Longrightarrow> ns \<noteq> [] \<Longrightarrow>
     dir_below path rel es (dir_of (join_path path ns) (join_path rel ns) md' es')"
proof (induction ns arbitrary: md es path rel)
  case (Cons n ns)
  then obtain x where x: "map_of es n = Some x" "host_at x ns = Some (HostDirectory md' es')" by (auto split: option.splits)
  then have mem: "(n, x) \<in> set es" by (simp add: map_of_SomeD)
  show ?case
  proof (cases "ns = []")
    case True
    with x mem show ?thesis by (auto intro: sub)
  next
    case False
    with x(2) obtain md1 es1 where "x = HostDirectory md1 es1" by (cases x; cases ns) auto
    with mem x(2) Cons.IH False show ?thesis by (auto intro: deeper)
  qed
qed simp

lemma at_file_below:
  "host_at (HostDirectory md es) (ns @ [n]) = Some (HostFile fmd) \<Longrightarrow>
     file_below path rel es \<lparr>lf_name = n, lf_relative_path = join_path rel (ns @ [n]), lf_absolute_path = join_path path (ns @ [n]), lf_metadata = fmd\<rparr>"
proof (induction ns arbitrary: md es path rel)
  case Nil
  then show ?case by (auto intro: direct split: option.splits dest: map_of_SomeD)
next
  case (Cons m ns)
  then obtain x where x: "map_of es m = Some x" "host_at x (ns @ [n]) = Some (HostFile fmd)" by (auto split: option.splits)
  then obtain md1 es1 where "x = HostDirectory md1 es1" by (cases x; cases ns) auto
  with x Cons.IH [of md1 es1 "path_join path m" "path_join rel m"] show ?case by (auto intro: deeper_file dest: map_of_SomeD)
qed

text \<open>What a successful scan returns.\<close>

lemma scan_tree_Ok:
  assumes "scan_local_directory_with_options h root node opts = Ok tree" "pred_option wf_host node"
  shows "\<exists>md es. node = Some (HostDirectory md es) \<and> wf_host (HostDirectory md es) \<and>
    (\<forall>d. d \<in> set (lt_directories tree) \<longleftrightarrow> (\<exists>ns md' es'. host_at (HostDirectory md es) ns = Some (HostDirectory md' es') \<and>
       d = dir_of (join_path root ns) (join_path [] ns) md' es')) \<and>
    (\<forall>f. f \<in> set (lt_files tree) \<longleftrightarrow> file_below root [] es f) \<and> sorted (map directory_order (lt_directories tree))"
proof -
  obtain md es d st where n: "node = Some (HostDirectory md es)" and s: "scan_directory h opts root [] md es scan_state_default = Ok (d, st)"
    and tree: "lt_directories tree = sort_key directory_order (sc_directories st @ [d])" "lt_files tree = sc_files st"
    using assms(1) by (auto simp: scan_local_directory_with_options_def result_simps split: option.splits host_node.splits)
  have wf: "wf_entries es" using assms(2) n by simp
  have "d = dir_of root [] md es" "scan_gains root [] es scan_state_default st" using scan_Ok(1) [OF s wf] by auto
  then have dirs: "x \<in> set (lt_directories tree) \<longleftrightarrow> x = dir_of root [] md es \<or> dir_below root [] es x"
    and files: "f \<in> set (lt_files tree) \<longleftrightarrow> file_below root [] es f" for x f
    by (auto simp: tree scan_gains_def scan_state_default_def)
  have "(\<exists>ns md' es'. host_at (HostDirectory md es) ns = Some (HostDirectory md' es') \<and> x = dir_of (join_path root ns) (join_path [] ns) md' es') \<longleftrightarrow>
      x = dir_of root [] md es \<or> dir_below root [] es x" for x
  proof
    assume "\<exists>ns md' es'. host_at (HostDirectory md es) ns = Some (HostDirectory md' es') \<and> x = dir_of (join_path root ns) (join_path [] ns) md' es'"
    then obtain ns md' es' where "host_at (HostDirectory md es) ns = Some (HostDirectory md' es')"
      "x = dir_of (join_path root ns) (join_path [] ns) md' es'" by blast
    then show "x = dir_of root [] md es \<or> dir_below root [] es x" using at_dir_below by (cases "ns = []") auto
  next
    assume "x = dir_of root [] md es \<or> dir_below root [] es x"
    then show "\<exists>ns md' es'. host_at (HostDirectory md es) ns = Some (HostDirectory md' es') \<and> x = dir_of (join_path root ns) (join_path [] ns) md' es'"
    proof
      assume "x = dir_of root [] md es"
      then show ?thesis by (intro exI [of _ "[]"]) simp
    qed (use dir_below_at [OF _ wf] in blast)
  qed
  with n wf dirs files show ?thesis by (simp add: tree(1))
qed

section \<open>Encoding bottom up\<close>

text \<open>The order a scan establishes: every subdirectory of a directory comes before it, and a path names one directory.\<close>

definition bottom_up :: "local_directory list \<Rightarrow> bool" where
  "bottom_up ls \<longleftrightarrow> sorted (map directory_order ls) \<and>
     (\<forall>l \<in> set ls. \<forall>l' \<in> set ls. ld_relative_path l = ld_relative_path l' \<longrightarrow> l = l') \<and>
     (\<forall>l \<in> set ls. \<forall>g. ChildDirectory g \<in> set (ld_entries l) \<longrightarrow>
        (\<exists>l' \<in> set ls. ld_relative_path l' = lsd_relative_path g \<and> directory_order l' < directory_order l))"

lemma dir_of_child:
  "ChildDirectory g \<in> set (ld_entries (dir_of path rel md es)) \<longleftrightarrow>
     (\<exists>n md' es'. (n, HostDirectory md' es') \<in> set es \<and> g = \<lparr>lsd_name = n, lsd_relative_path = path_join rel n, lsd_metadata = md'\<rparr>)"
  "ChildFile f \<in> set (ld_entries (dir_of path rel md es)) \<longleftrightarrow>
     (\<exists>n md'. (n, HostFile md') \<in> set es \<and>
        f = \<lparr>lf_name = n, lf_relative_path = path_join rel n, lf_absolute_path = path_join path n, lf_metadata = md'\<rparr>)"
  "ChildSymlink l \<in> set (ld_entries (dir_of path rel md es)) \<longleftrightarrow>
     (\<exists>n md' t. (n, HostSymlink md' t) \<in> set es \<and> l = \<lparr>lsl_name = n, lsl_target = t, lsl_metadata = md'\<rparr>)"
proof -
  have c: "child_of path rel (n, node) = (case node of
      HostFile md \<Rightarrow> [ChildFile \<lparr>lf_name = n, lf_relative_path = path_join rel n, lf_absolute_path = path_join path n, lf_metadata = md\<rparr>]
    | HostDirectory md es \<Rightarrow> [ChildDirectory \<lparr>lsd_name = n, lsd_relative_path = path_join rel n, lsd_metadata = md\<rparr>]
    | HostSymlink md t \<Rightarrow> [ChildSymlink \<lparr>lsl_name = n, lsl_target = t, lsl_metadata = md\<rparr>] | HostSpecial md k \<Rightarrow> [])" for n node
    by (cases node) simp_all
  have e: "x \<in> set (ld_entries (dir_of path rel md es)) \<longleftrightarrow> (\<exists>n node. (n, node) \<in> set es \<and> x \<in> set (child_of path rel (n, node)))" for x
    by (auto simp: dir_of_def)
  show "ChildDirectory g \<in> set (ld_entries (dir_of path rel md es)) \<longleftrightarrow>
     (\<exists>n md' es'. (n, HostDirectory md' es') \<in> set es \<and> g = \<lparr>lsd_name = n, lsd_relative_path = path_join rel n, lsd_metadata = md'\<rparr>)"
    unfolding e c by (fastforce split: host_node.splits)
  show "ChildFile f \<in> set (ld_entries (dir_of path rel md es)) \<longleftrightarrow>
     (\<exists>n md'. (n, HostFile md') \<in> set es \<and>
        f = \<lparr>lf_name = n, lf_relative_path = path_join rel n, lf_absolute_path = path_join path n, lf_metadata = md'\<rparr>)"
    unfolding e c by (fastforce split: host_node.splits)
  show "ChildSymlink l \<in> set (ld_entries (dir_of path rel md es)) \<longleftrightarrow>
     (\<exists>n md' t. (n, HostSymlink md' t) \<in> set es \<and> l = \<lparr>lsl_name = n, lsl_target = t, lsl_metadata = md'\<rparr>)"
    unfolding e c by (fastforce split: host_node.splits)
qed

lemma scan_bottom_up:
  assumes wf: "wf_host node" and sorted: "sorted (map directory_order ls)"
    and ls: "\<And>d. d \<in> set ls \<longleftrightarrow> (\<exists>ns md es. host_at node ns = Some (HostDirectory md es) \<and> d = dir_of (join_path root ns) (join_path [] ns) md es)"
  shows "bottom_up ls"
proof -
  have valid: "\<forall>n \<in> set ns. valid_name n" if "host_at node ns = Some x" for ns x using host_at_wf [OF that wf] by simp
  have rel: "ld_relative_path (dir_of p r md es) = r" for p r md es by (simp add: dir_of_def)
  have "l = l'" if "l \<in> set ls" "l' \<in> set ls" "ld_relative_path l = ld_relative_path l'" for l l'
  proof -
    obtain ns md es ns' md' es' where l: "host_at node ns = Some (HostDirectory md es)" "l = dir_of (join_path root ns) (join_path [] ns) md es"
      and l': "host_at node ns' = Some (HostDirectory md' es')" "l' = dir_of (join_path root ns') (join_path [] ns') md' es'"
      using ls \<open>l \<in> set ls\<close> \<open>l' \<in> set ls\<close> by blast
    have "ns = ns'" using join_path_inj [OF valid [OF l(1)] valid [OF l'(1)]] that(3) l(2) l'(2) rel by simp
    with l l' show ?thesis by simp
  qed
  moreover have "\<exists>l' \<in> set ls. ld_relative_path l' = lsd_relative_path g \<and> directory_order l' < directory_order l"
    if l: "l \<in> set ls" and g: "ChildDirectory g \<in> set (ld_entries l)" for l g
  proof -
    obtain ns md es where at: "host_at node ns = Some (HostDirectory md es)" "l = dir_of (join_path root ns) (join_path [] ns) md es"
      using ls l by blast
    obtain n md' es' where n: "(n, HostDirectory md' es') \<in> set es" "lsd_relative_path g = path_join (join_path [] ns) n"
      using g at(2) dir_of_child(1) by auto
    have at': "host_at node (ns @ [n]) = Some (HostDirectory md' es')" using host_at_snoc [OF at(1) wf] n(1) by simp
    let ?l' = "dir_of (join_path root (ns @ [n])) (join_path [] (ns @ [n])) md' es'"
    have "?l' \<in> set ls" using ls at' by blast
    moreover have "directory_order ?l' < directory_order l"
      using join_path_depth [OF valid [OF at']] join_path_depth [OF valid [OF at(1)]] at(2)
      by (simp add: directory_order_def rel less_prod_def')
    ultimately show ?thesis using n(2) rel by (intro bexI [of _ ?l']) simp_all
  qed
  ultimately show ?thesis using sorted unfolding bottom_up_def by blast
qed

lemma add_children_Err:
  "children_known fds dds cs \<Longrightarrow> add_children fds dds cs b = Err e \<Longrightarrow> \<exists>te. e = UploadTree te"
proof (induction cs arbitrary: b)
  case (Cons c cs)
  have known: "children_known fds dds cs" using Cons.prems(1) by (auto simp: children_known_def)
  show ?case
  proof (cases "add_child fds dds c b")
    case (Inl e')
    with Cons.prems show ?thesis
      by (cases c) (auto simp: add_child_def children_known_def and_then_eq_Err ok_or_def map_err_def split: option.splits sum.splits)
  next
    case (Inr b')
    with Cons.IH [OF known] Cons.prems(2) show ?thesis by simp
  qed
qed simp

lemma encode_directory_Err:
  assumes "children_known fds dds (ld_entries l)" "encode_directory sha enc l fds dds = Err e"
  shows "\<exists>te. e = UploadTree te"
proof (cases "add_children fds dds (ld_entries l) (builder_with_metadata (metadata_for Directory (ld_metadata l)))")
  case (Inl e')
  with assms(2) have "e' = e" by (simp add: encode_directory_def)
  with Inl add_children_Err [OF assms(1)] show ?thesis by simp
next
  case (Inr b)
  with assms(2) have "map_err UploadTree (builder_encode sha enc b) = Err e" by (simp add: encode_directory_def)
  then show ?thesis by (cases "builder_encode sha enc b") auto
qed

lemma encode_directory_cong:
  assumes "\<And>g. ChildDirectory g \<in> set (ld_entries l) \<Longrightarrow> dds (lsd_relative_path g) = dds' (lsd_relative_path g)"
  shows "encode_directory sha enc l fds dds = encode_directory sha enc l fds dds'"
proof -
  have "add_children fds dds cs b = add_children fds dds' cs b"
    if "\<And>g. ChildDirectory g \<in> set cs \<Longrightarrow> dds (lsd_relative_path g) = dds' (lsd_relative_path g)" for cs b
    using that
  proof (induction cs arbitrary: b)
    case (Cons c cs)
    have "add_child fds dds c b = add_child fds dds' c b" using Cons.prems by (cases c) (simp_all add: add_child_def)
    with Cons show ?case by (auto intro!: arg_cong [of _ _ "and_then _"])
  qed simp
  with assms show ?thesis by (simp add: encode_directory_def)
qed

text \<open>
  Which directories can be encoded at all: only names and time stamps matter, not the digests.
\<close>

fun child_name :: "local_directory_child \<Rightarrow> string" where
  "child_name (ChildFile f) = lf_name f"
| "child_name (ChildDirectory g) = lsd_name g"
| "child_name (ChildSymlink l) = lsl_name l"

definition encodable :: "local_directory \<Rightarrow> bool" where
  "encodable l \<longleftrightarrow> builder_ok (directory_builder_of Map.empty Map.empty l)"

lemma entries_digests:
  "map fe_name (file_entries ds cs) = map fe_name (file_entries Map.empty cs)"
  "map de_name (directory_entries_of ds cs) = map de_name (directory_entries_of Map.empty cs)"
  "fe_metadata ` set (file_entries ds cs) = fe_metadata ` set (file_entries Map.empty cs)"
  "de_metadata ` set (directory_entries_of ds cs) = de_metadata ` set (directory_entries_of Map.empty cs)"
  by (induction cs; force simp: file_entries_def directory_entries_of_def split: local_directory_child.splits)+

lemma builder_ok_encodable: "builder_ok (directory_builder_of fds dds l) \<longleftrightarrow> encodable l"
proof -
  have "(\<forall>e \<in> set (file_entries fds cs). P (fe_metadata e)) \<longleftrightarrow> (\<forall>m \<in> fe_metadata ` set (file_entries fds cs). P m)"
    "(\<forall>e \<in> set (directory_entries_of dds cs). P (de_metadata e)) \<longleftrightarrow> (\<forall>m \<in> de_metadata ` set (directory_entries_of dds cs). P m)" for P fds dds cs
    by simp_all
  note ball = this
  show ?thesis
    unfolding encodable_def builder_ok_def builder_names_def directory_builder_of_def directory_builder.simps ball
      entries_digests [of fds "ld_entries l"] entries_digests [of dds "ld_entries l"] ..
qed

lemma add_children_total:
  "children_known fds dds cs \<Longrightarrow> \<forall>c \<in> set cs. valid_name (child_name c) \<Longrightarrow> \<exists>b'. add_children fds dds cs b = Ok b'"
proof (induction cs arbitrary: b)
  case (Cons c cs)
  have known: "children_known fds dds cs" using Cons.prems(1) by (auto simp: children_known_def)
  have "\<exists>b'. add_child fds dds c b = Ok b'"
    using Cons.prems by (cases c) (auto simp: add_child_def children_known_def result_simps)
  with Cons.IH [OF known] Cons.prems(2) show ?case by (auto simp: result_simps)
qed simp

lemma encode_directory_is_ok:
  assumes "children_known fds dds (ld_entries l)" "\<forall>c \<in> set (ld_entries l). valid_name (child_name c)"
  shows "is_ok (encode_directory sha enc l fds dds) \<longleftrightarrow> encodable l"
proof -
  obtain b where b: "add_children fds dds (ld_entries l) (builder_with_metadata (metadata_for Directory (ld_metadata l))) = Ok b"
    using add_children_total [OF assms] by blast
  have "b = directory_builder_of fds dds l"
    using add_children_Ok [OF b] by (simp add: builder_with_metadata_def directory_builder_of_def)
  with b builder_encode_is_ok [of sha enc b] show ?thesis
    by (simp add: encode_directory_def builder_ok_encodable is_ok_iff result_simps)
qed

text \<open>A directory is encoded in a result when its digest there is that of its encoding under the digests of the result.\<close>

definition encoded_in ::
  "(bytes \<Rightarrow> string) \<Rightarrow> (directory \<Rightarrow> bytes) \<Rightarrow> (string \<rightharpoonup> digest) \<Rightarrow> (string \<rightharpoonup> digest) \<Rightarrow> encoded_directory list \<Rightarrow> local_directory \<Rightarrow> bool" where
  "encoded_in sha enc fds dds eds l \<longleftrightarrow>
     (\<exists>ed \<in> set eds. encode_directory sha enc l fds dds = Ok ed \<and> dds (ld_relative_path l) = Some (ed_digest ed))"

definition files_known :: "(string \<rightharpoonup> digest) \<Rightarrow> local_directory \<Rightarrow> bool" where
  "files_known fds l \<longleftrightarrow> (\<forall>f. ChildFile f \<in> set (ld_entries l) \<longrightarrow> fds (lf_relative_path f) \<noteq> None)"

lemma bottom_up_child:
  "bottom_up ls \<Longrightarrow> l \<in> set ls \<Longrightarrow> ChildDirectory g \<in> set (ld_entries l) \<Longrightarrow>
     \<exists>l' \<in> set ls. ld_relative_path l' = lsd_relative_path g \<and> directory_order l' < directory_order l"
  by (simp add: bottom_up_def)

lemma bottom_up_earlier:
  assumes "bottom_up (pre @ l # ls)" "k \<in> set (pre @ [l])" "ChildDirectory g \<in> set (ld_entries k)"
  shows "lsd_relative_path g \<noteq> ld_relative_path l \<and> (\<exists>l' \<in> set pre. ld_relative_path l' = lsd_relative_path g)"
proof -
  obtain l' where l': "l' \<in> set (pre @ l # ls)" "ld_relative_path l' = lsd_relative_path g" "directory_order l' < directory_order k"
    using bottom_up_child [OF assms(1) _ assms(3)] assms(2) by auto
  have ord: "directory_order k \<le> directory_order l" "\<forall>x \<in> set ls. directory_order l \<le> directory_order x"
    using assms(1,2) unfolding bottom_up_def by (auto simp: sorted_append)
  then have "l' \<noteq> l" "l' \<notin> set ls" using l'(3) by fastforce+
  then have "l' \<in> set pre" using l'(1) by auto
  moreover have "ld_relative_path l' \<noteq> ld_relative_path l"
    using assms(1) l'(1) \<open>l' \<noteq> l\<close> unfolding bottom_up_def by force
  ultimately show ?thesis using l'(2) by auto
qed

lemma encoded_in_step:
  assumes b: "bottom_up (pre @ l # ls)" and pre: "\<forall>k \<in> set pre. encoded_in sha enc fds dds eds k"
    and ed: "encode_directory sha enc l fds dds = Ok ed"
  shows "\<forall>k \<in> set (pre @ [l]). encoded_in sha enc fds (dds(ld_relative_path l \<mapsto> ed_digest ed)) (eds @ [ed]) k"
proof
  fix k assume k: "k \<in> set (pre @ [l])"
  let ?dds = "dds(ld_relative_path l \<mapsto> ed_digest ed)"
  have cong: "encode_directory sha enc k fds ?dds = encode_directory sha enc k fds dds"
    using bottom_up_earlier [OF b k] by (intro encode_directory_cong) auto
  show "encoded_in sha enc fds ?dds (eds @ [ed]) k"
  proof (cases "k = l")
    case True
    with ed cong show ?thesis by (simp add: encoded_in_def)
  next
    case False
    then have "ld_relative_path k \<noteq> ld_relative_path l" using b k unfolding bottom_up_def by auto
    with False k pre cong show ?thesis by (auto simp: encoded_in_def)
  qed
qed

lemma encode_directories_run:
  "bottom_up (pre @ ls) \<Longrightarrow> \<forall>k \<in> set pre. encoded_in sha enc fds dds eds k \<Longrightarrow>
     \<forall>l \<in> set ls. files_known fds l \<and> (\<forall>c \<in> set (ld_entries l). valid_name (child_name c)) \<Longrightarrow>
     case encode_directories sha enc fds ls dds eds w of
       Inl e \<Rightarrow> (\<exists>te. upload_root_cause e = UploadTree te) \<and> (\<exists>l \<in> set ls. \<not> encodable l)
     | Inr (dds', eds', w') \<Rightarrow> \<forall>k \<in> set (pre @ ls). encoded_in sha enc fds dds' eds' k"
proof (induction ls arbitrary: pre dds eds w)
  case (Cons l ls)
  have known: "children_known fds dds (ld_entries l)"
    using Cons.prems bottom_up_earlier [OF Cons.prems(1), of l] by (fastforce simp: children_known_def files_known_def encoded_in_def)
  have names: "\<forall>c \<in> set (ld_entries l). valid_name (child_name c)" using Cons.prems(3) by simp
  show ?case
  proof (cases "encode_directory sha enc l fds dds")
    case (Inl e)
    with encode_directory_Err [OF known] encode_directory_is_ok [OF known names, of sha enc] show ?thesis by fastforce
  next
    case (Inr ed)
    note step = encoded_in_step [OF Cons.prems(1,2) Inr]
    have "bottom_up ((pre @ [l]) @ ls)" "\<forall>l \<in> set ls. files_known fds l \<and> (\<forall>c \<in> set (ld_entries l). valid_name (child_name c))"
      using Cons.prems by simp_all
    note ih = Cons.IH [OF this(1) step this(2), of "warnings_merge w (ed_warnings ed)", unfolded append_assoc append_Cons append_Nil]
    have run: "encode_directories sha enc fds (l # ls) dds eds w = encode_directories sha enc fds ls (dds(ld_relative_path l \<mapsto> ed_digest ed))
        (eds @ [ed]) (warnings_merge w (ed_warnings ed))" using Inr by simp
    show ?thesis using ih unfolding run
      by (cases "encode_directories sha enc fds ls (dds(ld_relative_path l \<mapsto> ed_digest ed)) (eds @ [ed]) (warnings_merge w (ed_warnings ed))")
        (simp_all only: sum.case, auto)
  qed
qed simp

section \<open>Scanned, hashed and encoded\<close>

definition file_of :: "string \<Rightarrow> string list \<Rightarrow> fs_metadata \<Rightarrow> local_file" where
  "file_of root ns md = \<lparr>lf_name = last ns, lf_relative_path = join_path [] ns, lf_absolute_path = join_path root ns, lf_metadata = md\<rparr>"

lemma file_below_at:
  "file_below path rel es f \<Longrightarrow> wf_entries es \<Longrightarrow> \<exists>ns fmd. ns \<noteq> [] \<and> host_at (HostDirectory md es) ns = Some (HostFile fmd) \<and>
     f = \<lparr>lf_name = last ns, lf_relative_path = join_path rel ns, lf_absolute_path = join_path path ns, lf_metadata = fmd\<rparr>"
proof (induction path rel es f arbitrary: md rule: file_below.induct)
  case (direct n fmd es path rel)
  then have "host_at (HostDirectory md es) [n] = Some (HostFile fmd)" by auto
  then show ?case by (intro exI [of _ "[n]"]) auto
next
  case (deeper_file n md1 es1 es path rel f)
  then have "wf_entries es1" by force
  with deeper_file.IH [of md1] obtain ns fmd where "ns \<noteq> []" "host_at (HostDirectory md1 es1) ns = Some (HostFile fmd)"
    "f = \<lparr>lf_name = last ns, lf_relative_path = join_path (path_join rel n) ns, lf_absolute_path = join_path (path_join path n) ns, lf_metadata = fmd\<rparr>"
    by blast
  moreover have "map_of es n = Some (HostDirectory md1 es1)" using deeper_file.hyps(1) deeper_file.prems by simp
  ultimately show ?case by (intro exI [of _ "n # ns"]) auto
qed

lemma file_below_iff_at:
  assumes "wf_entries es"
  shows "file_below root [] es f \<longleftrightarrow> (\<exists>ns fmd. host_at (HostDirectory md es) ns = Some (HostFile fmd) \<and> f = file_of root ns fmd)"
proof
  assume "file_below root [] es f"
  from file_below_at [OF this assms] show "\<exists>ns fmd. host_at (HostDirectory md es) ns = Some (HostFile fmd) \<and> f = file_of root ns fmd"
    unfolding file_of_def by blast
next
  assume "\<exists>ns fmd. host_at (HostDirectory md es) ns = Some (HostFile fmd) \<and> f = file_of root ns fmd"
  then obtain ns fmd where at: "host_at (HostDirectory md es) ns = Some (HostFile fmd)" and f: "f = file_of root ns fmd" by blast
  then obtain ms n where ns: "ns = ms @ [n]" by (cases ns rule: rev_cases) auto
  from at_file_below [of md es ms n fmd root "[]"] at show "file_below root [] es f"
    unfolding f file_of_def ns by (simp only: last_snoc)
qed

lemma list_all2_mem:
  "list_all2 P xs ys \<Longrightarrow> x \<in> set xs \<Longrightarrow> \<exists>y \<in> set ys. P x y"
  "list_all2 P xs ys \<Longrightarrow> y \<in> set ys \<Longrightarrow> \<exists>x \<in> set xs. P x y"
  by (induction xs ys rule: list_all2_induct) auto

lemma map_of_unique:
  assumes "(k, v) \<in> set xs" "\<And>v'. (k, v') \<in> set xs \<Longrightarrow> v' = v"
  shows "map_of xs k = Some v"
proof -
  obtain v' where "map_of xs k = Some v'" using weak_map_of_SomeI [OF assms(1)] by blast
  with assms(2) [OF map_of_SomeD [OF this]] show ?thesis by simp
qed

text \<open>The digest recorded for the path of a file is that of the content read from it.\<close>

lemma hashed_at:
  assumes wf: "wf_host node" and files: "\<And>f. f \<in> set files \<longleftrightarrow> (\<exists>ns fmd. host_at node ns = Some (HostFile fmd) \<and> f = file_of root ns fmd)"
    and hash: "hash_files sha h completes files opts = Ok fds" and at: "host_at node ns = Some (HostFile fmd)"
  shows "\<exists>content. read_content h (join_path root ns) = Some content \<and> um_len fmd = of_nat (length content) \<and>
    valid_digest (for_bytes sha content) \<and> digest_by_path fds (join_path [] ns) = Some (for_bytes sha content)"
proof -
  obtain ds where ds: "set fds = set ds" "list_all2 (\<lambda>file fd. hash_file sha h file = Ok fd) files ds"
    using hash_files_Ok [OF hash] by (auto dest: mset_eq_setD)
  have "file_of root ns fmd \<in> set files" using files at by blast
  then obtain fd where fd: "fd \<in> set ds" "hash_file sha h (file_of root ns fmd) = Ok fd"
    using list_all2_mem(1) [OF ds(2)] by blast
  obtain content where c: "fd_relative_path fd = join_path [] ns" "read_content h (join_path root ns) = Some content"
    "fd_digest fd = for_bytes sha content" "valid_digest (fd_digest fd)" "um_len fmd = of_nat (length content)"
    using hash_file_Ok [OF fd(2)] by (auto simp: file_of_def)
  have unique: "fd_digest fd' = fd_digest fd" if fd': "fd' \<in> set fds" "fd_relative_path fd' = join_path [] ns" for fd'
  proof -
    obtain f where f: "f \<in> set files" "hash_file sha h f = Ok fd'"
      using fd'(1) ds(1) list_all2_mem(2) [OF ds(2)] by blast
    obtain ms fmd' where ms: "host_at node ms = Some (HostFile fmd')" "f = file_of root ms fmd'" using files f(1) by blast
    have "join_path [] ms = join_path [] ns" using hash_file_Ok [OF f(2)] fd'(2) ms(2) by (simp add: file_of_def)
    then have "ms = ns" using join_path_inj host_at_wf [OF ms(1) wf] host_at_wf [OF at wf] by blast
    with ms at f(2) fd(2) show ?thesis by simp
  qed
  have "digest_by_path fds (join_path [] ns) = Some (fd_digest fd)"
    unfolding digest_by_path_def
  proof (rule map_of_unique)
    show "(join_path [] ns, fd_digest fd) \<in> set (rev (map (\<lambda>file. (fd_relative_path file, fd_digest file)) fds))"
      unfolding set_rev set_map by (rule image_eqI [of _ _ fd]) (use fd(1) ds(1) c(1) in simp_all)
    fix v assume "(join_path [] ns, v) \<in> set (rev (map (\<lambda>file. (fd_relative_path file, fd_digest file)) fds))"
    then obtain fd' where "fd' \<in> set fds" "fd_relative_path fd' = join_path [] ns" "v = fd_digest fd'" unfolding set_rev set_map by force
    with unique [OF this(1,2)] show "v = fd_digest fd" by argo
  qed
  with c show ?thesis by auto
qed

text \<open>The time stamp of a node can be encoded; nodes of other types are not encoded.\<close>

fun stamped :: "host_node \<Rightarrow> bool" where
  "stamped (HostSpecial md kind) \<longleftrightarrow> True"
| "stamped (HostFile md) \<longleftrightarrow> valid_timestamp \<lparr>ts_seconds = um_mtime md, ts_nanos = as_i32 (um_mtime_nsec md)\<rparr>"
| "stamped (HostDirectory md entries) \<longleftrightarrow> valid_timestamp \<lparr>ts_seconds = um_mtime md, ts_nanos = as_i32 (um_mtime_nsec md)\<rparr>"
| "stamped (HostSymlink md target) \<longleftrightarrow> valid_timestamp \<lparr>ts_seconds = um_mtime md, ts_nanos = as_i32 (um_mtime_nsec md)\<rparr>"

lemma metadata_ok_for: "metadata_ok (metadata_for k md) \<longleftrightarrow> valid_timestamp \<lparr>ts_seconds = um_mtime md, ts_nanos = as_i32 (um_mtime_nsec md)\<rparr>"
  by (simp add: metadata_ok_def metadata_for_def)

definition entries_stamped :: "local_directory_child list \<Rightarrow> bool" where
  "entries_stamped cs \<longleftrightarrow> (\<forall>e \<in> set (file_entries Map.empty cs). metadata_ok (fe_metadata e)) \<and>
     (\<forall>e \<in> set (directory_entries_of Map.empty cs). metadata_ok (de_metadata e)) \<and> (\<forall>e \<in> set (symlink_entries cs). metadata_ok (se_metadata e))"

lemma entries_stamped_append: "entries_stamped (cs @ cs') \<longleftrightarrow> entries_stamped cs \<and> entries_stamped cs'"
  unfolding entries_stamped_def file_entries_def directory_entries_of_def symlink_entries_def map_append concat_append set_append ball_Un by argo

lemma entries_stamped_child: "entries_stamped (child_of path rel (n, node)) \<longleftrightarrow> stamped node"
  by (cases node) (simp_all add: entries_stamped_def file_entries_def directory_entries_of_def symlink_entries_def metadata_ok_for)

lemma entries_stamped_children: "entries_stamped (concat (map (child_of path rel) es)) \<longleftrightarrow> (\<forall>e \<in> set es. stamped (snd e))"
  by (induction es) (auto simp: entries_stamped_append entries_stamped_child,
      simp add: entries_stamped_def file_entries_def directory_entries_of_def symlink_entries_def)

definition entry_names :: "local_directory_child list \<Rightarrow> string list" where
  "entry_names cs = map fe_name (file_entries Map.empty cs) @ map de_name (directory_entries_of Map.empty cs) @ map se_name (symlink_entries cs)"

lemma mset_entry_names: "mset (entry_names cs) = mset (map child_name cs)"
proof (induction cs)
  case (Cons c cs)
  then show ?case by (cases c) (simp_all add: entry_names_def file_entries_def directory_entries_of_def symlink_entries_def)
qed (simp add: entry_names_def file_entries_def directory_entries_of_def symlink_entries_def)

lemma child_names: "set (map child_name (concat (map (child_of path rel) es))) \<subseteq> fst ` set es"
  "distinct (map fst es) \<Longrightarrow> distinct (map child_name (concat (map (child_of path rel) es)))"
proof -
  show sub: "set (map child_name (concat (map (child_of path rel) es))) \<subseteq> fst ` set es" for es
  proof (induction es)
    case (Cons e es)
    obtain n node where "e = (n, node)" by fastforce
    with Cons show ?case by (cases node) auto
  qed simp
  show "distinct (map fst es) \<Longrightarrow> distinct (map child_name (concat (map (child_of path rel) es)))"
  proof (induction es)
    case (Cons e es)
    obtain n node where e: "e = (n, node)" by fastforce
    with Cons sub [of es] show ?case by (cases node) auto
  qed simp
qed

lemma encodable_dir_of:
  assumes "wf_entries es"
  shows "encodable (dir_of path rel md es) \<longleftrightarrow> stamped (HostDirectory md es) \<and> (\<forall>e \<in> set es. stamped (snd e))"
    and "\<forall>c \<in> set (ld_entries (dir_of path rel md es)). valid_name (child_name c)"
proof -
  let ?cs = "concat (map (child_of path rel) (sort_key fst es))"
  have d: "distinct (map fst (sort_key fst es))" using assms by (metis mset_eq_imp_distinct_iff mset_map mset_sort)
  have "distinct (entry_names ?cs)"
    using child_names(2) [OF d] mset_entry_names by (metis mset_eq_imp_distinct_iff)
  moreover have "encodable (dir_of path rel md es) \<longleftrightarrow> distinct (entry_names ?cs) \<and> metadata_ok (metadata_for Directory md) \<and> entries_stamped ?cs"
    by (simp add: encodable_def builder_ok_def directory_builder_of_def dir_of_def builder_names_def entry_names_def entries_stamped_def)
  ultimately show "encodable (dir_of path rel md es) \<longleftrightarrow> stamped (HostDirectory md es) \<and> (\<forall>e \<in> set es. stamped (snd e))"
    by (simp add: entries_stamped_children metadata_ok_for)
  show "\<forall>c \<in> set (ld_entries (dir_of path rel md es)). valid_name (child_name c)"
  proof
    fix c assume "c \<in> set (ld_entries (dir_of path rel md es))"
    then have "child_name c \<in> set (map child_name ?cs)" unfolding set_map by (intro imageI) (simp only: dir_of_def local_directory.simps)
    with child_names(1) [of path rel "sort_key fst es"] have "child_name c \<in> fst ` set es" by auto
    with assms show "valid_name (child_name c)" by auto
  qed
qed

text \<open>What hashing and encoding a scanned tree gives.\<close>

definition hashed_files :: "(bytes \<Rightarrow> string) \<Rightarrow> upload_host \<Rightarrow> string \<Rightarrow> host_node \<Rightarrow> (string \<rightharpoonup> digest) \<Rightarrow> bool" where
  "hashed_files sha h root base fds \<longleftrightarrow> (\<forall>ns fmd. host_at base ns = Some (HostFile fmd) \<longrightarrow>
     (\<exists>content. read_content h (join_path root ns) = Some content \<and> um_len fmd = of_nat (length content) \<and>
        valid_digest (for_bytes sha content) \<and> fds (join_path [] ns) = Some (for_bytes sha content)))"

definition encoded_directories ::
  "(bytes \<Rightarrow> string) \<Rightarrow> (directory \<Rightarrow> bytes) \<Rightarrow> string \<Rightarrow> host_node \<Rightarrow> (string \<rightharpoonup> digest) \<Rightarrow> (string \<rightharpoonup> digest) \<Rightarrow> encoded_directory list \<Rightarrow> bool" where
  "encoded_directories sha enc root base fds dds eds \<longleftrightarrow> (\<forall>ns md es. host_at base ns = Some (HostDirectory md es) \<longrightarrow>
     encoded_in sha enc fds dds eds (dir_of (join_path root ns) (join_path [] ns) md es))"

lemma encode_scanned:
  assumes scan: "scan_local_directory_with_options h root node opts = Ok tree" and wf: "pred_option wf_host node"
    and hash: "hash_files sha h completes (lt_files tree) opts' = Ok fds"
  shows "\<exists>base. node = Some base \<and> wf_host base \<and> (\<exists>md es. base = HostDirectory md es) \<and> hashed_files sha h root base (digest_by_path fds) \<and>
    (case encode_local_tree sha enc tree fds of
       Inl e \<Rightarrow> (\<exists>te. upload_root_cause e = UploadTree te) \<and> (\<exists>ns n. host_at base ns = Some n \<and> \<not> stamped n)
     | Inr t \<Rightarrow> \<exists>dds. dds [] = Some (et_root_digest t) \<and> encoded_directories sha enc root base (digest_by_path fds) dds (et_directories t))"
proof -
  obtain md es where n: "node = Some (HostDirectory md es)" and wft: "wf_host (HostDirectory md es)"
    and dirs: "\<And>d. d \<in> set (lt_directories tree) \<longleftrightarrow> (\<exists>ns md' es'. host_at (HostDirectory md es) ns = Some (HostDirectory md' es') \<and>
       d = dir_of (join_path root ns) (join_path [] ns) md' es')"
    and files: "\<And>f. f \<in> set (lt_files tree) \<longleftrightarrow> file_below root [] es f" and sorted: "sorted (map directory_order (lt_directories tree))"
    using scan_tree_Ok [OF scan wf] by blast
  let ?top = "HostDirectory md es" and ?ls = "lt_directories tree" and ?fds = "digest_by_path fds"
  have wfe: "wf_entries es" using wft by simp
  have files': "f \<in> set (lt_files tree) \<longleftrightarrow> (\<exists>ns fmd. host_at ?top ns = Some (HostFile fmd) \<and> f = file_of root ns fmd)" for f
    using files file_below_iff_at [OF wfe] by blast
  note hashed = hashed_at [OF wft files' hash]
  have b: "bottom_up ([] @ ?ls)" using scan_bottom_up [OF wft sorted dirs] by simp
  have good: "files_known ?fds l \<and> (\<forall>c \<in> set (ld_entries l). valid_name (child_name c))" if l: "l \<in> set ?ls" for l
  proof -
    obtain ns md' es' where at: "host_at ?top ns = Some (HostDirectory md' es')" "l = dir_of (join_path root ns) (join_path [] ns) md' es'"
      using dirs l by blast
    have wf': "wf_entries es'" using host_at_wf [OF at(1) wft] by simp
    have "?fds (lf_relative_path f) \<noteq> None" if cf: "ChildFile f \<in> set (ld_entries l)" for f
    proof -
      obtain n fmd where "(n, HostFile fmd) \<in> set es'" "lf_relative_path f = join_path [] (ns @ [n])"
        using cf unfolding at(2) dir_of_child(2) by auto
      with host_at_snoc [OF at(1) wft] hashed show ?thesis by fastforce
    qed
    with encodable_dir_of(2) [OF wf'] at(2) show ?thesis by (auto simp: files_known_def)
  qed
  have unst: "\<exists>ns n. host_at ?top ns = Some n \<and> \<not> stamped n" if l: "l \<in> set ?ls" "\<not> encodable l" for l
  proof -
    obtain ns md' es' where at: "host_at ?top ns = Some (HostDirectory md' es')" "l = dir_of (join_path root ns) (join_path [] ns) md' es'"
      using dirs l by blast
    have wf': "wf_entries es'" using host_at_wf [OF at(1) wft] by simp
    then consider "\<not> stamped (HostDirectory md' es')" | n x where "(n, x) \<in> set es'" "\<not> stamped x"
      using encodable_dir_of(1) [OF wf'] l(2) at(2) by force
    then show ?thesis using at(1) host_at_snoc [OF at(1) wft] by cases blast+
  qed
  have all: "\<forall>l \<in> set ?ls. files_known ?fds l \<and> (\<forall>c \<in> set (ld_entries l). valid_name (child_name c))" using good by blast
  have "\<forall>k \<in> set []. encoded_in sha enc ?fds Map.empty [] k" by simp
  note run = encode_directories_run [OF b this all, of no_warnings, unfolded append_Nil]
  have "case encode_local_tree sha enc tree fds of
       Inl e \<Rightarrow> (\<exists>te. upload_root_cause e = UploadTree te) \<and> (\<exists>ns n. host_at ?top ns = Some n \<and> \<not> stamped n)
     | Inr t \<Rightarrow> \<exists>dds. dds [] = Some (et_root_digest t) \<and> encoded_directories sha enc root ?top ?fds dds (et_directories t)"
  proof (cases "encode_directories sha enc ?fds ?ls Map.empty [] no_warnings")
    case (Inl e)
    then have "encode_local_tree sha enc tree fds = Err e" by (simp add: encode_local_tree_def)
    with run Inl unst show ?thesis by auto
  next
    case (Inr r)
    obtain dds eds w where r: "r = (dds, eds, w)" by (cases r)
    have enc_in: "encoded_in sha enc ?fds dds eds (dir_of (join_path root ns) (join_path [] ns) md' es')"
      if at: "host_at ?top ns = Some (HostDirectory md' es')" for ns md' es'
    proof -
      have "dir_of (join_path root ns) (join_path [] ns) md' es' \<in> set ?ls" using dirs at by blast
      with run Inr r show ?thesis by simp
    qed
    have "encoded_in sha enc ?fds dds eds (dir_of root [] md es)" using enc_in [of "[]" md es] by simp
    then obtain d where d: "dds [] = Some d" by (auto simp: encoded_in_def dir_of_def)
    then have "\<exists>t. encode_local_tree sha enc tree fds = Ok t \<and> et_root_digest t = d \<and> et_directories t = eds"
      using Inr r by (simp add: encode_local_tree_def)
    with d enc_in show ?thesis by (auto simp: encoded_directories_def intro!: exI [of _ dds])
  qed
  moreover have "hashed_files sha h root ?top ?fds" using hashed unfolding hashed_files_def by blast
  ultimately show ?thesis using n wft by blast
qed

section \<open>A small upload\<close>

definition demo_upload_md :: fs_metadata where
  "demo_upload_md = \<lparr>um_mode = 0x81A4, um_mtime = 5, um_mtime_nsec = 6, um_dev = 1, um_ino = 2, um_len = 0\<rparr>"

definition demo_upload_entries :: "(string \<times> host_node) list" where
  "demo_upload_entries = [(''b'', HostFile demo_upload_md), (''a'', HostSymlink demo_upload_md ''b'')]"

definition demo_upload_host :: upload_host where
  "demo_upload_host = \<lparr>uh_fault = (\<lambda>_ _. None), uh_utf8 = (\<lambda>_. True), uh_open = (\<lambda>_. Ok [])\<rparr>"

abbreviation demo_upload_enc :: "directory \<Rightarrow> bytes" where
  "demo_upload_enc \<equiv> \<lambda>_. []"

abbreviation demo_upload_options :: upload_options where
  "demo_upload_options \<equiv> default_upload_options None"

abbreviation demo_upload_root :: local_directory where
  "demo_upload_root \<equiv> dir_of ''/u'' [] demo_upload_md demo_upload_entries"

definition demo_upload_tree :: local_tree where
  "demo_upload_tree = \<lparr>lt_root = ''/u'', lt_directories = [demo_upload_root], lt_files = [file_of ''/u'' [''b''] demo_upload_md],
     lt_symlinks = 1, lt_warnings = no_upload_warnings\<rparr>"

definition demo_upload_digests :: "file_digest list" where
  "demo_upload_digests = [\<lparr>fd_relative_path = ''b'', fd_absolute_path = ''/u/b'', fd_digest = for_bytes demo_sha [], fd_size_bytes = 0\<rparr>]"

lemma demo_upload_wf: "pred_option wf_host (Some (HostDirectory demo_upload_md demo_upload_entries))"
  by (simp add: demo_upload_entries_def valid_name_def)

lemma demo_upload_valid: "validate_options demo_upload_options = Ok ()"
  by (simp add: validate_options_def default_upload_options_def default_hash_workers_def default_hash_workers_for_def
      MIN_DEFAULT_HASH_WORKERS_def DEFAULT_IN_FLIGHT_BYTES_def)

lemma demo_upload_scan:
  "scan_local_directory_with_options demo_upload_host ''/u'' (Some (HostDirectory demo_upload_md demo_upload_entries)) demo_upload_options =
     Ok demo_upload_tree"
  by (simp add: scan_local_directory_with_options_def demo_upload_host_def demo_upload_entries_def demo_upload_tree_def
      demo_upload_valid component_name_def path_file_name_def path_join_def Let_def scan_state_default_def record_file_def dir_of_def file_of_def)

lemma demo_upload_hash:
  "hash_files demo_sha demo_upload_host (\<lambda>_. True) (lt_files demo_upload_tree) demo_upload_options = Ok demo_upload_digests"
proof -
  have "digest_new (demo_sha []) 0 = Ok (for_bytes demo_sha [])"
    using digest_new_valid [OF for_bytes_valid [OF demo_sha_ok, of "[]"]] by (simp add: for_bytes_def as_i64_def)
  then show ?thesis
    by (simp add: hash_files_def demo_upload_valid demo_upload_tree_def demo_upload_host_def file_of_def hash_file_def Let_def
        demo_upload_md_def path_join_def demo_upload_digests_def)
qed

definition demo_encoded :: encoded_directory where
  "demo_encoded = (let b = directory_builder_of (digest_by_path demo_upload_digests) Map.empty demo_upload_root in
     \<lparr>ed_digest = for_bytes demo_sha [], ed_bytes = [], ed_directory = canonical_directory b, ed_warnings = builder_warnings b\<rparr>)"

definition demo_encoded_tree :: encoded_directory_tree where
  "demo_encoded_tree = \<lparr>et_root_digest = for_bytes demo_sha [], et_directories = [demo_encoded],
     et_file_blobs = [(for_bytes demo_sha [], ''/u/b'')], et_warnings = warnings_merge no_warnings (ed_warnings demo_encoded)\<rparr>"

lemma demo_encode_directory:
  "encode_directory demo_sha demo_upload_enc demo_upload_root (digest_by_path demo_upload_digests) Map.empty = Ok demo_encoded"
proof -
  have wf: "wf_entries demo_upload_entries" by (simp add: demo_upload_entries_def valid_name_def)
  have "encodable demo_upload_root"
    unfolding encodable_dir_of(1) [OF wf]
    by (simp add: demo_upload_entries_def demo_upload_md_def valid_timestamp_def as_i32_def MIN_TIMESTAMP_SECONDS_def MAX_TIMESTAMP_SECONDS_def)
  moreover have "children_known (digest_by_path demo_upload_digests) Map.empty (ld_entries demo_upload_root)"
    by (auto simp: children_known_def dir_of_def demo_upload_entries_def digest_by_path_def demo_upload_digests_def path_join_def)
  ultimately obtain ed where ed: "encode_directory demo_sha demo_upload_enc demo_upload_root (digest_by_path demo_upload_digests) Map.empty = Ok ed"
    using encode_directory_is_ok [OF _ encodable_dir_of(2) [OF wf]] unfolding is_ok_iff by blast
  from encode_directory_Ok [OF this] have "ed = demo_encoded" by (cases ed) (simp add: demo_encoded_def Let_def)
  with ed show ?thesis by simp
qed

lemma demo_upload_encode:
  "encode_local_tree demo_sha demo_upload_enc demo_upload_tree demo_upload_digests = Ok demo_encoded_tree"
proof -
  have "ld_relative_path demo_upload_root = []" "ed_digest demo_encoded = for_bytes demo_sha []"
    by (simp_all add: dir_of_def demo_encoded_def Let_def)
  then show ?thesis
    using demo_encode_directory
    by (simp add: encode_local_tree_def demo_upload_tree_def demo_encoded_tree_def) (simp add: demo_upload_digests_def)
qed

section \<open>Properties\<close>

text \<open>
  C18 The encoding of a scanned tree never misses a digest. After a successful scan and hash of a well-formed local
  tree, the bottom-up encoding succeeds exactly when every file, directory and link in the tree has a time stamp
  that the protocol can represent; the digests of all files and subdirectories are always there when a directory
  is encoded, so the only failures are those of the tree encoder.
\<close>

theorem encode_never_misses:
  assumes "scan_local_directory_with_options h root node opts = Ok tree" "pred_option wf_host node"
    and "hash_files sha h completes (lt_files tree) opts' = Ok fds"
  shows "\<exists>base. node = Some base \<and>
    ((\<exists>t. encode_local_tree sha enc tree fds = Ok t) \<longleftrightarrow> (\<forall>ns x. host_at base ns = Some x \<longrightarrow> stamped x)) \<and>
    (\<forall>e. encode_local_tree sha enc tree fds = Err e \<longrightarrow> (\<exists>te. upload_root_cause e = UploadTree te))"
proof -
  obtain base where base: "node = Some base" "wf_host base" "\<exists>md es. base = HostDirectory md es"
    and run: "case encode_local_tree sha enc tree fds of
       Inl e \<Rightarrow> (\<exists>te. upload_root_cause e = UploadTree te) \<and> (\<exists>ns n. host_at base ns = Some n \<and> \<not> stamped n)
     | Inr t \<Rightarrow> \<exists>dds. dds [] = Some (et_root_digest t) \<and> encoded_directories sha enc root base (digest_by_path fds) dds (et_directories t)"
    using encode_scanned [OF assms, of enc] by blast
  have dirs: "stamped (HostDirectory md es) \<and> (\<forall>e \<in> set es. stamped (snd e))"
    if t: "encode_local_tree sha enc tree fds = Ok t" and at: "host_at base ns = Some (HostDirectory md es)" for t ns md es
  proof -
    obtain dds where "encoded_directories sha enc root base (digest_by_path fds) dds (et_directories t)" using run t by auto
    then obtain ed where "encode_directory sha enc (dir_of (join_path root ns) (join_path [] ns) md es) (digest_by_path fds) dds = Ok ed"
      using at unfolding encoded_directories_def encoded_in_def by blast
    from encode_directory_Ok [OF this] have "encodable (dir_of (join_path root ns) (join_path [] ns) md es)" by (simp add: builder_ok_encodable)
    moreover have "wf_entries es" using host_at_wf [OF at base(2)] by simp
    ultimately show ?thesis using encodable_dir_of(1) by blast
  qed
  have "stamped x" if t: "encode_local_tree sha enc tree fds = Ok t" and x: "host_at base ns = Some x" for t ns x
  proof (cases ns rule: rev_cases)
    case Nil
    with x base(3) dirs [OF t, of "[]"] show ?thesis by auto
  next
    case (snoc ms m)
    with x obtain y where y: "host_at base ms = Some y" "host_at y [m] = Some x" by (auto simp: host_at_append bind_eq_Some_conv)
    then obtain md es where es: "y = HostDirectory md es" by (cases y) auto
    have "(m, x) \<in> set es" using host_at_snoc [OF y(1) [unfolded es] base(2)] x snoc by simp
    with dirs [OF t y(1) [unfolded es]] show ?thesis by auto
  qed
  with run base(1) show ?thesis by (cases "encode_local_tree sha enc tree fds") auto
qed

theorem encode_never_misses_witness:
  "encode_local_tree demo_sha demo_upload_enc demo_upload_tree demo_upload_digests = Ok demo_encoded_tree \<and>
     stamped (HostDirectory demo_upload_md demo_upload_entries)"
proof -
  obtain base where "Some (HostDirectory demo_upload_md demo_upload_entries) = Some base"
    "\<forall>ns x. host_at base ns = Some x \<longrightarrow> stamped x"
    using encode_never_misses [OF demo_upload_scan demo_upload_wf demo_upload_hash, of demo_upload_enc] demo_upload_encode by auto
  then have "stamped (HostDirectory demo_upload_md demo_upload_entries)" using host_at.simps(1) by blast
  with demo_upload_encode show ?thesis ..
qed

lemma upload_local_directory_Ok:
  assumes "upload_local_directory sha enc h completes order store root node opts s = (Ok summary, s')"
  shows "\<exists>tree fds t st. scan_local_directory_with_options h root node opts = Ok tree \<and>
    hash_files sha h completes (lt_files tree) opts = Ok fds \<and> encode_local_tree sha enc tree fds = Ok t \<and>
    upload_encoded_tree sha order store t s = (Ok st, s') \<and> us_root_digest summary = et_root_digest t \<and>
    us_files summary = length (lt_files tree) \<and> us_directories summary = length (lt_directories tree) \<and>
    us_uploaded_blobs summary = uo_uploaded_blobs st \<and> us_bytes_uploaded summary = uo_bytes_uploaded st"
proof -
  obtain tree t where p: "and_then (validate_options opts) (\<lambda>_.
           and_then (upload_context ''scan local upload root'' (scan_local_directory_with_options h root node opts)) (\<lambda>tree.
           and_then (upload_context ''hash files'' (hash_files sha h completes (lt_files tree) opts)) (\<lambda>file_digests.
           and_then (upload_context ''encode scanned local tree as canonical REAPI directories''
               (encode_local_tree sha enc tree file_digests)) (\<lambda>encoded. Ok (tree, encoded))))) = Ok (tree, t)" (is "?p = _")
    using assms unfolding upload_local_directory_def by (cases ?p) (auto split: prod.splits)
  then obtain fds where "scan_local_directory_with_options h root node opts = Ok tree"
    "hash_files sha h completes (lt_files tree) opts = Ok fds" "encode_local_tree sha enc tree fds = Ok t"
    by (auto simp: result_simps)
  moreover obtain r s1 where u: "upload_encoded_tree sha order store t s = (r, s1)" by fastforce
  moreover have "s1 = s'" "and_then (upload_context ''upload missing file and directory blobs to CAS'' r) (\<lambda>upload.
      Ok \<lparr>us_root_digest = et_root_digest t, us_files = length (lt_files tree), us_directories = length (lt_directories tree),
          us_symlinks = lt_symlinks tree, us_uploaded_blobs = uo_uploaded_blobs upload, us_reused_blobs = uo_reused_blobs upload,
          us_bytes_uploaded = uo_bytes_uploaded upload, us_warnings = merge_tree (lt_warnings tree) (et_warnings t)\<rparr>) = Ok summary"
    using assms unfolding upload_local_directory_def p by (simp_all add: u)
  ultimately show ?thesis by (auto simp: result_simps)
qed

lemma demo_uploads:
  "\<exists>summary w'. upload_local_directory demo_sha demo_upload_enc demo_upload_host (\<lambda>_. True) (\<lambda>xs. xs) (cas_blob_store (recording demo_client))
      ''/u'' (Some (HostDirectory demo_upload_md demo_upload_entries)) demo_upload_options \<lparr>w_remote = ((), []), w_slept = []\<rparr> = (Ok summary, w') \<and>
     us_root_digest summary = for_bytes demo_sha []"
proof -
  let ?w = "\<lparr>w_remote = ((), []), w_slept = []\<rparr> :: (unit \<times> cas_call list) world"
  let ?st = "cas_blob_store (recording demo_client)"
  have "\<exists>w1. st_find_missing_blobs ?st ds ?w = (Ok [], w1)" for ds
    by (simp add: cas_blob_store_def find_missing_blobs_def retry_rpc_def retry_from_step recording_def demo_client_def demo_channel_def Let_def parse_response_digests_def)
  moreover have "st_upload_blobs ?st [] w1 = (Ok \<lparr>uploaded_blobs = 0, bytes_uploaded = 0\<rparr>, w1)" for w1
    by (simp add: cas_blob_store_def upload_blobs_def upload_blobs_to_cas_def flush_batch_update_def batch_is_empty_def batch_new_def)
  moreover from calculation(1) obtain w1 where "st_find_missing_blobs ?st (map fst (sources_by_digest demo_sha demo_encoded_tree)) ?w = (Ok [], w1)"
    by blast
  ultimately have "\<exists>st w'. upload_encoded_tree demo_sha (\<lambda>xs. xs) ?st demo_encoded_tree ?w = (Ok st, w')"
    by (simp add: upload_encoded_tree_def)
  then show ?thesis
    by (auto simp: upload_local_directory_def demo_upload_valid demo_upload_scan demo_upload_hash demo_upload_encode demo_encoded_tree_def)
qed

text \<open>
  C9 A successful upload is complete. When \<^verbatim>\<open>upload_local_directory\<close> reports success over the CAS client, the tree
  it built is closed: the reported root is one of its directories, and every digest a directory refers to is
  that of another directory of the tree or of a file blob; the content read from each scanned file is among those blobs.
  And the service has confirmed every object of the tree, by not listing its digest as missing when asked or by acknowledging its upload.
\<close>

theorem upload_complete:
  assumes "sha256_hex_ok sha" "\<forall>xs. mset (order xs) = mset xs" "unat (batch_update_budget_bytes (cc_config c)) < 2 ^ 63"
    and "upload_local_directory sha enc h completes order (cas_blob_store (recording c)) root node opts w = (Ok summary, w')"
  shows "\<exists>tree t. scan_local_directory_with_options h root node opts = Ok tree \<and> closed_tree sha enc t \<and>
    us_root_digest summary = et_root_digest t \<and>
    (\<forall>f \<in> set (lt_files tree). \<exists>content. read_content h (lf_absolute_path f) = Some content \<and>
       (for_bytes sha content, lf_absolute_path f) \<in> set (et_file_blobs t)) \<and>
    ((\<forall>ed \<in> set (et_directories t). length (ed_bytes ed) < 2 ^ 63) \<longrightarrow>
       (\<forall>d \<in> set (tree_digests t). \<exists>b. bl_digest b = d \<and> tree_source sha t b \<and> confirmed c (call_log w') b))"
proof -
  obtain tree fds t st where scan: "scan_local_directory_with_options h root node opts = Ok tree"
    and hash: "hash_files sha h completes (lt_files tree) opts = Ok fds" and enc: "encode_local_tree sha enc tree fds = Ok t"
    and up: "upload_encoded_tree sha order (cas_blob_store (recording c)) t w = (Ok st, w')" and root: "us_root_digest summary = et_root_digest t"
    using upload_local_directory_Ok [OF assms(4)] by blast
  note closed = encode_local_tree_closed [OF enc]
  obtain ds where ds: "set fds = set ds" "list_all2 (\<lambda>file fd. hash_file sha h file = Ok fd) (lt_files tree) ds"
    using hash_files_Ok [OF hash] by (auto dest: mset_eq_setD)
  have blobs: "et_file_blobs t = map (\<lambda>file. (fd_digest file, fd_absolute_path file)) fds"
    using enc by (auto simp: encode_local_tree_def result_simps)
  have files: "\<exists>content. read_content h (lf_absolute_path f) = Some content \<and> (for_bytes sha content, lf_absolute_path f) \<in> set (et_file_blobs t)"
    if f: "f \<in> set (lt_files tree)" for f
  proof -
    obtain fd where fd: "fd \<in> set fds" "hash_file sha h f = Ok fd" using list_all2_mem(1) [OF ds(2) f] ds(1) by blast
    then have "(fd_digest fd, fd_absolute_path fd) \<in> set (et_file_blobs t)" by (simp add: blobs)
    with hash_file_Ok [OF fd(2)] show ?thesis by auto
  qed
  have "\<exists>b. bl_digest b = d \<and> tree_source sha t b \<and> confirmed c (call_log w') b"
    if small: "\<forall>ed \<in> set (et_directories t). length (ed_bytes ed) < 2 ^ 63" and d: "d \<in> set (tree_digests t)" for d
  proof -
    have "valid_digest (fst b)" if b: "b \<in> set (et_file_blobs t)" for b
    proof -
      obtain fd where fd: "fd \<in> set fds" "fst b = fd_digest fd" using b blobs by auto
      then obtain f where "hash_file sha h f = Ok fd" using list_all2_mem(2) [OF ds(2)] ds(1) by blast
      with hash_file_Ok fd(2) show ?thesis by simp
    qed
    moreover have "valid_digest (ed_digest ed)" if "ed \<in> set (et_directories t)" for ed
      using that small for_bytes_valid [OF assms(1), of "ed_bytes ed"] closed unfolding closed_tree_def by simp
    ultimately have "\<forall>d \<in> set (tree_digests t). valid_digest d" by (auto simp: tree_digests_def)
    from cas_store.tree_stored [OF up assms(2) closed this d] assms(3) show ?thesis unfolding cas_stored_def by blast
  qed
  with scan closed root files show ?thesis by blast
qed

theorem upload_complete_witness:
  "\<exists>summary w'. upload_local_directory demo_sha demo_upload_enc demo_upload_host (\<lambda>_. True) (\<lambda>xs. xs) (cas_blob_store (recording demo_client))
      ''/u'' (Some (HostDirectory demo_upload_md demo_upload_entries)) demo_upload_options \<lparr>w_remote = ((), []), w_slept = []\<rparr> = (Ok summary, w') \<and>
     (\<exists>b. bl_digest b = us_root_digest summary \<and> confirmed demo_client (call_log w') b)"
proof -
  let ?w = "\<lparr>w_remote = ((), []), w_slept = []\<rparr> :: (unit \<times> cas_call list) world"
  let ?st = "cas_blob_store (recording demo_client)"
  obtain summary w' where run: "upload_local_directory demo_sha demo_upload_enc demo_upload_host (\<lambda>_. True) (\<lambda>xs. xs) ?st ''/u''
      (Some (HostDirectory demo_upload_md demo_upload_entries)) demo_upload_options ?w = (Ok summary, w')"
    using demo_uploads by blast
  have budget: "unat (batch_update_budget_bytes (cc_config demo_client)) < 2 ^ 63" by (simp add: demo_client_def demo_config_def)
  obtain tree t where t: "scan_local_directory_with_options demo_upload_host ''/u'' (Some (HostDirectory demo_upload_md demo_upload_entries))
      demo_upload_options = Ok tree" "closed_tree demo_sha demo_upload_enc t" "us_root_digest summary = et_root_digest t"
    "(\<forall>ed \<in> set (et_directories t). length (ed_bytes ed) < 2 ^ 63) \<longrightarrow>
       (\<forall>d \<in> set (tree_digests t). \<exists>b. bl_digest b = d \<and> tree_source demo_sha t b \<and> confirmed demo_client (call_log w') b)"
    using upload_complete [OF demo_sha_ok _ budget run] by blast
  have "\<forall>ed \<in> set (et_directories t). length (ed_bytes ed) < 2 ^ 63" "et_root_digest t \<in> set (tree_digests t)"
    using t(2) by (auto simp: closed_tree_def tree_digests_def)
  with t(3,4) run show ?thesis by metis
qed

end
