(* ===== verification/Roundtrip.thy ===== *)
theory Roundtrip
  imports Snapshot Upload
begin

text \<open>
  What is uploaded is what is mounted: the snapshot of the root digest that an upload reports
  (\<^verbatim>\<open>upload.rs\<close>, \<^verbatim>\<open>tree.rs\<close>), read back as a session reads it (\<^verbatim>\<open>session.rs\<close>), is the local tree that was scanned.
  This theory models no code of its own.
\<close>

section \<open>Decoding a canonical directory\<close>

definition decoded_mtime :: "timestamp \<Rightarrow> node_time" where
  "decoded_mtime t = \<lparr>nt_seconds = ts_seconds t, nt_nanos = word_of_int (ts_nanos t)\<rparr>"

definition remote_entry :: "string \<Rightarrow> node_metadata \<Rightarrow> remote_content \<Rightarrow> new_remote_inode" where
  "remote_entry name md content =
     \<lparr>nr_name = name, nr_mode = nm_mode (norm_metadata md), nr_mtime = map_option decoded_mtime (nm_mtime md), nr_content = content\<rparr>"

lemma remote_entry_sel [simp]:
  "nr_name (remote_entry n md c) = n" "nr_content (remote_entry n md c) = c"
  by (simp_all add: remote_entry_def)

lemma node_time_of_timestamp:
  assumes "valid_timestamp t"
  shows "node_time_new (ts_seconds t) (word_of_int (ts_nanos t)) = Some (decoded_mtime t)"
proof -
  have "unat (word_of_int (ts_nanos t) :: u32) = nat (ts_nanos t)"
    using assms by (simp add: valid_timestamp_def unat_eq_nat_uint uint_word_of_int)
  then have "(word_of_int (ts_nanos t) :: u32) < 1000000000"
    using assms by (auto simp: word_less_nat_alt valid_timestamp_def nat_less_iff)
  with assms show ?thesis
    by (simp add: node_time_new_def decoded_mtime_def valid_timestamp_def SESSION_MIN_TIMESTAMP_SECONDS_def
        SESSION_MAX_TIMESTAMP_SECONDS_def MIN_TIMESTAMP_SECONDS_def MAX_TIMESTAMP_SECONDS_def)
qed

lemma decode_norm_props:
  assumes "metadata_ok md"
  shows "decode_node_metadata (norm_props md) = Ok (nm_mode (norm_metadata md), map_option decoded_mtime (nm_mtime md))"
  using assms node_time_of_timestamp
  by (cases "nm_mtime md"; cases "nm_mode md")
    (simp_all add: decode_node_metadata_def norm_props_def into_node_properties_def norm_metadata_def metadata_ok_def
      conv_simps valid_timestamp_def)

lemma decoded_canonical:
  assumes "builder_ok b" "built b"
  shows "decoded_directory_children (canonical_directory b) = Ok (
    map (\<lambda>e. remote_entry (fe_name e) (fe_metadata e) (RemoteFile (fe_digest e))) (sort_key fe_name (b_files b)) @
    map (\<lambda>e. remote_entry (de_name e) (de_metadata e) (RemoteDirectory (de_digest e))) (sort_key de_name (b_directories b)) @
    map (\<lambda>e. remote_entry (se_name e) (se_metadata e) (RemoteSymlink (se_target e))) (sort_key se_name (b_symlinks b)))"
proof -
  note valid = built_digests [OF assms(2)]
  have digest: "remote_digest (Some (to_reapi d)) = Ok d" if "valid_digest d" for d using that by (simp add: remote_digest_def)
  have "collect decode_file_child (map file_node_of (sort_key fe_name (b_files b))) =
      Ok (map (\<lambda>e. remote_entry (fe_name e) (fe_metadata e) (RemoteFile (fe_digest e))) (sort_key fe_name (b_files b)))"
    unfolding collect_eq_Ok list_all2_map1 list_all2_map2
    using assms(1) valid digest by (auto simp: list_all2_same decode_file_child_def file_node_of_def decode_norm_props builder_ok_def remote_entry_def)
  moreover have "collect decode_directory_child (map directory_node_of (sort_key de_name (b_directories b))) =
      Ok (map (\<lambda>e. remote_entry (de_name e) (de_metadata e) (RemoteDirectory (de_digest e))) (sort_key de_name (b_directories b)))"
    unfolding collect_eq_Ok list_all2_map1 list_all2_map2
    using assms(1) valid digest by (auto simp: list_all2_same decode_directory_child_def directory_node_of_def decode_norm_props builder_ok_def remote_entry_def)
  moreover have "collect decode_symlink_child (map symlink_node_of (sort_key se_name (b_symlinks b))) =
      Ok (map (\<lambda>e. remote_entry (se_name e) (se_metadata e) (RemoteSymlink (se_target e))) (sort_key se_name (b_symlinks b)))"
    unfolding collect_eq_Ok list_all2_map1 list_all2_map2
    using assms(1) by (auto simp: list_all2_same decode_symlink_child_def symlink_node_of_def decode_norm_props builder_ok_def remote_entry_def)
  ultimately show ?thesis by (simp add: decoded_directory_children_def canonical_directory_def)
qed

section \<open>The mirror of a local tree\<close>

text \<open>
  The remote node that stands for the local node at a path: its permission bits, time stamp and content.
  \<open>dirs\<close> gives the digest of each directory.
\<close>

fun mirror :: "(bytes \<Rightarrow> string) \<Rightarrow> upload_host \<Rightarrow> string \<Rightarrow> (string list \<Rightarrow> digest) \<Rightarrow> string list \<Rightarrow> host_node \<Rightarrow> new_remote_inode option" where
  "mirror sha h root dirs ns (HostFile md) =
     map_option (\<lambda>content. remote_entry (last ns) (metadata_for File md) (RemoteFile (for_bytes sha content))) (read_content h (join_path root ns))"
| "mirror sha h root dirs ns (HostDirectory md entries) = Some (remote_entry (last ns) (metadata_for Directory md) (RemoteDirectory (dirs ns)))"
| "mirror sha h root dirs ns (HostSymlink md target) = Some (remote_entry (last ns) (metadata_for Symlink md) (RemoteSymlink target))"
| "mirror sha h root dirs ns (HostSpecial md kind) = None"

lemma mirror_sel:
  "mirror sha h root dirs ns x = Some n \<Longrightarrow> nr_name n = last ns"
  "mirror sha h root dirs ns x = Some n \<Longrightarrow> nr_content n = RemoteDirectory d \<Longrightarrow> d = dirs ns \<and> (\<exists>md es. x = HostDirectory md es)"
  by (cases x; auto)+

lemma add_children_built:
  "add_children fds dds cs b = Ok b' \<Longrightarrow> built b \<Longrightarrow>
     \<forall>f d. ChildFile f \<in> set cs \<and> fds (lf_relative_path f) = Some d \<longrightarrow> valid_digest d \<Longrightarrow>
     \<forall>g d. ChildDirectory g \<in> set cs \<and> dds (lsd_relative_path g) = Some d \<longrightarrow> valid_digest d \<Longrightarrow> built b'"
proof (induction cs arbitrary: b)
  case (Cons c cs)
  then obtain b1 where b1: "add_child fds dds c b = Ok b1" "add_children fds dds cs b1 = Ok b'" by (auto simp: result_simps)
  have "built b1"
  proof (cases c)
    case (ChildFile f)
    then obtain d where "fds (lf_relative_path f) = Some d"
      "add_file b \<lparr>fe_name = lf_name f, fe_digest = d, fe_metadata = metadata_for File (lf_metadata f)\<rparr> = Ok b1"
      using b1(1) by (auto simp: add_child_def and_then_eq_Ok ok_or_eq_Ok map_err_eq_Ok)
    with built_file [OF Cons.prems(2) _ this(2)] Cons.prems(3) ChildFile show ?thesis by auto
  next
    case (ChildDirectory g)
    then obtain d where "dds (lsd_relative_path g) = Some d"
      "add_directory b \<lparr>de_name = lsd_name g, de_digest = d, de_metadata = metadata_for Directory (lsd_metadata g)\<rparr> = Ok b1"
      using b1(1) by (auto simp: add_child_def and_then_eq_Ok ok_or_eq_Ok map_err_eq_Ok)
    with built_directory [OF Cons.prems(2) _ this(2)] Cons.prems(4) ChildDirectory show ?thesis by auto
  next
    case (ChildSymlink l)
    with b1(1) built_symlink [OF Cons.prems(2)] show ?thesis by (auto simp: add_child_def map_err_eq_Ok)
  qed
  with Cons.IH [OF b1(2)] Cons.prems(3,4) show ?case by auto
qed simp

lemma encode_directory_built:
  assumes "encode_directory sha enc l fds dds = Ok ed"
    and "\<And>f d. ChildFile f \<in> set (ld_entries l) \<Longrightarrow> fds (lf_relative_path f) = Some d \<Longrightarrow> valid_digest d"
    and "\<And>g d. ChildDirectory g \<in> set (ld_entries l) \<Longrightarrow> dds (lsd_relative_path g) = Some d \<Longrightarrow> valid_digest d"
  shows "built (directory_builder_of fds dds l)"
proof -
  obtain b where b: "add_children fds dds (ld_entries l) (builder_with_metadata (metadata_for Directory (ld_metadata l))) = Ok b"
    using assms(1) by (auto simp: encode_directory_def result_simps)
  then have "b = directory_builder_of fds dds l"
    using add_children_Ok [OF b] by (simp add: builder_with_metadata_def directory_builder_of_def)
  with add_children_built [OF b built_with_metadata] assms(2,3) show ?thesis by blast
qed

section \<open>The snapshot of an uploaded tree\<close>

lemma entries_mem:
  "e \<in> set (file_entries fds cs) \<longleftrightarrow> (\<exists>f. ChildFile f \<in> set cs \<and>
     e = \<lparr>fe_name = lf_name f, fe_digest = the (fds (lf_relative_path f)), fe_metadata = metadata_for File (lf_metadata f)\<rparr>)"
  "e' \<in> set (directory_entries_of dds cs) \<longleftrightarrow> (\<exists>g. ChildDirectory g \<in> set cs \<and>
     e' = \<lparr>de_name = lsd_name g, de_digest = the (dds (lsd_relative_path g)), de_metadata = metadata_for Directory (lsd_metadata g)\<rparr>)"
  "e'' \<in> set (symlink_entries cs) \<longleftrightarrow> (\<exists>l. ChildSymlink l \<in> set cs \<and>
     e'' = \<lparr>se_name = lsl_name l, se_target = lsl_target l, se_metadata = metadata_for Symlink (lsl_metadata l)\<rparr>)"
  by (induction cs; fastforce simp: file_entries_def directory_entries_of_def symlink_entries_def split: local_directory_child.splits)+

text \<open>The children in the snapshot of a directory that was encoded at a path.\<close>

lemma mirrored_children:
  fixes ns root md es
  defines "l \<equiv> dir_of (join_path root ns) (join_path [] ns) md es"
  assumes files: "\<And>m fmd. (m, HostFile fmd) \<in> set es \<Longrightarrow> \<exists>content. read_content h (join_path root (ns @ [m])) = Some content \<and>
      fds (join_path [] (ns @ [m])) = Some (for_bytes sha content)"
    and b: "c \<in> (\<lambda>e. remote_entry (fe_name e) (fe_metadata e) (RemoteFile (fe_digest e))) ` set (file_entries fds (ld_entries l)) \<union>
      (\<lambda>e. remote_entry (de_name e) (de_metadata e) (RemoteDirectory (de_digest e))) ` set (directory_entries_of dds (ld_entries l)) \<union>
      (\<lambda>e. remote_entry (se_name e) (se_metadata e) (RemoteSymlink (se_target e))) ` set (symlink_entries (ld_entries l)) \<longleftrightarrow> P"
  shows "P \<longleftrightarrow> (\<exists>m x. (m, x) \<in> set es \<and> mirror sha h root (\<lambda>ns. the (dds (join_path [] ns))) (ns @ [m]) x = Some c)"
proof -
  let ?dirs = "\<lambda>ns. the (dds (join_path [] ns))"
  have file_c: "(\<exists>m fmd. (m, HostFile fmd) \<in> set es \<and> mirror sha h root ?dirs (ns @ [m]) (HostFile fmd) = Some c) \<longleftrightarrow>
      c \<in> (\<lambda>e. remote_entry (fe_name e) (fe_metadata e) (RemoteFile (fe_digest e))) ` set (file_entries fds (ld_entries l))" (is "?F \<longleftrightarrow> ?F'")
  proof -
    have "mirror sha h root ?dirs (ns @ [m]) (HostFile fmd) =
        Some (remote_entry m (metadata_for File fmd) (RemoteFile (the (fds (path_join (join_path [] ns) m)))))"
      if "(m, HostFile fmd) \<in> set es" for m fmd using files [OF that] by auto
    then have "?F \<longleftrightarrow> (\<exists>m fmd. (m, HostFile fmd) \<in> set es \<and>
        c = remote_entry m (metadata_for File fmd) (RemoteFile (the (fds (path_join (join_path [] ns) m)))))" by (metis option.inject)
    then show ?thesis unfolding l_def image_iff Bex_def entries_mem dir_of_child by force
  qed
  have dir: "(\<exists>m md' es'. (m, HostDirectory md' es') \<in> set es \<and> mirror sha h root ?dirs (ns @ [m]) (HostDirectory md' es') = Some c) \<longleftrightarrow>
      c \<in> (\<lambda>e. remote_entry (de_name e) (de_metadata e) (RemoteDirectory (de_digest e))) ` set (directory_entries_of dds (ld_entries l))"
    unfolding l_def image_iff Bex_def entries_mem dir_of_child by force
  have link: "(\<exists>m md' t. (m, HostSymlink md' t) \<in> set es \<and> mirror sha h root ?dirs (ns @ [m]) (HostSymlink md' t) = Some c) \<longleftrightarrow>
      c \<in> (\<lambda>e. remote_entry (se_name e) (se_metadata e) (RemoteSymlink (se_target e))) ` set (symlink_entries (ld_entries l))"
    unfolding l_def image_iff Bex_def entries_mem dir_of_child by force
  have split: "(\<exists>m x. (m, x) \<in> set es \<and> Q m x) \<longleftrightarrow> (\<exists>m fmd. (m, HostFile fmd) \<in> set es \<and> Q m (HostFile fmd)) \<or>
      (\<exists>m md' es'. (m, HostDirectory md' es') \<in> set es \<and> Q m (HostDirectory md' es')) \<or>
      (\<exists>m md' t. (m, HostSymlink md' t) \<in> set es \<and> Q m (HostSymlink md' t)) \<or> (\<exists>m md' k. (m, HostSpecial md' k) \<in> set es \<and> Q m (HostSpecial md' k))" for Q
    by (metis host_node.exhaust)
  show ?thesis unfolding split file_c dir link using b by simp
qed

text \<open>
  What the round trip relies on: an encoded directory fits in memory and decodes to itself, and no other bytes have its digest.
\<close>

definition readable_directories :: "session_env \<Rightarrow> encoded_directory list \<Rightarrow> bool" where
  "readable_directories env eds \<longleftrightarrow> (\<forall>ed \<in> set eds. length (ed_bytes ed) < 2 ^ 63 \<and> se_decode env (ed_bytes ed) = Ok (ed_directory ed) \<and>
     (\<forall>bs. for_bytes (se_sha env) bs = ed_digest ed \<longrightarrow> bs = ed_bytes ed))"

definition directory_mirrored :: "session_env \<Rightarrow> upload_host \<Rightarrow> string \<Rightarrow> (string list \<Rightarrow> digest) \<Rightarrow> string list \<Rightarrow> (string \<times> host_node) list \<Rightarrow> bool" where
  "directory_mirrored env h root dirs ns es \<longleftrightarrow> (\<exists>C. (\<forall>cs. loaded_from env (dirs ns) cs \<longleftrightarrow> cs = C) \<and>
     (\<forall>n. n \<in> set C \<longleftrightarrow> (\<exists>m x. (m, x) \<in> set es \<and> mirror (se_sha env) h root dirs (ns @ [m]) x = Some n)))"

lemma loaded_from_unique:
  assumes "for_bytes (se_sha env) bs = d" "\<And>bs'. for_bytes (se_sha env) bs' = d \<Longrightarrow> bs' = bs"
    and "se_decode env bs = Ok dir" "wf_directory dir" "decoded_directory_children dir = Ok C"
  shows "loaded_from env d cs \<longleftrightarrow> cs = C"
proof
  assume "loaded_from env d cs"
  then obtain bs' dir' where b: "for_bytes (se_sha env) bs' = d" "se_decode env bs' = Ok dir'" "decoded_directory_children dir' = Ok cs"
    unfolding loaded_from_def by blast
  have "bs' = bs" by (rule assms(2) [OF b(1)])
  with b assms(3,5) show "cs = C" by simp
next
  assume "cs = C"
  with assms(1,3-5) show "loaded_from env d cs" unfolding loaded_from_def by blast
qed

lemma encoded_mirrored:
  fixes fds dds
  defines "dirs \<equiv> \<lambda>ns. the (dds (join_path [] ns))"
  assumes sha: "sha256_hex_ok (se_sha env)" and wf: "wf_host base" and at: "host_at base ns = Some (HostDirectory md es)"
    and files: "\<And>ns fmd. host_at base ns = Some (HostFile fmd) \<Longrightarrow> \<exists>content. read_content h (join_path root ns) = Some content \<and>
      valid_digest (for_bytes (se_sha env) content) \<and> fds (join_path [] ns) = Some (for_bytes (se_sha env) content)"
    and enc: "\<And>ns md es. host_at base ns = Some (HostDirectory md es) \<Longrightarrow>
      encoded_in (se_sha env) enc fds dds eds (dir_of (join_path root ns) (join_path [] ns) md es)"
    and eds: "readable_directories env eds"
  shows "directory_mirrored env h root dirs ns es"
proof -
  let ?l = "dir_of (join_path root ns) (join_path [] ns) md es"
  let ?b = "directory_builder_of fds dds ?l"
  have child: "host_at base (ns @ [m]) = Some x" if "(m, x) \<in> set es" for m x using that host_at_snoc [OF at wf] by simp
  obtain ed where ed: "ed \<in> set eds" "encode_directory (se_sha env) enc ?l fds dds = Ok ed" "dirs ns = ed_digest ed"
    using enc [OF at] by (auto simp: encoded_in_def dirs_def dir_of_def)
  note e = encode_directory_Ok [OF ed(2)]
  have "built ?b"
  proof (rule encode_directory_built [OF ed(2)])
    fix f d assume f: "ChildFile f \<in> set (ld_entries ?l)" "fds (lf_relative_path f) = Some d"
    then obtain m fmd where "(m, HostFile fmd) \<in> set es" "lf_relative_path f = join_path [] (ns @ [m])" unfolding dir_of_child by auto
    with files [OF child] f(2) show "valid_digest d" by fastforce
  next
    fix g d assume g: "ChildDirectory g \<in> set (ld_entries ?l)" "dds (lsd_relative_path g) = Some d"
    then obtain m md' es' where m: "(m, HostDirectory md' es') \<in> set es" "lsd_relative_path g = join_path [] (ns @ [m])" unfolding dir_of_child by auto
    obtain ed' where ed': "ed' \<in> set eds" "encode_directory (se_sha env) enc (dir_of (join_path root (ns @ [m])) (join_path [] (ns @ [m])) md' es') fds dds = Ok ed'"
      "dds (join_path [] (ns @ [m])) = Some (ed_digest ed')"
      using enc [OF child [OF m(1)]] by (auto simp: encoded_in_def dir_of_def)
    have "length (ed_bytes ed') < 2 ^ 63" using eds ed'(1) by (simp add: readable_directories_def)
    from for_bytes_valid [OF sha this] have "valid_digest (ed_digest ed')" using encode_directory_Ok [OF ed'(2)] by (elim conjE) (simp only:)
    with ed'(3) g(2) m(2) show "valid_digest d" by simp
  qed
  let ?C = "map (\<lambda>e. remote_entry (fe_name e) (fe_metadata e) (RemoteFile (fe_digest e))) (sort_key fe_name (b_files ?b)) @
    map (\<lambda>e. remote_entry (de_name e) (de_metadata e) (RemoteDirectory (de_digest e))) (sort_key de_name (b_directories ?b)) @
    map (\<lambda>e. remote_entry (se_name e) (se_metadata e) (RemoteSymlink (se_target e))) (sort_key se_name (b_symlinks ?b))"
  have dec: "wf_directory (ed_directory ed)" "decoded_directory_children (ed_directory ed) = Ok ?C"
    using decoded_canonical [OF _ \<open>built ?b\<close>] canonical_wf [OF \<open>built ?b\<close>] e by simp_all
  have read: "se_decode env (ed_bytes ed) = Ok (ed_directory ed)" "for_bytes (se_sha env) bs = ed_digest ed \<Longrightarrow> bs = ed_bytes ed" for bs
    using eds ed(1) unfolding readable_directories_def by blast+
  have "for_bytes (se_sha env) (ed_bytes ed) = ed_digest ed" using e by (elim conjE) (rule sym)
  from loaded_from_unique [OF this read(2,1) dec] have "loaded_from env (dirs ns) cs \<longleftrightarrow> cs = ?C" for cs unfolding ed(3) .
  moreover have "n \<in> set ?C \<longleftrightarrow> (\<exists>m x. (m, x) \<in> set es \<and> mirror (se_sha env) h root dirs (ns @ [m]) x = Some n)" for n
    unfolding dirs_def
  proof (rule mirrored_children [where fds = fds and md = md])
    fix m fmd assume "(m, HostFile fmd) \<in> set es"
    from files [OF child [OF this]] show "\<exists>content. read_content h (join_path root (ns @ [m])) = Some content \<and>
      fds (join_path [] (ns @ [m])) = Some (for_bytes (se_sha env) content)" by blast
  qed (simp only: directory_builder_of_def directory_builder.simps set_append set_map set_sort Un_assoc)
  ultimately show ?thesis unfolding directory_mirrored_def by (intro exI [of _ ?C]) blast
qed

lemma snapshot_mirrored:
  assumes wf: "wf_host base" "\<exists>md es. base = HostDirectory md es"
    and mirrored: "\<And>ns md es. host_at base ns = Some (HostDirectory md es) \<Longrightarrow> directory_mirrored env h root dirs ns es"
  shows "snapshot_entry env (dirs []) ns n \<longleftrightarrow> ns \<noteq> [] \<and> (\<exists>x. host_at base ns = Some x \<and> mirror (se_sha env) h root dirs ns x = Some n)"
proof
  have step: "\<exists>x. host_at base (p @ [nr_name c]) = Some x \<and> mirror (se_sha env) h root dirs (p @ [nr_name c]) x = Some c"
    if p: "host_at base p = Some (HostDirectory md es)" and c: "loaded_from env (dirs p) cs" "c \<in> set cs" for p md es cs c
  proof -
    obtain m x where m: "(m, x) \<in> set es" "mirror (se_sha env) h root dirs (p @ [m]) x = Some c"
      using mirrored [OF p] c unfolding directory_mirrored_def by metis
    with mirror_sel(1) [OF m(2)] host_at_snoc [OF p wf(1)] show ?thesis by auto
  qed
  assume "snapshot_entry env (dirs []) ns n"
  then show "ns \<noteq> [] \<and> (\<exists>x. host_at base ns = Some x \<and> mirror (se_sha env) h root dirs ns x = Some n)"
  proof (induction rule: snapshot_entry.induct)
    case (top cs c)
    with step [of "[]"] assms(2) show ?case by auto
  next
    case (below p c' d cs c)
    then obtain x where x: "host_at base p = Some x" "mirror (se_sha env) h root dirs p x = Some c'" by blast
    with mirror_sel(2) [OF x(2) below.hyps(2)] step [of p] below.hyps(3,4) show ?case by auto
  qed
next
  assume "ns \<noteq> [] \<and> (\<exists>x. host_at base ns = Some x \<and> mirror (se_sha env) h root dirs ns x = Some n)"
  then show "snapshot_entry env (dirs []) ns n"
  proof (induction ns arbitrary: n rule: rev_induct)
    case (snoc m ns)
    then obtain x where x: "host_at base (ns @ [m]) = Some x" "mirror (se_sha env) h root dirs (ns @ [m]) x = Some n" by blast
    then obtain y where y: "host_at base ns = Some y" "host_at y [m] = Some x" by (auto simp: host_at_append bind_eq_Some_conv)
    then obtain md es where es: "y = HostDirectory md es" by (cases y) auto
    obtain C where C: "loaded_from env (dirs ns) C" "n \<in> set C"
      using mirrored [OF y(1) [unfolded es]] x host_at_snoc [OF y(1) [unfolded es] wf(1)] unfolding directory_mirrored_def by metis
    have name: "nr_name n = m" using mirror_sel(1) [OF x(2)] by simp
    show ?case
    proof (cases "ns = []")
      case True
      with snapshot_entry.top [OF C [unfolded True]] name show ?thesis by simp
    next
      case False
      let ?n = "remote_entry (last ns) (metadata_for Directory md) (RemoteDirectory (dirs ns))"
      have "snapshot_entry env (dirs []) ns ?n" using snoc.IH [of ?n] y(1) es False by simp
      from below [OF this _ C] name show ?thesis by simp
    qed
  qed simp
qed

text \<open>What an upload leaves behind: every file could be read, every directory is mirrored, and so is the snapshot.\<close>

definition mirrored_tree :: "session_env \<Rightarrow> upload_host \<Rightarrow> string \<Rightarrow> (string list \<Rightarrow> digest) \<Rightarrow> host_node \<Rightarrow> bool" where
  "mirrored_tree env h root dirs base \<longleftrightarrow> wf_host base \<and>
     (\<forall>ns md. host_at base ns = Some (HostFile md) \<longrightarrow> (\<exists>content. read_content h (join_path root ns) = Some content)) \<and>
     (\<forall>ns md es. host_at base ns = Some (HostDirectory md es) \<longrightarrow> directory_mirrored env h root dirs ns es) \<and>
     (\<forall>ns n. snapshot_entry env (dirs []) ns n \<longleftrightarrow>
        ns \<noteq> [] \<and> (\<exists>x. host_at base ns = Some x \<and> mirror (se_sha env) h root dirs ns x = Some n)) \<and>
     (\<exists>md es. base = HostDirectory md es)"

lemma mirrored_treeD:
  assumes "mirrored_tree env h root dirs base"
  shows "wf_host base" "host_at base ns = Some (HostFile md) \<Longrightarrow> \<exists>content. read_content h (join_path root ns) = Some content"
    "host_at base ns = Some (HostDirectory md es) \<Longrightarrow> directory_mirrored env h root dirs ns es"
    "snapshot_entry env (dirs []) ns n \<longleftrightarrow> ns \<noteq> [] \<and> (\<exists>x. host_at base ns = Some x \<and> mirror (se_sha env) h root dirs ns x = Some n)"
    "\<exists>md es. base = HostDirectory md es"
  using assms unfolding mirrored_tree_def by simp_all

lemma upload_mirrored:
  assumes "scan_local_directory_with_options h root node opts = Ok tree" "pred_option wf_host node"
    and "hash_files (se_sha env) h completes (lt_files tree) opts' = Ok fds"
    and "encode_local_tree (se_sha env) enc tree fds = Ok t"
    and "sha256_hex_ok (se_sha env)" "readable_directories env (et_directories t)"
  shows "\<exists>base dirs. node = Some base \<and> dirs [] = et_root_digest t \<and> mirrored_tree env h root dirs base"
proof -
  obtain base dds where base: "node = Some base" "wf_host base" "\<exists>md es. base = HostDirectory md es"
    and hashed: "hashed_files (se_sha env) h root base (digest_by_path fds)" and root: "dds [] = Some (et_root_digest t)"
    and enc: "encoded_directories (se_sha env) enc root base (digest_by_path fds) dds (et_directories t)"
    using encode_scanned [OF assms(1-3), of enc] assms(4) by auto
  let ?dirs = "\<lambda>ns. the (dds (join_path [] ns))"
  have dirs: "directory_mirrored env h root ?dirs ns es" if "host_at base ns = Some (HostDirectory md es)" for ns md es
    by (rule encoded_mirrored [OF assms(5) base(2) that _ _ assms(6), where fds = "digest_by_path fds" and enc = enc])
      (use hashed enc in \<open>unfold hashed_files_def encoded_directories_def, blast+\<close>)
  have snap: "snapshot_entry env (?dirs []) ns n \<longleftrightarrow> ns \<noteq> [] \<and> (\<exists>x. host_at base ns = Some x \<and> mirror (se_sha env) h root ?dirs ns x = Some n)" for ns n
    by (rule snapshot_mirrored [OF base(2,3)]) (rule dirs)
  have "mirrored_tree env h root ?dirs base"
    unfolding mirrored_tree_def
  proof (intro conjI allI impI)
    show "\<exists>content. read_content h (join_path root ns) = Some content" if "host_at base ns = Some (HostFile md)" for ns md
      using that hashed unfolding hashed_files_def by blast
  qed (fact base(2) base(3) snap | rule dirs, assumption)+
  with base(1) root show ?thesis by (intro exI [of _ base] exI [of _ ?dirs]) simp
qed

section \<open>Directory listings of an uploaded tree\<close>

fun host_kind :: "host_node \<Rightarrow> node_kind option" where
  "host_kind (HostFile md) = Some File"
| "host_kind (HostDirectory md entries) = Some Directory"
| "host_kind (HostSymlink md target) = Some Symlink"
| "host_kind (HostSpecial md kind) = None"

text \<open>What a listing of a local directory shows: the entries of the kinds that are uploaded, in name order with their types.\<close>

definition host_listing :: "(string \<times> host_node) list \<Rightarrow> (file_type \<times> string) list" where
  "host_listing es =
     map (\<lambda>e. (file_type_of (the (host_kind (snd e))), fst e)) (filter (\<lambda>e. host_kind (snd e) \<noteq> None) (sort_key fst es))"

lemma host_listing_mem: "(t, m) \<in> set (host_listing es) \<longleftrightarrow> (\<exists>x k. (m, x) \<in> set es \<and> host_kind x = Some k \<and> t = file_type_of k)"
  by (auto simp: host_listing_def) force

lemma host_listing_sorted:
  assumes "distinct (map fst es)"
  shows "sorted (map snd (host_listing es))" "distinct (map snd (host_listing es))"
proof -
  have names: "map snd (host_listing es) = map fst (filter (\<lambda>e. host_kind (snd e) \<noteq> None) (sort_key fst es))"
    by (simp add: host_listing_def comp_def)
  have "distinct (map fst (sort_key fst es))" using assms by (simp add: distinct_map)
  then show "sorted (map snd (host_listing es))" "distinct (map snd (host_listing es))"
    unfolding names by (simp_all add: sorted_filter distinct_map_filter)
qed

lemma listing_mirrored:
  assumes tree: "mirrored_tree env h root dirs base" and dir: "snapshot_directory env (dirs []) ns d" "loaded_from env d cs"
  shows "\<exists>md es. host_at base ns = Some (HostDirectory md es) \<and>
    map (\<lambda>n. (file_type_of (remote_kind n), nr_name n)) (sort_key nr_name cs) = host_listing es"
proof -
  have "\<exists>md es. host_at base ns = Some (HostDirectory md es) \<and> d = dirs ns"
    using dir(1)
  proof cases
    case root_directory
    with mirrored_treeD(5) [OF tree] show ?thesis by auto
  next
    case (sub_directory n)
    then obtain x where x: "host_at base ns = Some x" "mirror (se_sha env) h root dirs ns x = Some n"
      unfolding mirrored_treeD(4) [OF tree] by blast
    with mirror_sel(2) [OF x(2) sub_directory(2)] show ?thesis by auto
  qed
  then obtain md es where es: "host_at base ns = Some (HostDirectory md es)" "d = dirs ns" by blast
  then have mem: "n \<in> set cs \<longleftrightarrow> (\<exists>m x. (m, x) \<in> set es \<and> mirror (se_sha env) h root dirs (ns @ [m]) x = Some n)" for n
    using mirrored_treeD(3) [OF tree es(1)] dir(2) unfolding directory_mirrored_def by metis
  have wf: "wf_host base" "wf_host (HostDirectory md es)" using mirrored_treeD(1) [OF tree] host_at_wf es(1) by blast+
  have mirrored: "(\<exists>n. mirror (se_sha env) h root dirs (ns @ [m]) x = Some n \<and> remote_kind n = k) \<longleftrightarrow> host_kind x = Some k"
    if "(m, x) \<in> set es" for m x k
  proof -
    have "host_at base (ns @ [m]) = Some x" using that host_at_snoc [OF es(1) wf(1)] by simp
    then have "\<exists>content. read_content h (join_path root (ns @ [m])) = Some content" if "x = HostFile md'" for md'
      using mirrored_treeD(2) [OF tree] that by blast
    then show ?thesis by (cases x) (auto simp: remote_kind_def)
  qed
  let ?L = "map (\<lambda>n. (file_type_of (remote_kind n), nr_name n)) (sort_key nr_name cs)"
  have "set ?L = set (host_listing es)"
  proof (rule set_eqI)
    fix e :: "file_type \<times> string" obtain t m where e: "e = (t, m)" by fastforce
    have "e \<in> set ?L \<longleftrightarrow> (\<exists>n \<in> set cs. nr_name n = m \<and> t = file_type_of (remote_kind n))" by (auto simp: e)
    also have "\<dots> \<longleftrightarrow> (\<exists>x n. (m, x) \<in> set es \<and> mirror (se_sha env) h root dirs (ns @ [m]) x = Some n \<and> t = file_type_of (remote_kind n))"
      unfolding Bex_def mem using mirror_sel(1) by (metis last_snoc)
    also have "\<dots> \<longleftrightarrow> e \<in> set (host_listing es)" unfolding e host_listing_mem using mirrored by metis
    finally show "e \<in> set ?L \<longleftrightarrow> e \<in> set (host_listing es)" .
  qed
  moreover have "distinct (map nr_name cs)"
    using dir(2) decoded_children_names unfolding loaded_from_def wf_directory_def by metis
  then have "distinct (map snd ?L)" "sorted (map snd ?L)" by (simp_all add: comp_def distinct_map)
  moreover have "distinct (map fst es)" using wf(2) by simp
  from host_listing_sorted [OF this] have "distinct (map snd (host_listing es))" "sorted (map snd (host_listing es))" by blast+
  moreover have "inj_on snd (set ?L \<union> set (host_listing es))"
    using \<open>distinct (map snd ?L)\<close> \<open>set ?L = set (host_listing es)\<close> by (simp only: Un_absorb distinct_map)
  ultimately have "?L = host_listing es" by (intro map_sorted_distinct_set_unique [where f = snd])
  with es(1) show ?thesis by blast
qed

lemma file_mirrored:
  assumes "mirrored_tree env h root dirs base" "snapshot_entry env (dirs []) ns n" "nr_content n = RemoteFile d"
  shows "\<exists>md content. host_at base ns = Some (HostFile md) \<and> read_content h (join_path root ns) = Some content \<and> d = for_bytes (se_sha env) content"
proof -
  obtain x where x: "host_at base ns = Some x" "mirror (se_sha env) h root dirs ns x = Some n"
    using assms(2) unfolding mirrored_treeD(4) [OF assms(1)] by blast
  with assms(3) show ?thesis by (cases x) auto
qed

lemma link_mirrored:
  assumes "mirrored_tree env h root dirs base" "snapshot_entry env (dirs []) ns n" "nr_content n = RemoteSymlink target"
  shows "\<exists>md. host_at base ns = Some (HostSymlink md target)"
proof -
  obtain x where x: "host_at base ns = Some x" "mirror (se_sha env) h root dirs ns x = Some n"
    using assms(2) unfolding mirrored_treeD(4) [OF assms(1)] by blast
  with assms(3) show ?thesis by (cases x) auto
qed

text \<open>
  What a tree must satisfy so that its upload can be read back: its directories can, and no other bytes have the
  digest of a file's content.
\<close>

definition upload_readable ::
  "session_env \<Rightarrow> (directory \<Rightarrow> bytes) \<Rightarrow> upload_host \<Rightarrow> (local_file \<Rightarrow> bool) \<Rightarrow> string \<Rightarrow> host_node option \<Rightarrow> upload_options \<Rightarrow> bool" where
  "upload_readable env enc h completes root node opts \<longleftrightarrow>
     (\<forall>tree fds t. scan_local_directory_with_options h root node opts = Ok tree \<and> hash_files (se_sha env) h completes (lt_files tree) opts = Ok fds \<and>
        encode_local_tree (se_sha env) enc tree fds = Ok t \<longrightarrow> readable_directories env (et_directories t)) \<and>
     (\<forall>path content bs. read_content h path = Some content \<and> for_bytes (se_sha env) bs = for_bytes (se_sha env) content \<longrightarrow> bs = content)"

lemma upload_tree_mirrored:
  assumes "upload_local_directory (se_sha env) enc h completes order store root node opts s = (Ok summary, s')"
    and "pred_option wf_host node" "sha256_hex_ok (se_sha env)" "upload_readable env enc h completes root node opts"
  shows "\<exists>base dirs. node = Some base \<and> dirs [] = us_root_digest summary \<and> mirrored_tree env h root dirs base \<and> valid_digest (us_root_digest summary)"
proof -
  obtain tree fds t where t: "scan_local_directory_with_options h root node opts = Ok tree"
    "hash_files (se_sha env) h completes (lt_files tree) opts = Ok fds" "encode_local_tree (se_sha env) enc tree fds = Ok t"
    "us_root_digest summary = et_root_digest t"
    using upload_local_directory_Ok [OF assms(1)] by blast
  have readable: "readable_directories env (et_directories t)" using assms(4) t(1-3) unfolding upload_readable_def by blast
  obtain ed where "ed \<in> set (et_directories t)" "et_root_digest t = for_bytes (se_sha env) (ed_bytes ed)"
    using encode_local_tree_closed [OF t(3)] unfolding closed_tree_def by auto
  with for_bytes_valid [OF assms(3), of "ed_bytes ed"] readable have "valid_digest (et_root_digest t)" by (simp add: readable_directories_def)
  with upload_mirrored [OF t(1) assms(2) t(2,3) assms(3) readable] t(4) show ?thesis by simp
qed

section \<open>Properties\<close>

text \<open>
  C3 What was uploaded is what is mounted. Take a local tree that was scanned, hashed and encoded. In a session whose
  decoder reads the encoded directories back and under a hash with no second preimage of them, the
  snapshot of the resulting root digest has an entry at a path exactly when the local tree has a file,
  directory or link there, and the entry is that node: its masked permission bits, its time stamp, for a file the digest of the content that
  was read from it, for a link its target.
\<close>

theorem uploaded_snapshot:
  assumes "scan_local_directory_with_options h root node opts = Ok tree" "pred_option wf_host node"
    and "hash_files (se_sha env) h completes (lt_files tree) opts' = Ok fds"
    and "encode_local_tree (se_sha env) enc tree fds = Ok t"
    and "sha256_hex_ok (se_sha env)" "readable_directories env (et_directories t)"
  shows "\<exists>base dirs. node = Some base \<and> (\<forall>ns n. snapshot_entry env (et_root_digest t) ns n \<longleftrightarrow>
    ns \<noteq> [] \<and> (\<exists>x. host_at base ns = Some x \<and> mirror (se_sha env) h root dirs ns x = Some n))"
  using upload_mirrored [OF assms] mirrored_treeD(4) by metis

text \<open>The small upload of before, read back by the example session.\<close>

lemma demo_encoded_directory: "ed_directory demo_encoded = demo_dir"
proof -
  have "0x1A4 AND mode_mask k = (0x1A4 :: u32)" for k
    by (cases k) (simp_all add: FILE_MODE_MASK_def DIRECTORY_MODE_MASK_def SYMLINK_MODE_MASK_def PERMISSION_BITS_def STICKY_BIT_def)
  then have "norm_props (metadata_for k demo_upload_md) = Some demo_props" "nm_mode (norm_metadata (metadata_for k demo_upload_md)) = Some 0x1A4" for k
    by (simp_all add: norm_props_def into_node_properties_def norm_metadata_def metadata_for_def demo_upload_md_def demo_props_def as_i32_def)
  then show ?thesis
    by (simp add: demo_encoded_def Let_def directory_builder_of_def canonical_directory_def demo_dir_def file_entries_def directory_entries_of_def
        symlink_entries_def file_node_of_def symlink_node_of_def dir_of_def demo_upload_entries_def digest_by_path_def demo_upload_digests_def
        path_join_def demo_digest_for_bytes)
qed

lemma demo_sha_empty: "for_bytes demo_sha bs = for_bytes demo_sha [] \<Longrightarrow> bs = []"
  by (simp add: for_bytes_def demo_sha_def split: if_splits)

lemma demo_upload_readable:
  "readable_directories demo_session_env (et_directories demo_encoded_tree)"
  "upload_readable demo_session_env demo_upload_enc demo_upload_host (\<lambda>_. True) ''/u''
     (Some (HostDirectory demo_upload_md demo_upload_entries)) demo_upload_options"
proof -
  have sha: "se_sha demo_session_env = demo_sha" by (simp add: demo_session_env_def)
  have "ed_digest demo_encoded = for_bytes demo_sha []" "ed_bytes demo_encoded = []" by (simp_all add: demo_encoded_def Let_def)
  then show r: "readable_directories demo_session_env (et_directories demo_encoded_tree)"
    using demo_sha_empty by (simp add: readable_directories_def demo_encoded_tree_def sha demo_encoded_directory) (simp add: demo_session_env_def)
  have "content = []" if "read_content demo_upload_host path = Some content" for path content
    using that by (simp add: read_content_def demo_upload_host_def)
  with r demo_upload_scan demo_upload_hash demo_upload_encode demo_sha_empty show "upload_readable demo_session_env demo_upload_enc demo_upload_host (\<lambda>_. True) ''/u''
     (Some (HostDirectory demo_upload_md demo_upload_entries)) demo_upload_options"
    unfolding upload_readable_def sha by fastforce
qed

theorem uploaded_snapshot_witness:
  "\<exists>n. snapshot_entry demo_session_env (et_root_digest demo_encoded_tree) [''b''] n \<and>
     nr_content n = RemoteFile (for_bytes demo_sha []) \<and> nr_mode n = Some 0x1A4"
proof -
  have sha: "se_sha demo_session_env = demo_sha" by (simp add: demo_session_env_def)
  obtain base dirs where base: "Some (HostDirectory demo_upload_md demo_upload_entries) = Some base"
    and snap: "\<forall>ns n. snapshot_entry demo_session_env (et_root_digest demo_encoded_tree) ns n \<longleftrightarrow>
      ns \<noteq> [] \<and> (\<exists>x. host_at base ns = Some x \<and> mirror demo_sha demo_upload_host ''/u'' dirs ns x = Some n)"
    using uploaded_snapshot [OF demo_upload_scan demo_upload_wf, of demo_session_env "\<lambda>_. True" demo_upload_options demo_upload_digests
        demo_upload_enc demo_encoded_tree] demo_upload_hash demo_upload_encode demo_sha_ok demo_upload_readable(1) unfolding sha by blast
  have "host_at base [''b''] = Some (HostFile demo_upload_md)" using base by (auto simp: demo_upload_entries_def)
  moreover have "mirror demo_sha demo_upload_host ''/u'' dirs [''b''] (HostFile demo_upload_md) =
      Some (remote_entry ''b'' (metadata_for File demo_upload_md) (RemoteFile (for_bytes demo_sha [])))"
    by (simp add: read_content_def demo_upload_host_def)
  ultimately have "snapshot_entry demo_session_env (et_root_digest demo_encoded_tree) [''b'']
      (remote_entry ''b'' (metadata_for File demo_upload_md) (RemoteFile (for_bytes demo_sha [])))"
    using snap by blast
  moreover have "nr_mode (remote_entry ''b'' (metadata_for File demo_upload_md) c) = Some 0x1A4" for c
    by (simp add: remote_entry_def metadata_for_def norm_metadata_def demo_upload_md_def FILE_MODE_MASK_def PERMISSION_BITS_def)
  ultimately show ?thesis by (metis remote_entry_sel(2))
qed

end
