(* ===== verification/Daemon_Client.thy ===== *)
theory Daemon_Client
  imports Control
begin

text \<open>
  The client of the control protocol (\<^verbatim>\<open>crates/rfs/src/daemon_client.rs\<close>). The transport below it, the Unix socket and
  the generated stub, is a record of the calls over the state of the other side; the server of
  \<^verbatim>\<open>control_service.rs\<close> is one such transport. The client sets no timeout, so a call may also never be answered.
\<close>

section \<open>Calls\<close>

text \<open>Results that thread the state of the surroundings.\<close>

definition io_then ::
  "('a, 'e) result \<times> 'w \<Rightarrow> ('a \<Rightarrow> 'w \<Rightarrow> ('b, 'e) result \<times> 'w) \<Rightarrow> ('b, 'e) result \<times> 'w" where
  "io_then r f = (case r of (Inl e, w) \<Rightarrow> (Err e, w) | (Inr x, w) \<Rightarrow> f x w)"

definition io_map_err :: "('e \<Rightarrow> 'f) \<Rightarrow> ('a, 'e) result \<times> 'w \<Rightarrow> ('a, 'f) result \<times> 'w" where
  "io_map_err f r = (map_err f (fst r), snd r)"

lemma io_simps [simp]:
  "io_then (Ok x, w) f = f x w" "io_then (Err e, w) f = (Err e, w)"
  "io_map_err g (Ok x, w) = (Ok x, w)" "io_map_err g (Err e, w) = (Err (g e), w)"
  by (simp_all add: io_then_def io_map_err_def)

lemma io_then_eq_Ok [result_simps]:
  "io_then r f = (Ok y, w') \<longleftrightarrow> (\<exists>x w. r = (Ok x, w) \<and> f x w = (Ok y, w'))"
  by (auto simp: io_then_def split: prod.splits sum.splits)

lemma io_map_err_eq_Ok [result_simps]: "io_map_err g r = (Ok x, w) \<longleftrightarrow> r = (Ok x, w)"
  by (cases r; cases "fst r") (auto simp: io_map_err_def)

text \<open>A call that is awaited: \<open>None\<close> when it is never answered, and then nothing after it happens.\<close>

type_synonym ('a, 'e, 'w) call = "(('a, 'e) result \<times> 'w) option"

definition await :: "('a, 'e, 'w) call \<Rightarrow> ('a \<Rightarrow> 'w \<Rightarrow> ('b, 'e, 'w) call) \<Rightarrow> ('b, 'e, 'w) call" where
  "await r f = (case r of None \<Rightarrow> None | Some (Inl e, w) \<Rightarrow> Some (Err e, w) | Some (Inr x, w) \<Rightarrow> f x w)"

definition await_map_err :: "('e \<Rightarrow> 'f) \<Rightarrow> ('a, 'e, 'w) call \<Rightarrow> ('a, 'f, 'w) call" where
  "await_map_err f r = map_option (io_map_err f) r"

lemma await_simps [simp]:
  "await None f = None" "await (Some (Ok x, w)) f = f x w" "await (Some (Err e, w)) f = Some (Err e, w)"
  "await_map_err g None = None" "await_map_err g (Some r) = Some (io_map_err g r)"
  by (simp_all add: await_def await_map_err_def)

lemma await_eq_Ok [result_simps]:
  "await r f = Some (Ok y, w') \<longleftrightarrow> (\<exists>x w. r = Some (Ok x, w) \<and> f x w = Some (Ok y, w'))"
  by (auto simp: await_def split: option.splits prod.splits sum.splits)

lemma await_eq_None [result_simps]:
  "await r f = None \<longleftrightarrow> r = None \<or> (\<exists>x w. r = Some (Ok x, w) \<and> f x w = None)"
  by (auto simp: await_def split: option.splits prod.splits sum.splits)

lemma await_map_err_eq [result_simps]:
  "await_map_err g r = Some (Ok x, w) \<longleftrightarrow> r = Some (Ok x, w)" "await_map_err g r = None \<longleftrightarrow> r = None"
  by (auto simp: await_map_err_def result_simps)

text \<open>The unary calls of the control protocol; the answer to \<^verbatim>\<open>Snapshot\<close> is its root digest.\<close>

record 'w control_rpc =
  rpc_connect :: "string \<Rightarrow> 'w \<Rightarrow> (unit, string, 'w) call"
  rpc_check_protocol :: "u32 \<Rightarrow> 'w \<Rightarrow> (u32, status, 'w) call"
  rpc_status :: "u32 \<Rightarrow> 'w \<Rightarrow> (status_response, status, 'w) call"
  rpc_snapshot :: "u32 \<Rightarrow> 'w \<Rightarrow> (string, status, 'w) call"
  rpc_shutdown :: "u32 \<Rightarrow> 'w \<Rightarrow> (unit, status, 'w) call"

section \<open>The client\<close>

definition CLIENT_PROTOCOL_VERSION :: u32 where
  "CLIENT_PROTOCOL_VERSION = 1"

record daemon_identity =
  id_protocol_version :: u32

record session_status =
  ss_root_digest :: digest
  ss_mountpoint :: string
  ss_daemon_pid :: u32
  ss_control_socket :: string
  ss_dirty :: bool
  ss_dirty_files :: u64
  ss_snapshot_blockers :: "string list"

datatype client_error =
    ClientConnect string string
  | IncompatibleProtocol u32 u32
  | ClientRemote string string
  | ClientInvalidResponse string string

fun client_error_code :: "client_error \<Rightarrow> string" where
  "client_error_code (ClientConnect _ _) = ''daemon_unavailable''"
| "client_error_code (IncompatibleProtocol _ _) = ''daemon_protocol''"
| "client_error_code (ClientRemote code _) = code"
| "client_error_code (ClientInvalidResponse _ _) = ''daemon_invalid_response''"

fun is_unavailable :: "client_error \<Rightarrow> bool" where
  "is_unavailable (ClientConnect _ _) \<longleftrightarrow> True"
| "is_unavailable (ClientRemote code _) \<longleftrightarrow> code = ''daemon_unavailable''"
| "is_unavailable _ \<longleftrightarrow> False"

text \<open>\<^verbatim>\<open>Diagnostic\<close> for \<^verbatim>\<open>ClientError\<close>: its code, and no structured details, which is the default of the trait.\<close>

record diagnostic_detail =
  dd_key :: string
  dd_value :: string

definition diagnostic_code :: "client_error \<Rightarrow> string" where
  "diagnostic_code e = client_error_code e"

definition diagnostic_details :: "client_error \<Rightarrow> diagnostic_detail list" where
  "diagnostic_details e = []"

definition remote_error :: "status \<Rightarrow> client_error" where
  "remote_error s =
     ClientRemote (case st_code s of
         CodeUnavailable \<Rightarrow> ''daemon_unavailable''
       | CodeFailedPrecondition \<Rightarrow> ''daemon_precondition''
       | CodeUnimplemented \<Rightarrow> ''daemon_unsupported''
       | CodeInvalidArgument \<Rightarrow> ''daemon_invalid_request''
       | _ \<Rightarrow> ''daemon_error'') (st_message s)"

definition client_ready :: "'w control_rpc \<Rightarrow> 'w \<Rightarrow> (daemon_identity, client_error, 'w) call" where
  "client_ready rpc w =
     await (await_map_err remote_error (rpc_check_protocol rpc CLIENT_PROTOCOL_VERSION w)) (\<lambda>version w.
       Some (if version \<noteq> CLIENT_PROTOCOL_VERSION then Err (IncompatibleProtocol CLIENT_PROTOCOL_VERSION version)
         else Ok \<lparr>id_protocol_version = version\<rparr>, w))"

text \<open>The placeholder address of the endpoint is a constant that always parses.\<close>

definition client_connect :: "'w control_rpc \<Rightarrow> string \<Rightarrow> 'w \<Rightarrow> (unit, client_error, 'w) call" where
  "client_connect rpc endpoint w =
     await (await_map_err (ClientConnect endpoint) (rpc_connect rpc endpoint w)) (\<lambda>_ w.
     await (client_ready rpc w) (\<lambda>_ w. Some (Ok (), w)))"

definition parse_response_digest :: "string \<Rightarrow> (digest, client_error) result" where
  "parse_response_digest text = map_err (\<lambda>_. ClientInvalidResponse text ''invalid digest'') (digest_from_str text)"

definition client_status :: "'w control_rpc \<Rightarrow> 'w \<Rightarrow> (session_status, client_error, 'w) call" where
  "client_status rpc w =
     await (await_map_err remote_error (rpc_status rpc CLIENT_PROTOCOL_VERSION w)) (\<lambda>response w.
       Some (and_then (parse_response_digest (sr_root_digest response)) (\<lambda>root_digest.
          Ok \<lparr>ss_root_digest = root_digest, ss_mountpoint = sr_mountpoint response, ss_daemon_pid = sr_daemon_pid response,
              ss_control_socket = sr_control_socket response, ss_dirty = sr_dirty response,
              ss_dirty_files = sr_dirty_files response, ss_snapshot_blockers = sr_snapshot_blockers response\<rparr>), w))"

definition client_snapshot :: "'w control_rpc \<Rightarrow> 'w \<Rightarrow> (digest, client_error, 'w) call" where
  "client_snapshot rpc w =
     await (await_map_err remote_error (rpc_snapshot rpc CLIENT_PROTOCOL_VERSION w)) (\<lambda>text w. Some (parse_response_digest text, w))"

definition client_shutdown :: "'w control_rpc \<Rightarrow> 'w \<Rightarrow> (unit, client_error, 'w) call" where
  "client_shutdown rpc w = await_map_err remote_error (rpc_shutdown rpc CLIENT_PROTOCOL_VERSION w)"

section \<open>What the client relies on\<close>

text \<open>
  A control server: while it serves a session it answers with that session's information, and after an accepted
  shutdown it only says that it is shutting down. \<open>serving w\<close> is the session it serves.
\<close>

definition status_of :: "session_info \<Rightarrow> session_status" where
  "status_of info = \<lparr>ss_root_digest = info_root_digest info, ss_mountpoint = info_mountpoint info, ss_daemon_pid = info_daemon_pid info,
     ss_control_socket = info_control_endpoint info, ss_dirty = False, ss_dirty_files = 0,
     ss_snapshot_blockers = [''snapshot is not implemented'']\<rparr>"

locale control_server =
  fixes rpc :: "'w control_rpc" and serving :: "'w \<Rightarrow> session_info option" and ok :: "'w \<Rightarrow> bool"
  assumes connects: "rpc_connect rpc endpoint w = Some (Ok (), w)"
    and protocol: "ok w \<Longrightarrow> rpc_check_protocol rpc CLIENT_PROTOCOL_VERSION w = Some (case serving w of None \<Rightarrow> Err shutting_down | Some _ \<Rightarrow> Ok CLIENT_PROTOCOL_VERSION, w)"
    and stopped: "ok w \<Longrightarrow> serving w = None \<Longrightarrow> rpc_status rpc CLIENT_PROTOCOL_VERSION w = Some (Err shutting_down, w)"
    and reports: "ok w \<Longrightarrow> serving w = Some info \<Longrightarrow> \<exists>response. rpc_status rpc CLIENT_PROTOCOL_VERSION w = Some (Ok response, w) \<and>
      sr_root_digest response = digest_to_string (info_root_digest info) \<and> sr_mountpoint response = info_mountpoint info \<and>
      sr_daemon_pid response = info_daemon_pid info \<and> sr_control_socket response = info_control_endpoint info \<and> \<not> sr_dirty response \<and>
      sr_dirty_files response = 0 \<and> sr_snapshot_blockers response = [''snapshot is not implemented'']"
    and valid: "ok w \<Longrightarrow> serving w = Some info \<Longrightarrow> valid_digest (info_root_digest info)"
    and unsupported: "ok w \<Longrightarrow> serving w \<noteq> None \<Longrightarrow> \<exists>m. rpc_snapshot rpc CLIENT_PROTOCOL_VERSION w = Some (Err \<lparr>st_code = CodeUnimplemented, st_message = m\<rparr>, w)"
    and no_snapshot: "ok w \<Longrightarrow> serving w = None \<Longrightarrow> rpc_snapshot rpc CLIENT_PROTOCOL_VERSION w = Some (Err shutting_down, w)"
    and stops: "ok w \<Longrightarrow> serving w \<noteq> None \<Longrightarrow> rpc_shutdown rpc CLIENT_PROTOCOL_VERSION w = Some (Ok (), w') \<Longrightarrow> ok w' \<and> serving w' = None"
    and accepts: "ok w \<Longrightarrow> serving w \<noteq> None \<Longrightarrow> \<exists>w'. rpc_shutdown rpc CLIENT_PROTOCOL_VERSION w = Some (Ok (), w')"
    and refuses: "ok w \<Longrightarrow> serving w = None \<Longrightarrow> rpc_shutdown rpc CLIENT_PROTOCOL_VERSION w = Some (Err shutting_down, w)"
begin

lemma status_served:
  assumes "ok w" "serving w = Some info"
  shows "client_connect rpc endpoint w = Some (Ok (), w)" "client_status rpc w = Some (Ok (status_of info), w)"
    "\<exists>e. client_snapshot rpc w = Some (Err e, w) \<and> client_error_code e = ''daemon_unsupported''"
proof -
  show "client_connect rpc endpoint w = Some (Ok (), w)"
    using protocol [OF assms(1)] assms(2) by (simp add: client_connect_def connects client_ready_def)
  obtain response where r: "rpc_status rpc CLIENT_PROTOCOL_VERSION w = Some (Ok response, w)"
    "sr_root_digest response = digest_to_string (info_root_digest info)" "sr_mountpoint response = info_mountpoint info"
    "sr_daemon_pid response = info_daemon_pid info" "sr_control_socket response = info_control_endpoint info" "\<not> sr_dirty response"
    "sr_dirty_files response = 0" "sr_snapshot_blockers response = [''snapshot is not implemented'']"
    using reports [OF assms] by blast
  then show "client_status rpc w = Some (Ok (status_of info), w)"
    using digest_parse_print [OF valid [OF assms]] by (simp add: client_status_def parse_response_digest_def status_of_def)
  show "\<exists>e. client_snapshot rpc w = Some (Err e, w) \<and> client_error_code e = ''daemon_unsupported''"
    using unsupported [OF assms(1)] assms(2) by (auto simp: client_snapshot_def remote_error_def)
qed

lemma unavailable_shutting_down: "is_unavailable (remote_error shutting_down)"
  by (simp add: remote_error_def shutting_down_def)

lemma after_shutdown:
  assumes "ok w" "serving w = Some info"
  shows "\<exists>w'. client_shutdown rpc w = Some (Ok (), w') \<and> serving w' = None \<and>
    (\<exists>e. client_connect rpc endpoint w' = Some (Err e, w') \<and> is_unavailable e) \<and>
    (\<exists>e. client_status rpc w' = Some (Err e, w') \<and> is_unavailable e) \<and>
    (\<exists>e. client_snapshot rpc w' = Some (Err e, w') \<and> is_unavailable e) \<and>
    (\<exists>e. client_shutdown rpc w' = Some (Err e, w') \<and> is_unavailable e)"
proof -
  obtain w' where w': "rpc_shutdown rpc CLIENT_PROTOCOL_VERSION w = Some (Ok (), w')" using accepts assms by blast
  then have s: "ok w'" "serving w' = None" using stops assms by blast+
  show ?thesis
    using w' s protocol [OF s(1)] stopped [OF s] refuses [OF s] no_snapshot [OF s] unavailable_shutting_down
    by (intro exI [of _ w']) (simp add: client_shutdown_def client_connect_def client_ready_def client_status_def client_snapshot_def connects)
qed

end

text \<open>The control service of the daemon is such a server; \<open>pid\<close> is the process id of the daemon.\<close>

definition control_service_rpc :: "u32 \<Rightarrow> (daemon \<times> control_service) control_rpc" where
  "control_service_rpc pid =
     \<lparr>rpc_connect = (\<lambda>endpoint w. Some (Ok (), w)),
      rpc_check_protocol = (\<lambda>version (dm, svc). Some (check_protocol pid dm svc version, dm, svc)),
      rpc_status = (\<lambda>version (dm, svc). Some (control_status pid dm svc version, dm, svc)),
      rpc_snapshot = (\<lambda>version (dm, svc). Some (map_ok (\<lambda>_. []) (control_snapshot pid dm svc version), dm, svc)),
      rpc_shutdown = (\<lambda>version (dm, svc). Some (case control_shutdown version svc of (r, svc') \<Rightarrow> (r, dm, svc')))\<rparr>"

definition service_session :: "u32 \<Rightarrow> daemon \<times> control_service \<Rightarrow> session_info option" where
  "service_session pid w = (case cs_resources (snd w) of None \<Rightarrow> None | Some _ \<Rightarrow> Some (session_get_info pid (dm_session (fst w))))"

text \<open>The resources have one holder, the slot or the channel, and the session has a valid root digest.\<close>

definition service_ok :: "daemon \<times> control_service \<Rightarrow> bool" where
  "service_ok w \<longleftrightarrow> valid_digest (s_root_digest (dm_session (fst w))) \<and> (cs_resources (snd w) \<noteq> None \<longrightarrow> cs_channel (snd w) = [])"

interpretation ctl: control_server "control_service_rpc pid" "service_session pid" service_ok for pid
  by unfold_locales
    (auto simp: control_service_rpc_def service_session_def service_ok_def check_protocol_def active_info_def control_status_def
      control_snapshot_def control_shutdown_def validate_protocol_def PROTOCOL_VERSION_def CLIENT_PROTOCOL_VERSION_def try_send_def
      session_get_info_def map_ok_def split: option.splits)

section \<open>Properties\<close>

text \<open>
  C39 The client sees the session the daemon serves. Against the daemon's own control service, a client connects, its
  status request returns the root digest, mountpoint, process id and socket of the served session unchanged, and a
  snapshot request is reported as unsupported. After one shutdown request, which is accepted, every further
  request of any client, to connect, for the status, a snapshot or another shutdown, fails as unavailable, so that callers fall back to the
  retained state.
\<close>

theorem client_sees_session:
  assumes "cs_resources svc = Some r" "cs_channel svc = []" "valid_digest (s_root_digest (dm_session dm))"
  shows "client_connect (control_service_rpc pid) endpoint (dm, svc) = Some (Ok (), dm, svc) \<and>
    client_status (control_service_rpc pid) (dm, svc) = Some (Ok (status_of (session_get_info pid (dm_session dm))), dm, svc) \<and>
    (\<exists>e. client_snapshot (control_service_rpc pid) (dm, svc) = Some (Err e, dm, svc) \<and> client_error_code e = ''daemon_unsupported'') \<and>
    (\<exists>w'. client_shutdown (control_service_rpc pid) (dm, svc) = Some (Ok (), w') \<and>
       (\<exists>e. client_connect (control_service_rpc pid) endpoint w' = Some (Err e, w') \<and> is_unavailable e) \<and>
       (\<exists>e. client_status (control_service_rpc pid) w' = Some (Err e, w') \<and> is_unavailable e) \<and>
       (\<exists>e. client_snapshot (control_service_rpc pid) w' = Some (Err e, w') \<and> is_unavailable e) \<and>
       (\<exists>e. client_shutdown (control_service_rpc pid) w' = Some (Err e, w') \<and> is_unavailable e))"
proof -
  have s: "service_ok (dm, svc)" "service_session pid (dm, svc) = Some (session_get_info pid (dm_session dm))"
    using assms by (simp_all add: service_ok_def service_session_def)
  show ?thesis using ctl.status_served [OF s] ctl.after_shutdown [OF s] by blast
qed

theorem client_sees_session_witness:
  "client_status (control_service_rpc 9) (demo_daemon, \<lparr>cs_resources = Some \<lparr>dr_socket = ''/h/session/control.sock''\<rparr>, cs_channel = []\<rparr>) =
     Some (Ok (status_of (session_get_info 9 demo_session)), demo_daemon, \<lparr>cs_resources = Some \<lparr>dr_socket = ''/h/session/control.sock''\<rparr>, cs_channel = []\<rparr>)"
proof -
  have "valid_digest (s_root_digest (dm_session demo_daemon))" by (simp add: demo_daemon_def demo_session_def demo_digest_valid)
  from client_sees_session [OF _ _ this, of "\<lparr>cs_resources = Some \<lparr>dr_socket = ''/h/session/control.sock''\<rparr>, cs_channel = []\<rparr>"
      "\<lparr>dr_socket = ''/h/session/control.sock''\<rparr>" 9] show ?thesis by (simp add: demo_daemon_def)
qed

end
