(* ===== verification/Cli.thy ===== *)
theory Cli
  imports Daemon_Client Upload
begin

text \<open>
  The command line program (\<^verbatim>\<open>crates/rfs/src/cli.rs\<close>, \<^verbatim>\<open>bootstrap_upload.rs\<close> and \<^verbatim>\<open>main.rs\<close>): configuration, upload, starting
  a daemon and waiting until it serves the mount, status and unmounting. Argument parsing is left to clap, so a parsed
  command line is where the model starts; the other processes, the clock and the terminal are a record of operations on
  the state \<open>'w\<close> of the surroundings. Requests to the daemon have no timeout in the code, so they may never be answered; a
  command that waits for one then does not return, which is \<open>None\<close>. Time is in milliseconds.
\<close>

section \<open>Command lines and errors\<close>

definition DAEMON_EXIT_TIMEOUT :: nat where "DAEMON_EXIT_TIMEOUT = 30000"
definition DAEMON_EXIT_POLL_INTERVAL :: nat where "DAEMON_EXIT_POLL_INTERVAL = 25"
definition DAEMON_READY_TIMEOUT :: nat where "DAEMON_READY_TIMEOUT = 15000"
definition DAEMON_READY_POLL_INTERVAL :: nat where "DAEMON_READY_POLL_INTERVAL = 25"

datatype log_level = LevelError | LevelWarn | LevelInfo | LevelDebug
datatype output_format = OutputText | OutputJson

fun log_level_as_str :: "log_level \<Rightarrow> string" where
  "log_level_as_str LevelError = ''error''"
| "log_level_as_str LevelWarn = ''warn''"
| "log_level_as_str LevelInfo = ''info''"
| "log_level_as_str LevelDebug = ''debug''"

fun output_format_as_str :: "output_format \<Rightarrow> string" where
  "output_format_as_str OutputText = ''text''"
| "output_format_as_str OutputJson = ''json''"

datatype commands =
    UploadCommand string
  | MountCommand string string
  | SnapshotCommand
  | UnmountCommand
  | StatusCommand

fun command_name :: "commands \<Rightarrow> string" where
  "command_name (UploadCommand _) = ''upload''"
| "command_name (MountCommand _ _) = ''mount''"
| "command_name SnapshotCommand = ''snapshot''"
| "command_name UnmountCommand = ''unmount''"
| "command_name StatusCommand = ''status''"

record cli =
  cl_cas_url :: "string option"
  cl_instance_name :: "string option"
  cl_log_level :: log_level
  cl_output_format :: output_format
  cl_command :: commands

definition json_output :: "cli \<Rightarrow> bool" where
  "json_output c \<longleftrightarrow> cl_output_format c = OutputJson"

record cli_config =
  cfg_cas_url :: string
  cfg_instance_name :: string

datatype cli_error =
    InvalidConfig string
  | InvalidDigest string
  | NotImplemented string
  | CommandFailed string string

fun cli_error_category :: "cli_error \<Rightarrow> string" where
  "cli_error_category (InvalidConfig _) = ''invalid_config''"
| "cli_error_category (InvalidDigest _) = ''invalid_digest''"
| "cli_error_category (NotImplemented _) = ''not_implemented''"
| "cli_error_category (CommandFailed category _) = category"

fun cli_error_text :: "cli_error \<Rightarrow> string" where
  "cli_error_text (InvalidConfig message) = message"
| "cli_error_text (InvalidDigest value) = ''invalid root digest `'' @ value @ ''`''"
| "cli_error_text (NotImplemented command) = command @ '' is not implemented yet''"
| "cli_error_text (CommandFailed category message) = message"

definition validate_cas_url :: "string \<Rightarrow> (unit, cli_error) result" where
  "validate_cas_url url =
     (if (case strip_prefix ''grpc://'' url of Some rest \<Rightarrow> rest \<noteq> [] | None \<Rightarrow> False) then Ok ()
      else Err (InvalidConfig ''unsupported CAS URL; MVP supports grpc:// endpoints only''))"

definition non_empty :: "string option \<Rightarrow> string option" where
  "non_empty v = (case v of Some s \<Rightarrow> if s = [] then None else Some s | None \<Rightarrow> None)"

definition resolve_cli_config :: "(string \<Rightarrow> string option) \<Rightarrow> cli \<Rightarrow> (cli_config, cli_error) result" where
  "resolve_cli_config var c =
     and_then (ok_or (non_empty (or_else (cl_cas_url c) (var ''RFS_CAS_URL'')))
         (InvalidConfig ''missing CAS URL; pass --cas-url or set RFS_CAS_URL'')) (\<lambda>url.
     and_then (validate_cas_url url) (\<lambda>_.
     and_then (ok_or (non_empty (or_else (cl_instance_name c) (var ''RFS_INSTANCE_NAME'')))
         (InvalidConfig ''missing instance name; pass --instance-name or set RFS_INSTANCE_NAME'')) (\<lambda>name.
       Ok \<lparr>cfg_cas_url = url, cfg_instance_name = name\<rparr>)))"

definition parse_root_digest :: "string \<Rightarrow> (digest, cli_error) result" where
  "parse_root_digest value = map_err (\<lambda>_. InvalidDigest value) (digest_from_str value)"

definition cli_client_error :: "client_error \<Rightarrow> cli_error" where
  "cli_client_error e = CommandFailed (client_error_code e) ''daemon request failed''"

definition cli_config_error :: "config_error \<Rightarrow> cli_error" where
  "cli_config_error e = InvalidConfig ''RFS_HOME cannot be resolved''"

fun state_error_category :: "session_error \<Rightarrow> string" where
  "state_error_category (Context _ e) = state_error_category e"
| "state_error_category (FailedPreconditionError _) = ''failed_precondition''"
| "state_error_category _ = ''unknown_error''"

definition state_error :: "session_error \<Rightarrow> cli_error" where
  "state_error e = CommandFailed (state_error_category e) ''session error''"

section \<open>Output\<close>

text \<open>What a command prints; the JSON text is made by \<^verbatim>\<open>serde_json\<close>, a parameter.\<close>

datatype cli_output =
    UploadOutput digest
  | MountOutput digest string u32
  | ActiveOutput session_status
  | RetainedOutput session_info
  | NoSessionOutput
  | UnmountOutput string
  | ErrorOutput string string string

fun render_text :: "cli_output \<Rightarrow> string" where
  "render_text (UploadOutput d) = digest_to_string d"
| "render_text (MountOutput d mountpoint pid) = ''mounted '' @ digest_to_string d @ '' at '' @ mountpoint"
| "render_text (ActiveOutput s) =
     ''active session: mountpoint='' @ ss_mountpoint s @ '' root_digest='' @ digest_to_string (ss_root_digest s) @
     '' daemon_pid='' @ show_nat (unat (ss_daemon_pid s)) @ '' socket='' @ ss_control_socket s @
     '' dirty='' @ (if ss_dirty s then ''true'' else ''false'')"
| "render_text (RetainedOutput i) =
     ''inactive session: mountpoint='' @ info_mountpoint i @ '' root_digest='' @ digest_to_string (info_root_digest i) @
     '' daemon_pid='' @ show_nat (unat (info_daemon_pid i))"
| "render_text NoSessionOutput = ''no RemoteFS session''"
| "render_text (UnmountOutput mountpoint) = ''unmounted '' @ mountpoint"
| "render_text (ErrorOutput command category message) = category @ '': '' @ message"

text \<open>
  \<open>hs_clock\<close> is \<^verbatim>\<open>Instant::now\<close>; \<open>hs_try_wait\<close> looks whether the spawned child has exited; \<open>hs_kill\<close> and \<open>hs_reap\<close> kill it and wait
  for it, their results are dropped, and the wait may not return, for instance when the kill failed; \<open>hs_signal\<close> is \<^verbatim>\<open>kill(pid, 0)\<close> with its errno. \<open>hs_fs\<close> and \<open>hs_database\<close> are the files of the session home.
\<close>

record 'w cli_host =
  hs_rpc :: "'w control_rpc"
  hs_var :: "string \<Rightarrow> string option"
  hs_clock :: "'w \<Rightarrow> nat"
  hs_sleep :: "nat \<Rightarrow> 'w \<Rightarrow> 'w"
  hs_try_wait :: "'w \<Rightarrow> (string option, string) result \<times> 'w"
  hs_kill :: "'w \<Rightarrow> 'w"
  hs_reap :: "'w \<Rightarrow> 'w option"
  hs_signal :: "int \<Rightarrow> 'w \<Rightarrow> int option \<times> 'w"
  hs_store :: store_env
  hs_fs :: "'w \<Rightarrow> local_fs"
  hs_database :: "'w \<Rightarrow> db option"
  hs_create_home :: "string \<Rightarrow> 'w \<Rightarrow> (unit, string) result \<times> 'w"
  hs_current_exe :: "'w \<Rightarrow> (string, string) result"
  hs_create_file :: "string \<Rightarrow> 'w \<Rightarrow> (unit, string) result \<times> 'w"
  hs_clone_handle :: "'w \<Rightarrow> (unit, string) result \<times> 'w"
  hs_spawn :: "string \<Rightarrow> string list \<Rightarrow> 'w \<Rightarrow> (unit, string) result \<times> 'w"
  hs_json :: "cli_output \<Rightarrow> string"
  hs_print :: "string \<Rightarrow> 'w \<Rightarrow> 'w"
  hs_eprint :: "string \<Rightarrow> 'w \<Rightarrow> 'w"
  hs_subscriber :: "subscriber option"

definition print_output :: "'w cli_host \<Rightarrow> bool \<Rightarrow> cli_output \<Rightarrow> 'w \<Rightarrow> 'w" where
  "print_output h json out w = hs_print h (if json then hs_json h out else render_text out) w"

section \<open>Starting a daemon\<close>

definition cli_daemon_client :: "'w cli_host \<Rightarrow> string \<Rightarrow> 'w \<Rightarrow> (unit, client_error, 'w) call" where
  "cli_daemon_client h home w =
     (case session_control_endpoint home (hs_fs h w) of
        Inl e \<Rightarrow> Some (Err (ClientConnect (path_join home ''active/control.sock'') ''derive session control endpoint''), w)
      | Inr endpoint \<Rightarrow> client_connect (hs_rpc h) endpoint w)"

definition probe_status :: "'w cli_host \<Rightarrow> string \<Rightarrow> 'w \<Rightarrow> (session_status, client_error, 'w) call" where
  "probe_status h home w = await (cli_daemon_client h home w) (\<lambda>_. client_status (hs_rpc h))"

definition create_home :: "'w cli_host \<Rightarrow> string \<Rightarrow> 'w \<Rightarrow> (unit, cli_error) result \<times> 'w" where
  "create_home h home w =
     (if path_exists home (hs_fs h w) then (Ok (), w)
      else io_map_err (\<lambda>_. CommandFailed ''daemon_start'' ''create RemoteFS home'') (hs_create_home h home w))"

definition ensure_no_active_daemon :: "'w cli_host \<Rightarrow> string \<Rightarrow> 'w \<Rightarrow> (unit, cli_error, 'w) call" where
  "ensure_no_active_daemon h home w =
     map_option (\<lambda>(probe, w'). case probe of
         Inr status \<Rightarrow> (Err (CommandFailed ''session_active'' ''a RemoteFS session is already active''), w')
       | Inl e \<Rightarrow> if is_unavailable e then (Ok (), w') else (Err (cli_client_error e), w'))
       (probe_status h home w)"

definition open_daemon_stdio_log :: "'w cli_host \<Rightarrow> string \<Rightarrow> 'w \<Rightarrow> (unit, cli_error) result \<times> 'w" where
  "open_daemon_stdio_log h home w =
     io_map_err (\<lambda>_. CommandFailed ''daemon_start'' ''open daemon stdout/stderr log'')
       (hs_create_file h (dl_stdio (daemon_log_paths home)) w)"

definition daemon_logs_hint :: "string \<Rightarrow> string" where
  "daemon_logs_hint home =
     ''inspect daemon logs: '' @ dl_stdio (daemon_log_paths home) @ '', '' @ dl_trace (daemon_log_paths home)"

text \<open>\<^verbatim>\<open>Path::with_file_name\<close> and \<^verbatim>\<open>Path::is_file\<close>.\<close>

definition daemon_executable :: "'w cli_host \<Rightarrow> 'w \<Rightarrow> (string, cli_error) result" where
  "daemon_executable h w =
     and_then (map_err (\<lambda>_. CommandFailed ''daemon_start'' ''locate current rfs executable'') (hs_current_exe h w)) (\<lambda>current.
       let daemon = path_join (path_parent current) ''rfsd'' in
       if fs_files (hs_fs h w) daemon \<noteq> None then Ok daemon
       else Err (CommandFailed ''daemon_start'' ''could not find companion rfsd executable''))"

text \<open>One round of the loop: \<open>Inl\<close> the outcome, or \<open>Inr\<close> after the sleep; \<open>None\<close> when a request or the wait for the killed child does not return.\<close>

definition ready_round ::
  "'w cli_host \<Rightarrow> string \<Rightarrow> digest \<Rightarrow> string \<Rightarrow> nat \<Rightarrow> 'w \<Rightarrow> (((session_status, cli_error) result \<times> 'w) + 'w) option" where
  "ready_round h home d mountpoint deadline w =
     (case hs_try_wait h w of
        (Inl m, w1) \<Rightarrow> Some (Inl (Err (CommandFailed ''daemon_start'' ''inspect daemon process''), w1))
      | (Inr (Some code), w1) \<Rightarrow>
          Some (Inl (Err (CommandFailed ''daemon_start'' (''daemon exited before mount readiness; '' @ daemon_logs_hint home)), w1))
      | (Inr None, w1) \<Rightarrow>
          (case probe_status h home w1 of
             None \<Rightarrow> None
           | Some (Inr status, w2) \<Rightarrow>
               if ss_root_digest status \<noteq> d \<or> ss_mountpoint status \<noteq> mountpoint
               then map_option (\<lambda>w3. Inl (Err (CommandFailed ''daemon_start'' ''daemon readiness identity did not match requested mount''), w3))
                 (hs_reap h (hs_kill h w2))
               else Some (Inl (Ok status, w2))
           | Some (Inl e, w2) \<Rightarrow>
               if deadline \<le> hs_clock h w2
               then map_option (\<lambda>w3. Inl (Err (CommandFailed ''daemon_start'' (''daemon did not become ready in time; '' @ daemon_logs_hint home)), w3))
                 (hs_reap h (hs_kill h w2))
               else Some (Inr (hs_sleep h DAEMON_READY_POLL_INTERVAL w2))))"

partial_function (option) ready_loop ::
  "'w cli_host \<Rightarrow> string \<Rightarrow> digest \<Rightarrow> string \<Rightarrow> nat \<Rightarrow> 'w \<Rightarrow> (session_status, cli_error, 'w) call" where
  "ready_loop h home d mountpoint deadline w =
     (case ready_round h home d mountpoint deadline w of
        None \<Rightarrow> None
      | Some step \<Rightarrow> (case step of Inl out \<Rightarrow> Some out | Inr w' \<Rightarrow> ready_loop h home d mountpoint deadline w'))"

definition wait_for_daemon_ready ::
  "'w cli_host \<Rightarrow> string \<Rightarrow> digest \<Rightarrow> string \<Rightarrow> 'w \<Rightarrow> (session_status, cli_error, 'w) call" where
  "wait_for_daemon_ready h home d mountpoint w = ready_loop h home d mountpoint (hs_clock h w + DAEMON_READY_TIMEOUT) w"

definition daemon_args :: "digest \<Rightarrow> string \<Rightarrow> cli_config \<Rightarrow> log_level \<Rightarrow> output_format \<Rightarrow> string list" where
  "daemon_args d mountpoint cas level format =
     [digest_to_string d, mountpoint, ''--cas-url'', cfg_cas_url cas, ''--instance-name'', cfg_instance_name cas,
      ''--log-level'', log_level_as_str level, ''--output-format'', output_format_as_str format]"

text \<open>Everything up to the spawned daemon; the result is the home.\<close>

definition start_daemon ::
  "'w cli_host \<Rightarrow> digest \<Rightarrow> string \<Rightarrow> cli_config \<Rightarrow> log_level \<Rightarrow> output_format \<Rightarrow> 'w \<Rightarrow> (string, cli_error, 'w) call" where
  "start_daemon h d mountpoint cas level format w =
     await (Some (map_err cli_config_error (config_home (hs_var h)), w)) (\<lambda>home w.
     await (Some (create_home h home w)) (\<lambda>_ w.
     await (ensure_no_active_daemon h home w) (\<lambda>_ w.
     await (Some (daemon_executable h w, w)) (\<lambda>daemon w.
     await (Some (open_daemon_stdio_log h home w)) (\<lambda>_ w.
     await (Some (io_map_err (\<lambda>_. CommandFailed ''daemon_start'' ''duplicate daemon stdout/stderr log handle'') (hs_clone_handle h w))) (\<lambda>_ w.
     await (Some (io_map_err (\<lambda>_. CommandFailed ''daemon_start'' ''start daemon'') (hs_spawn h daemon (daemon_args d mountpoint cas level format) w))) (\<lambda>_ w.
       Some (Ok home, w))))))))"

definition run_mount ::
  "'w cli_host \<Rightarrow> digest \<Rightarrow> string \<Rightarrow> cli_config \<Rightarrow> log_level \<Rightarrow> output_format \<Rightarrow> 'w \<Rightarrow> (unit, cli_error, 'w) call" where
  "run_mount h d mountpoint cas level format w =
     await (start_daemon h d mountpoint cas level format w) (\<lambda>home w1.
     await (wait_for_daemon_ready h home d mountpoint w1) (\<lambda>status w2.
       Some (Ok (), print_output h (format = OutputJson) (MountOutput d mountpoint (ss_daemon_pid status)) w2)))"

section \<open>Status and unmount\<close>

definition run_status :: "'w cli_host \<Rightarrow> string \<Rightarrow> bool \<Rightarrow> 'w \<Rightarrow> (unit, cli_error, 'w) call" where
  "run_status h home json w =
     map_option (\<lambda>(probe, w1). case probe of
         Inr status \<Rightarrow> (Ok (), print_output h json (ActiveOutput status) w1)
       | Inl e \<Rightarrow>
           if \<not> is_unavailable e then (Err (cli_client_error e), w1)
           else
             (case session_inspect (hs_store h) home (hs_fs h w1) (hs_database h w1) of
                Inl e \<Rightarrow> (Err (state_error e), w1)
              | Inr None \<Rightarrow> (Ok (), print_output h json NoSessionOutput w1)
              | Inr (Some info) \<Rightarrow> (Ok (), print_output h json (RetainedOutput info) w1)))
       (probe_status h home w)"

definition ESRCH :: int where "ESRCH = 3"

definition process_exists :: "'w cli_host \<Rightarrow> u32 \<Rightarrow> 'w \<Rightarrow> bool \<times> 'w" where
  "process_exists h pid w =
     (if \<not> is_i32 (uint pid) then (False, w)
      else case hs_signal h (uint pid) w of
        (None, w') \<Rightarrow> (True, w')
      | (Some errno, w') \<Rightarrow> (errno \<noteq> ESRCH, w'))"

text \<open>One round of the loop: \<open>Inl\<close> the outcome, or \<open>Inr\<close> after the sleep.\<close>

definition exit_round :: "'w cli_host \<Rightarrow> u32 \<Rightarrow> nat \<Rightarrow> 'w \<Rightarrow> (bool \<times> 'w) + 'w" where
  "exit_round h pid deadline w =
     (case process_exists h pid w of
        (False, w') \<Rightarrow> Inl (True, w')
      | (True, w') \<Rightarrow>
          if deadline \<le> hs_clock h w' then Inl (False, w') else Inr (hs_sleep h DAEMON_EXIT_POLL_INTERVAL w'))"

partial_function (option) exit_loop :: "'w cli_host \<Rightarrow> u32 \<Rightarrow> nat \<Rightarrow> 'w \<Rightarrow> (bool \<times> 'w) option" where
  "exit_loop h pid deadline w =
     (case exit_round h pid deadline w of Inl out \<Rightarrow> Some out | Inr w' \<Rightarrow> exit_loop h pid deadline w')"

definition wait_for_process_exit :: "'w cli_host \<Rightarrow> u32 \<Rightarrow> 'w \<Rightarrow> (bool \<times> 'w) option" where
  "wait_for_process_exit h pid w = exit_loop h pid (hs_clock h w + DAEMON_EXIT_TIMEOUT) w"

text \<open>What follows the wait: the retained session decides.\<close>

definition finish_unmount :: "'w cli_host \<Rightarrow> string \<Rightarrow> session_status \<Rightarrow> bool \<Rightarrow> 'w \<Rightarrow> (unit, cli_error) result \<times> 'w" where
  "finish_unmount h home status exited w =
     (case map_err state_error (session_context ''getting session info'' (session_inspect (hs_store h) home (hs_fs h w) (hs_database h w))) of
        Inl e \<Rightarrow> (Err e, w)
      | Inr session \<Rightarrow>
          (let closed = (case session of Some info \<Rightarrow> info_closed info | None \<Rightarrow> False);
               problem = (if exited then ''daemon exited without closing its session'' else ''daemon is still shutting down'');
               logs = daemon_logs_hint home
           in if exited \<and> closed then (Ok (), hs_print h (render_text (UnmountOutput (ss_mountpoint status))) w)
              else (Err (CommandFailed ''daemon_shutdown''
                (case session of Some _ \<Rightarrow> problem @ ''; '' @ logs | None \<Rightarrow> problem @ ''; retained session state is missing; '' @ logs)), w)))"

definition run_unmount :: "'w cli_host \<Rightarrow> string \<Rightarrow> 'w \<Rightarrow> (unit, cli_error, 'w) call" where
  "run_unmount h home w =
     await (await_map_err cli_client_error (probe_status h home w)) (\<lambda>status w1.
     await (await_map_err cli_client_error (client_shutdown (hs_rpc h) w1)) (\<lambda>_ w2.
       map_option (\<lambda>(exited, w3). finish_unmount h home status exited w3) (wait_for_process_exit h (ss_daemon_pid status) w2)))"

section \<open>Upload\<close>

text \<open>
  What an upload uses besides the CAS client: the hash, the encoding of a directory, the local file system and the order
  of the \<^verbatim>\<open>HashMap\<close>. \<open>ue_is_dir\<close> is \<^verbatim>\<open>Path::is_dir\<close>, which follows links.
\<close>

record 's upload_env =
  ue_sha :: "bytes \<Rightarrow> string"
  ue_enc :: "directory \<Rightarrow> bytes"
  ue_host :: upload_host
  ue_completes :: "local_file \<Rightarrow> bool"
  ue_order :: "digest list \<Rightarrow> digest list"
  ue_is_dir :: "string \<Rightarrow> bool"
  ue_tree :: "string \<Rightarrow> host_node option"
  ue_parallelism :: "usize option"
  ue_dial :: "cas_config \<Rightarrow> ('s cas_client, cas_error) result"

datatype bootstrap_upload_error =
    BootstrapInvalidConfig cas_error
  | BootstrapInvalidRoot string
  | BootstrapConnect cas_error
  | BootstrapUpload string upload_error

definition bootstrap_connect :: "'s upload_env \<Rightarrow> cli_config \<Rightarrow> ('s cas_client, bootstrap_upload_error) result" where
  "bootstrap_connect env config =
     and_then (map_err BootstrapInvalidConfig (config_new (cfg_cas_url config) (cfg_instance_name config))) (\<lambda>cas_config.
       map_err BootstrapConnect (ue_dial env cas_config))"

definition bootstrap_upload ::
  "'s upload_env \<Rightarrow> 's cas_client \<Rightarrow> string \<Rightarrow> 's world \<Rightarrow> (digest, bootstrap_upload_error) result \<times> 's world" where
  "bootstrap_upload env client path w =
     (if \<not> ue_is_dir env path then (Err (BootstrapInvalidRoot path), w)
      else io_then (io_map_err (BootstrapUpload path)
          (upload_local_directory (ue_sha env) (ue_enc env) (ue_host env) (ue_completes env) (ue_order env) (cas_blob_store client)
             path (ue_tree env path) (default_upload_options (ue_parallelism env)) w)) (\<lambda>summary w'. (Ok (us_root_digest summary), w')))"

definition run_upload :: "'s upload_env \<Rightarrow> cli_config \<Rightarrow> string \<Rightarrow> 's world \<Rightarrow> (digest, cli_error) result \<times> 's world" where
  "run_upload env config local_dir w =
     io_then (map_err (\<lambda>_. CommandFailed ''upload'' ''connect to bootstrap CAS'') (bootstrap_connect env config), w) (\<lambda>client w.
       io_map_err (\<lambda>_. CommandFailed ''upload'' ''upload bootstrap directory'') (bootstrap_upload env client local_dir w))"

section \<open>The program\<close>

definition run :: "'s upload_env \<Rightarrow> 's world cli_host \<Rightarrow> cli \<Rightarrow> 's world \<Rightarrow> (unit, cli_error, 's world) call" where
  "run env h c w =
     (case fst (init_cli (log_level_as_str (cl_log_level c))
              (case cl_output_format c of OutputText \<Rightarrow> LogText | OutputJson \<Rightarrow> LogJson) (hs_subscriber h)) of
        Inl e \<Rightarrow> Some (Err (CommandFailed ''logging'' (logging_text e)), w)
      | Inr _ \<Rightarrow>
          (case cl_command c of
             UploadCommand local_dir \<Rightarrow>
               Some (io_then (resolve_cli_config (hs_var h) c, w) (\<lambda>config w2.
                 io_then (run_upload env config local_dir w2) (\<lambda>d w3.
                   (Ok (), print_output h (json_output c) (UploadOutput d) w3))))
           | MountCommand root_digest mountpoint \<Rightarrow>
               (case and_then (parse_root_digest root_digest) (\<lambda>d. and_then (resolve_cli_config (hs_var h) c) (\<lambda>config. Ok (d, config))) of
                  Inl e \<Rightarrow> Some (Err e, w)
                | Inr (d, config) \<Rightarrow> run_mount h d mountpoint config (cl_log_level c) (cl_output_format c) w)
           | SnapshotCommand \<Rightarrow> Some (Err (NotImplemented ''snapshot''), w)
           | UnmountCommand \<Rightarrow>
               (case config_home (hs_var h) of
                  Inl e \<Rightarrow> Some (Err (cli_config_error e), w)
                | Inr home \<Rightarrow> run_unmount h home w)
           | StatusCommand \<Rightarrow>
               (case config_home (hs_var h) of
                  Inl e \<Rightarrow> Some (Err (cli_config_error e), w)
                | Inr home \<Rightarrow> run_status h home (json_output c) w)))"

definition render_error_for_command :: "'w cli_host \<Rightarrow> cli_error \<Rightarrow> bool \<Rightarrow> string \<Rightarrow> string" where
  "render_error_for_command h e json command =
     (let out = ErrorOutput command (cli_error_category e) (cli_error_text e) in if json then hs_json h out else render_text out)"

text \<open>The exit code of the process, for a parsed command line.\<close>

definition rfs_main :: "'s upload_env \<Rightarrow> 's world cli_host \<Rightarrow> cli \<Rightarrow> 's world \<Rightarrow> (nat \<times> 's world) option" where
  "rfs_main env h c w =
     map_option (\<lambda>(r, w'). case r of
         Inr _ \<Rightarrow> (0, w')
       | Inl e \<Rightarrow> (1, hs_eprint h (render_error_for_command h e (json_output c) (command_name (cl_command c))) w'))
       (run env h c w)"

section \<open>The loops end\<close>

text \<open>
  What the program relies on of its surroundings for its timeouts: nothing sets the clock back and a sleep lasts
  at least as long as asked.
\<close>

definition never_back :: "'w cli_host \<Rightarrow> 'w \<Rightarrow> 'w \<Rightarrow> bool" where
  "never_back h w w' \<longleftrightarrow> hs_clock h w \<le> hs_clock h w'"

definition ticking :: "'w cli_host \<Rightarrow> bool" where
  "ticking h \<longleftrightarrow> (\<forall>n w. hs_clock h w + n \<le> hs_clock h (hs_sleep h n w)) \<and> (\<forall>w. never_back h w (snd (hs_try_wait h w))) \<and>
     (\<forall>pid w. never_back h w (snd (hs_signal h pid w))) \<and>
     (\<forall>p w x w'. rpc_connect (hs_rpc h) p w = Some (x, w') \<longrightarrow> never_back h w w') \<and>
     (\<forall>v w x w'. rpc_check_protocol (hs_rpc h) v w = Some (x, w') \<longrightarrow> never_back h w w') \<and>
     (\<forall>v w x w'. rpc_status (hs_rpc h) v w = Some (x, w') \<longrightarrow> never_back h w w')"

lemma tickingD:
  assumes "ticking h"
  shows "hs_clock h w + n \<le> hs_clock h (hs_sleep h n w)" "never_back h w (snd (hs_try_wait h w))" "never_back h w (snd (hs_signal h pid w))"
    "rpc_connect (hs_rpc h) p w = Some (x, w') \<Longrightarrow> never_back h w w'"
    "rpc_check_protocol (hs_rpc h) v w = Some (y, w') \<Longrightarrow> never_back h w w'"
    "rpc_status (hs_rpc h) v w = Some (z, w') \<Longrightarrow> never_back h w w'"
  using assms unfolding ticking_def by blast+

lemma never_back_refl [simp]: "never_back h w w"
  by (simp add: never_back_def)




lemma deadline_progress: "c \<le> c1 \<Longrightarrow> c1 < deadline \<Longrightarrow> c1 + 25 \<le> c2 \<Longrightarrow> deadline - c2 < deadline - (c :: nat)"
  by arith







lemma process_exists_never_back: "ticking h \<Longrightarrow> never_back h w (snd (process_exists h pid w))"
  using tickingD(3) [of h w "uint pid"] by (auto simp: process_exists_def split: prod.splits option.splits)

lemma exit_loop_ends:
  assumes "ticking h"
  shows "\<exists>b w'. exit_loop h pid deadline w = Some (b, w') \<and> (b \<longrightarrow> (\<exists>w1. process_exists h pid w1 = (False, w')))"
proof (induction "deadline - hs_clock h w" arbitrary: w rule: less_induct)
  case less
  obtain b w1 where w1: "process_exists h pid w = (b, w1)" by fastforce
  show ?case
  proof (cases "b \<and> hs_clock h w1 < deadline")
    case True
    let ?w' = "hs_sleep h DAEMON_EXIT_POLL_INTERVAL w1"
    have round: "exit_round h pid deadline w = Inr ?w'" using True w1 by (simp add: exit_round_def)
    have "hs_clock h w \<le> hs_clock h w1" "hs_clock h w1 + 25 \<le> hs_clock h ?w'"
      using process_exists_never_back [OF assms, of w pid] tickingD(1) [OF assms, of w1 DAEMON_EXIT_POLL_INTERVAL] w1
      by (simp_all add: never_back_def DAEMON_EXIT_POLL_INTERVAL_def)
    from less [OF deadline_progress [OF this(1) conjunct2 [OF True] this(2)]] round show ?thesis by (subst exit_loop.simps) simp
  next
    case False
    then have "exit_round h pid deadline w = Inl (\<not> b, w1)" using w1 by (cases b) (simp_all add: exit_round_def)
    then have "exit_loop h pid deadline w = Some (\<not> b, w1)" by (simp add: exit_loop.simps)
    with w1 show ?thesis by (intro exI [of _ "\<not> b"] exI [of _ w1]) auto
  qed
qed

section \<open>Properties\<close>


text \<open>
  A gap between the wait and its documentation. The comment on \<^verbatim>\<open>wait_for_daemon_ready\<close> says that the child is killed when
  the timeout elapses; but when a daemon accepts the connection and does not answer, the wait never looks at the clock again.
\<close>

theorem ready_wait_hangs:
  assumes "hs_try_wait h w = (Ok None, w1)" "probe_status h home w1 = None"
  shows "wait_for_daemon_ready h home d mountpoint w = None"
  using assms by (simp add: wait_for_daemon_ready_def ready_loop.simps ready_round_def)

text \<open>A clock, and whether the daemon has been spawned.\<close>

definition demo_cli_host :: "(nat \<times> bool) cli_host" where
  "demo_cli_host =
     \<lparr>hs_rpc = \<lparr>rpc_connect = (\<lambda>p w. Some (if snd w then Ok () else Err ''refused'', w)), rpc_check_protocol = (\<lambda>v w. Some (Ok 1, w)),
        rpc_status = (\<lambda>v w. Some (Ok \<lparr>sr_mounted = True, sr_root_digest = digest_to_string demo_digest, sr_mountpoint = ''/m'', sr_dirty_files = 0,
          sr_protocol_version = 1, sr_daemon_pid = 9, sr_control_socket = ''/h/session/control.sock'', sr_dirty = False, sr_snapshot_blockers = []\<rparr>, w)),
        rpc_snapshot = (\<lambda>v w. Some (Ok [], w)), rpc_shutdown = (\<lambda>v w. Some (Ok (), fst w, False))\<rparr>,
      hs_var = (\<lambda>v. if v = ''RFS_HOME'' then Some ''/h'' else None), hs_clock = fst, hs_sleep = (\<lambda>n w. (fst w + n, snd w)),
      hs_try_wait = (\<lambda>w. (Ok None, w)), hs_kill = (\<lambda>w. (fst w, False)), hs_reap = (\<lambda>w. Some w),
      hs_signal = (\<lambda>pid w. (if snd w then None else Some ESRCH, w)), hs_store = demo_env,
      hs_fs = (\<lambda>w. \<lparr>fs_files = [''/b/rfsd'' \<mapsto> []], fs_dirs = {''/h'', ''/b'', ''/h/session''}\<rparr>), hs_database = (\<lambda>w. Some (connection demo_store)),
      hs_create_home = (\<lambda>p w. (Ok (), w)), hs_current_exe = (\<lambda>w. Ok ''/b/rfs''), hs_create_file = (\<lambda>p w. (Ok (), w)),
      hs_clone_handle = (\<lambda>w. (Ok (), w)), hs_spawn = (\<lambda>p args w. (Ok (), fst w, True)), hs_json = (\<lambda>_. []),
      hs_print = (\<lambda>t w. w), hs_eprint = (\<lambda>t w. w), hs_subscriber = None\<rparr>"




text \<open>
  C20 An unmount that reports success is complete. When \<^verbatim>\<open>run_unmount\<close> reports success, the daemon answered a status request and accepted
  the shutdown, its process was seen to be gone, and the retained session in the home was then found closed. Assuming a clock that is never set
  back and sleeps that last as long as asked, the wait for the process ends: the command fails to return exactly when
  the status request or the shutdown request is never answered.
\<close>

theorem unmount_outcome:
  assumes "ticking h"
  shows "(run_unmount h home w = None \<longleftrightarrow> probe_status h home w = None \<or>
      (\<exists>status w1. probe_status h home w = Some (Ok status, w1) \<and> client_shutdown (hs_rpc h) w1 = None)) \<and>
    (\<forall>w'. run_unmount h home w = Some (Ok (), w') \<longrightarrow>
      (\<exists>status w1 w2 w3 w4 info. probe_status h home w = Some (Ok status, w1) \<and> client_shutdown (hs_rpc h) w1 = Some (Ok (), w2) \<and>
       process_exists h (ss_daemon_pid status) w3 = (False, w4) \<and>
       session_inspect (hs_store h) home (hs_fs h w4) (hs_database h w4) = Ok (Some info) \<and> info_closed info \<and>
       w' = hs_print h (''unmounted '' @ ss_mountpoint status) w4))"
proof (intro conjI allI impI)
  have ends: "\<exists>b w'. wait_for_process_exit h pid w = Some (b, w') \<and> (b \<longrightarrow> (\<exists>w1. process_exists h pid w1 = (False, w')))" for pid w
    using exit_loop_ends [OF assms] unfolding wait_for_process_exit_def by blast
  have returns: "(wait_for_process_exit h pid w = None) = False" for pid w using ends [of pid w] by auto
  show "run_unmount h home w = None \<longleftrightarrow> probe_status h home w = None \<or>
      (\<exists>status w1. probe_status h home w = Some (Ok status, w1) \<and> client_shutdown (hs_rpc h) w1 = None)"
    by (auto simp: run_unmount_def result_simps returns)
  fix w' assume "run_unmount h home w = Some (Ok (), w')"
  then obtain status w1 w2 where w1: "probe_status h home w = Some (Ok status, w1)" "client_shutdown (hs_rpc h) w1 = Some (Ok (), w2)"
    and m: "map_option (\<lambda>(exited, w3). finish_unmount h home status exited w3) (wait_for_process_exit h (ss_daemon_pid status) w2) = Some (Ok (), w')"
    by (auto simp: run_unmount_def result_simps)
  obtain b w4 where b: "wait_for_process_exit h (ss_daemon_pid status) w2 = Some (b, w4)"
    "b \<longrightarrow> (\<exists>w3. process_exists h (ss_daemon_pid status) w3 = (False, w4))" using ends by blast
  with m have f: "finish_unmount h home status b w4 = (Ok (), w')" by simp
  then have "b \<and> w' = hs_print h (''unmounted '' @ ss_mountpoint status) w4 \<and>
      (\<exists>info. session_inspect (hs_store h) home (hs_fs h w4) (hs_database h w4) = Ok (Some info) \<and> info_closed info)"
    by (auto simp: finish_unmount_def Let_def split: sum.splits option.splits if_splits simp: result_simps)
  with w1 b(2) show "\<exists>status w1 w2 w3 w4 info. probe_status h home w = Some (Ok status, w1) \<and> client_shutdown (hs_rpc h) w1 = Some (Ok (), w2) \<and>
       process_exists h (ss_daemon_pid status) w3 = (False, w4) \<and>
       session_inspect (hs_store h) home (hs_fs h w4) (hs_database h w4) = Ok (Some info) \<and> info_closed info \<and>
       w' = hs_print h (''unmounted '' @ ss_mountpoint status) w4" by blast
qed

text \<open>The retained session of a daemon that has closed.\<close>

definition demo_unmount_host :: "(nat \<times> bool) cli_host" where
  "demo_unmount_host = demo_cli_host\<lparr>hs_database := \<lambda>w. Some (connection (snd (store_close demo_env (Some 9) demo_store)))\<rparr>"

lemma demo_unmount_ticking: "ticking demo_unmount_host"
  by (simp add: ticking_def never_back_def demo_unmount_host_def demo_cli_host_def)

lemma demo_inspect_closed:
  "\<exists>info. session_inspect demo_env ''/h'' (hs_fs demo_unmount_host w) (hs_database demo_unmount_host w) = Ok (Some info) \<and> info_closed info"
proof -
  obtain st' md where st': "store_close demo_env (Some 9) demo_store = (Ok (), st')"
    and md: "session_of (uuid_parse_ok demo_env) (connection st') = Some md" "md_state md = Closed"
    using demo_closed by blast
  have "wf_db (uuid_parse_ok demo_env) (connection demo_store)" using reachable_store_wf [OF demo_store_reachable] by (simp add: demo_env_def)
  from store_close_wf [OF this, of "Some 9"] have v: "db_user_version (connection st') = SCHEMA_VERSION" using st' by (simp add: wf_db_def)
  have nf: "sql_fault demo_env op d = None" for op d using demo_env_no_faults by (simp add: no_faults_def)
  then have "read_stored_session demo_env p (connection st') = Ok md" for p using md(1) by (simp add: read_stored_session_eq_Ok)
  then have "store_inspect demo_env p (Some (connection st')) = Ok md" for p
    using v nf by (simp add: store_inspect_def open_database_def validate_schema_version_def schema_version_def sql_def)
  with md(2) st' show ?thesis
    by (simp add: session_inspect_def demo_unmount_host_def demo_cli_host_def path_exists_def layout_new_def path_join_def Let_def)
qed

theorem unmount_outcome_witness:
  "\<exists>w' info. run_unmount demo_unmount_host ''/h'' (0, True) = Some (Ok (), w') \<and>
     session_inspect demo_env ''/h'' (hs_fs demo_unmount_host w') (hs_database demo_unmount_host w') = Ok (Some info) \<and> info_closed info"
proof -
  obtain status where probe: "probe_status demo_unmount_host ''/h'' (0, True) = Some (Ok status, 0, True)" "ss_daemon_pid status = 9"
    using digest_parse_print [OF demo_digest_valid]
    by (simp add: probe_status_def cli_daemon_client_def session_control_endpoint_def path_exists_def client_connect_def client_ready_def
        client_status_def parse_response_digest_def CLIENT_PROTOCOL_VERSION_def demo_unmount_host_def demo_cli_host_def)
  have shut: "client_shutdown (hs_rpc demo_unmount_host) (0, True) = Some (Ok (), 0, False)"
    by (simp add: client_shutdown_def demo_unmount_host_def demo_cli_host_def)
  have "exit_loop demo_unmount_host 9 dl (0, False) = Some (True, 0, False)" for dl
    by (subst exit_loop.simps) (simp add: exit_round_def process_exists_def is_i32_def demo_unmount_host_def demo_cli_host_def)
  moreover obtain info where info: "session_inspect demo_env ''/h'' (hs_fs demo_unmount_host (0, False)) (hs_database demo_unmount_host (0, False)) = Ok (Some info)"
    "info_closed info" using demo_inspect_closed by blast
  moreover have "hs_store demo_unmount_host = demo_env" "hs_print demo_unmount_host t w = w" for t w
    by (simp_all add: demo_unmount_host_def demo_cli_host_def)
  ultimately have run: "run_unmount demo_unmount_host ''/h'' (0, True) = Some (Ok (), 0, False)"
    using probe shut by (simp add: run_unmount_def wait_for_process_exit_def finish_unmount_def)
  obtain w4 info where "session_inspect demo_env ''/h'' (hs_fs demo_unmount_host w4) (hs_database demo_unmount_host w4) = Ok (Some info)" "info_closed info"
    "(0, False) = w4"
    using unmount_outcome [OF demo_unmount_ticking, of "''/h''" "(0, True)"] run \<open>\<And>t w. hs_print demo_unmount_host t w = w\<close>
      \<open>hs_store demo_unmount_host = demo_env\<close> by auto
  with run show ?thesis by auto
qed

end
