(* ===== verification/Home.thy ===== *)
theory Home
  imports Control
begin

text \<open>
  Several daemons on one \<^verbatim>\<open>RFS_HOME\<close>: the session lock (\<^verbatim>\<open>SessionLock\<close> of \<^verbatim>\<open>crates/rfs-common/src/session.rs\<close>) across
  processes. Opening a session is split where the lock is taken, so that the steps of other processes can come between;
  the lock is released when the session is dropped, when opening fails after it was taken, and by the kernel when
  its owner dies. A process dies between the steps; what a step leaves when it stops half way are the states of its failures (\<open>io_fault\<close>).
\<close>

section \<open>Opening in two steps\<close>

text \<open>\<^verbatim>\<open>Session::open\<close> up to the lock, and from there on.\<close>

definition open_lock :: "session_env \<Rightarrow> bool \<Rightarrow> string \<Rightarrow> string \<Rightarrow> local_fs \<Rightarrow> (unit, session_error) result \<times> local_fs" where
  "open_lock env held home mountpoint fs0 =
     fs_step ''validate session mountpoint'' (validate_mountpoint (se_fs env) mountpoint fs0, fs0) (\<lambda>fs1.
     fs_step ''set up writable session home'' (ensure_writable_home (se_fs env) home fs1) (\<lambda>fs2.
     fs_step ''acquire session lock'' (lock_acquire env held (ly_session_lock (layout_new home)) fs2) (\<lambda>fs3. (Ok (), fs3))))"

definition open_locked ::
  "session_env \<Rightarrow> string \<Rightarrow> u32 \<Rightarrow> u64 option \<Rightarrow> string \<Rightarrow> digest \<Rightarrow> string \<Rightarrow> bool \<Rightarrow> local_fs \<Rightarrow>
     (session, session_error) result \<times> local_fs" where
  "open_locked env sid pid clock home root_digest mountpoint utf8 fs3 =
     (let ly = layout_new home; fe = se_fs env in
      fs_step ''write session lock record'' (lock_write_record env
        \<lparr>lr_record_version = LOCK_RECORD_VERSION, lr_session_id = sid, lr_pid = pid\<rparr> (ly_session_lock ly) fs3) (\<lambda>fs4.
      fs_step ''replace session directory'' (remove_if_present fe (ly_session ly) fs4) (\<lambda>fs5.
      fs_step ''create session directory'' (create_dir_if_absent fe (ly_session ly) fs5) (\<lambda>fs6.
      fs_step ''create session database'' (create_empty_file fe (database_file ly) fs6) (\<lambda>fs7.
      open_stores env sid pid clock ly root_digest mountpoint utf8 fs7)))))"

lemma session_open_split:
  "session_open env held sid pid clock home root mp utf8 fs0 =
     (case open_lock env held home mp fs0 of
        (Inl e, fs) \<Rightarrow> (Err e, fs)
      | (Inr _, fs) \<Rightarrow> open_locked env sid pid clock home root mp utf8 fs)"
  by (simp add: session_open_def open_lock_def open_locked_def fs_step_def Let_def split: prod.splits sum.splits)

section \<open>Processes\<close>

datatype phase = NoSession | Opening | Serving lock_record session

text \<open>The files of the home, the process that holds the \<^verbatim>\<open>flock\<close>, and what each process is doing.\<close>

record home_state =
  hm_fs :: local_fs
  hm_lock :: "nat option"
  hm_proc :: "nat \<Rightarrow> phase"

definition home_start :: "local_fs \<Rightarrow> home_state" where
  "home_start fs = \<lparr>hm_fs = fs, hm_lock = None, hm_proc = \<lambda>_. NoSession\<rparr>"

text \<open>\<^verbatim>\<open>LOCK_UN\<close> on a descriptor of process \<open>p\<close>, also what the kernel does when \<open>p\<close> dies.\<close>

definition lock_drop :: "nat \<Rightarrow> nat option \<Rightarrow> nat option" where
  "lock_drop p l = (if l = Some p then None else l)"

inductive session_step :: "session_env \<Rightarrow> session \<Rightarrow> session \<Rightarrow> bool" for env where
  step_lookup: "session_step env s (snd (lookup_child env i name s))"
| step_list: "session_step env s (snd (list_directory env i s))"
| step_read: "session_step env s (snd (session_read_range env i off sz s))"
| step_close: "session_step env s (snd (session_close env clock s))"

text \<open>The files that the daemon of a session writes beside it: the control socket and the trace log.\<close>

definition daemon_file :: "string \<Rightarrow> string \<Rightarrow> bool" where
  "daemon_file home p \<longleftrightarrow> p = ly_control_endpoint (layout_new home) \<or> p = path_join home DAEMON_TRACE_LOG"

inductive home_step :: "session_env set \<Rightarrow> string \<Rightarrow> home_state \<Rightarrow> home_state \<Rightarrow> bool" for E home where
  locked: "hm_proc st p = NoSession \<Longrightarrow> env \<in> E \<Longrightarrow> open_lock env (hm_lock st \<noteq> None) home mp (hm_fs st) = (Ok (), fs) \<Longrightarrow>
     home_step E home st (st\<lparr>hm_fs := fs, hm_lock := Some p, hm_proc := (hm_proc st)(p := Opening)\<rparr>)"
| refused: "hm_proc st p = NoSession \<Longrightarrow> env \<in> E \<Longrightarrow> open_lock env (hm_lock st \<noteq> None) home mp (hm_fs st) = (Err e, fs) \<Longrightarrow>
     home_step E home st (st\<lparr>hm_fs := fs\<rparr>)"
| opened: "hm_proc st p = Opening \<Longrightarrow> env \<in> E \<Longrightarrow> valid_digest root \<Longrightarrow>
     open_locked env sid pid clock home root mp utf8 (hm_fs st) = (Ok s, fs) \<Longrightarrow>
     r = \<lparr>lr_record_version = LOCK_RECORD_VERSION, lr_session_id = sid, lr_pid = pid\<rparr> \<Longrightarrow>
     home_step E home st (st\<lparr>hm_fs := fs, hm_proc := (hm_proc st)(p := Serving r s)\<rparr>)"
| not_opened: "hm_proc st p = Opening \<Longrightarrow> env \<in> E \<Longrightarrow>
     open_locked env sid pid clock home root mp utf8 (hm_fs st) = (Err e, fs) \<Longrightarrow>
     home_step E home st (st\<lparr>hm_fs := fs, hm_lock := lock_drop p (hm_lock st), hm_proc := (hm_proc st)(p := NoSession)\<rparr>)"
| served: "hm_proc st p = Serving r s \<Longrightarrow> env \<in> E \<Longrightarrow> session_step env (with_session_fs (hm_fs st) s) s' \<Longrightarrow>
     home_step E home st (st\<lparr>hm_fs := session_fs s', hm_proc := (hm_proc st)(p := Serving r s')\<rparr>)"
| wrote: "hm_proc st p = Serving r s \<Longrightarrow> daemon_file home path \<Longrightarrow>
     home_step E home st (st\<lparr>hm_fs := (hm_fs st)\<lparr>fs_files := (fs_files (hm_fs st))(path := content)\<rparr>\<rparr>)"
| ended: "hm_proc st p \<noteq> NoSession \<Longrightarrow>
     home_step E home st (st\<lparr>hm_lock := lock_drop p (hm_lock st), hm_proc := (hm_proc st)(p := NoSession)\<rparr>)"

abbreviation home_run :: "session_env set \<Rightarrow> string \<Rightarrow> home_state \<Rightarrow> home_state \<Rightarrow> bool" where
  "home_run E home \<equiv> (home_step E home)\<^sup>*\<^sup>*"

section \<open>What a session writes\<close>

text \<open>Of all files, requests to a session write only those of the cache.\<close>

definition cache_writes :: "cached_blob_store \<Rightarrow> cached_blob_store \<Rightarrow> bool" where
  "cache_writes c c' \<longleftrightarrow> cb_root c' = cb_root c \<and>
     (\<forall>p. (\<forall>d. valid_digest d \<longrightarrow> cache_path (cb_root c) d \<noteq> p) \<longrightarrow> fs_files (cb_fs c') p = fs_files (cb_fs c) p)"

lemma cache_writes_refl [simp]: "cache_writes c c"
  by (simp add: cache_writes_def)

lemma ensure_cached_writes:
  assumes "env_ok env" "valid_digest d" "ensure_cached (se_fs env) (se_sha env) (se_stream env) d c = (r, c')"
  shows "cache_writes c c'"
  using ensure_cached_effect [OF assms(3,2)] assms(1,2) by (auto simp: env_ok_def cache_writes_def admitted_def)

lemma cache_reads_write:
  assumes "env_ok env" "valid_digest d"
  shows "read_blob (se_fs env) (se_sha env) (se_stream env) d c = (r, c') \<Longrightarrow> cache_writes c c'"
    "cache_read_range (se_fs env) (se_sha env) (se_stream env) d off sz c = (rr, c') \<Longrightarrow> cache_writes c c'"
  using ensure_cached_writes [OF assms] by (auto simp: read_blob_def cache_read_range_def split: prod.splits sum.splits)

lemma visible_digests_valid:
  assumes "session_inv env s" "get_visible_inode env s i = Ok q"
  shows "si_directory_remote_digest q = Some d \<Longrightarrow> valid_digest d" "si_file_remote_digest q = Some d \<Longrightarrow> valid_digest d"
proof -
  obtain ns where ns: "represents (connection (s_store s)) ns" by (rule session_inv_namespace [OF assms(1)])
  have "inode_by_id ns i = Some q" using get_visible_inode_Ok [OF ns assms(2)] by simp
  then have "wf_inode q" using wf_namespaceD(4) [OF represents_wf [OF ns]] by (auto simp: inode_by_id_def dest: find_SomeD)
  then show "si_directory_remote_digest q = Some d \<Longrightarrow> valid_digest d" "si_file_remote_digest q = Some d \<Longrightarrow> valid_digest d"
    by (simp_all add: wf_inode_def)
qed

lemma ensure_directory_loaded_writes:
  assumes "env_ok env" "session_inv env s" "ensure_directory_loaded env i s = (r, s')"
  shows "cache_writes (s_cache s) (s_cache s')"
proof -
  obtain rl s1 where l: "inode_lock i s = (rl, s1)" by fastforce
  note e = inode_lock_effect [OF l]
  have inv: "session_inv env s1" using assms(2) session_inv_cong e by blast
  have load: "cache_writes (s_cache s1) (s_cache s2)"
    if "get_visible_inode env s1 i = Ok q" "si_directory_remote_digest q = Some d" "load_remote_directory env i d s1 = (r2, s2)" for q d r2 s2
    using that(3) cache_reads_write(1) [OF assms(1) visible_digests_valid(1) [OF inv that(1,2)]]
    by (fastforce simp: load_remote_directory_def fetch_children_def record_directory_read_def Let_def split: prod.splits sum.splits)
  show ?thesis
    using assms(3) l e load by (auto simp: ensure_directory_loaded_def split: sum.splits if_splits option.splits)
qed

lemma session_read_range_writes:
  assumes "env_ok env" "session_inv env s" "session_read_range env i off sz s = (r, s')"
  shows "cache_writes (s_cache s) (s_cache s')"
proof -
  obtain rl s1 where l: "inode_lock i s = (rl, s1)" by fastforce
  note e = inode_lock_effect [OF l]
  have inv: "session_inv env s1" using assms(2) session_inv_cong e by blast
  have read: "cache_writes (s_cache s1) c"
    if "get_visible_inode env s1 i = Ok q" "si_file_remote_digest q = Some d"
      "cache_read_range (se_fs env) (se_sha env) (se_stream env) d off sz (s_cache s1) = (rr, c)" for q d rr c
    using that(3) cache_reads_write(2) [OF assms(1) visible_digests_valid(2) [OF inv that(1,2)]] by blast
  show ?thesis
    using assms(3) l e read
    by (auto simp: session_read_range_def record_file_read_def Let_def split: sum.splits if_splits option.splits prod.splits)
qed

lemma session_step_keeps:
  assumes "session_step env s s'" "env_ok env" "session_inv env s"
  shows "session_inv env s' \<and> cache_writes (s_cache s) (s_cache s')"
  using assms(1)
proof cases
  case (step_lookup i name)
  then have "s' = snd (ensure_directory_loaded env i s)" by (simp add: lookup_child_def split: prod.splits sum.splits)
  with ensure_directory_loaded_writes [OF assms(2,3) prod.collapse [symmetric], of i] session_ops_inv(1) [OF assms(2,3), of i] show ?thesis by simp
next
  case (step_list i)
  then have "s' = snd (ensure_directory_loaded env i s)" by (simp add: list_directory_def split: prod.splits sum.splits)
  with ensure_directory_loaded_writes [OF assms(2,3) prod.collapse [symmetric], of i] session_ops_inv(1) [OF assms(2,3), of i] show ?thesis by simp
next
  case (step_read i off sz)
  with session_read_range_writes [OF assms(2,3) prod.collapse [symmetric], of i off sz] session_ops_inv(4) [OF assms(2,3), of i off sz] show ?thesis by simp
next
  case (step_close clock)
  with session_ops_inv(5) [OF assms(2,3), of clock] show ?thesis by (simp add: session_close_def split: prod.splits)
qed

section \<open>What opening writes\<close>

lemma fs_step_eq: "fs_step op m k = (r, fs') \<longleftrightarrow> (\<exists>e fs. m = (Err e, fs) \<and> r = Err (Context op e) \<and> fs' = fs) \<or> (\<exists>u fs. m = (Ok u, fs) \<and> k fs = (r, fs'))"
  by (auto simp: fs_step_def split: prod.splits sum.splits)

lemma lock_acquire_files:
  assumes "lock_acquire env held p fs = (r, fs')"
  shows "fs_files fs' = fs_files fs \<or> fs_files fs p = None \<and> fs_files fs' = (fs_files fs)(p \<mapsto> [])" "r = Ok () \<Longrightarrow> \<not> held"
  using assms by (auto simp: lock_acquire_def Let_def split: if_splits option.splits)

text \<open>Up to the lock, opening changes no file; it creates the lock file if there is none.\<close>

lemma open_lock_files:
  assumes "open_lock env held home mp fs = (r, fs')"
  shows "fs_files fs' = fs_files fs \<or> fs_files fs (ly_session_lock (layout_new home)) = None \<and>
    fs_files fs' = (fs_files fs)(ly_session_lock (layout_new home) \<mapsto> [])" "r = Ok () \<Longrightarrow> \<not> held"
proof -
  have home: "fs_files fs2 = fs_files fs1" if "ensure_writable_home (se_fs env) home fs1 = (x, fs2)" for fs1 fs2 x
    using that by (auto simp: ensure_writable_home_def Let_def split: if_splits option.splits)
  show "fs_files fs' = fs_files fs \<or> fs_files fs (ly_session_lock (layout_new home)) = None \<and>
    fs_files fs' = (fs_files fs)(ly_session_lock (layout_new home) \<mapsto> [])"
    using assms unfolding open_lock_def fs_step_eq by (auto dest!: home lock_acquire_files(1))
  show "r = Ok () \<Longrightarrow> \<not> held"
    using assms lock_acquire_files(2) unfolding open_lock_def fs_step_eq by fastforce
qed

lemma lock_not_in_session:
  "\<not> below (ly_session (layout_new home)) (ly_session_lock (layout_new home))"
  "ly_session_lock (layout_new home) \<noteq> database_file (layout_new home)"
  "daemon_file home p \<Longrightarrow> p \<noteq> ly_session_lock (layout_new home)"
proof -
  obtain X where X: "\<forall>p. p \<noteq> [] \<longrightarrow> hd p \<noteq> CHR ''/'' \<longrightarrow> path_join home p = X @ p"
    using path_join_prefix by blast
  have ly: "ly_session_lock (layout_new home) = X @ ''session.lock''" "ly_session (layout_new home) = X @ ''session''"
    "ly_control_endpoint (layout_new home) = X @ ''session/control.sock''" "path_join home DAEMON_TRACE_LOG = X @ ''rfsd.log''"
    using X by (simp_all add: layout_new_def Let_def DAEMON_TRACE_LOG_def) (simp add: path_join_def)
  show "\<not> below (ly_session (layout_new home)) (ly_session_lock (layout_new home))"
    unfolding below_def ly by (simp add: append_eq_append_conv_if)
  show "ly_session_lock (layout_new home) \<noteq> database_file (layout_new home)"
    unfolding database_file_def ly by (simp add: path_join_def)
  show "daemon_file home p \<Longrightarrow> p \<noteq> ly_session_lock (layout_new home)"
    unfolding daemon_file_def ly by auto
qed

lemma open_stores_files:
  assumes "open_stores env sid pid clock ly root mp utf8 fs = (r, fs')"
  shows "fs_files fs' = fs_files fs"
proof -
  have "fs_files fs2 = fs_files fs1" if "cache_open (se_fs env) (ly_cache ly) fs1 = (x, fs2)" for fs1 fs2 x
    using that by (auto simp: cache_open_def dest: create_dir_if_absent_files split: prod.splits sum.splits)
  moreover have "fs_files fs2 = fs_files fs1" if "overlay_open (se_fs env) (overlay_path ly) fs1 = (x, fs2)" for fs1 fs2 x
    using that by (auto simp: overlay_open_def dest!: create_dir_if_absent_files split: prod.splits sum.splits)
  ultimately show ?thesis using assms by (fastforce simp: open_stores_def split: prod.splits sum.splits)
qed

lemma open_locked_keeps_cache:
  assumes "open_locked env sid pid clock home root mp utf8 fs = (r, fs')"
  shows "keeps_cache (ly_cache (layout_new home)) fs fs'"
proof -
  have "keeps_cache (ly_cache (layout_new home)) fs2 fs3" if "open_stores env sid pid clock (layout_new home) root mp utf8 fs2 = (x, fs3)" for fs2 fs3 x
    using keeps_cache_files [OF open_stores_files [OF that]] .
  then show ?thesis
    using assms unfolding open_locked_def Let_def fs_step_eq by (meson open_steps_keep_cache keeps_cache_trans)
qed

lemma open_locked_Ok:
  assumes run: "open_locked env sid pid clock home root mp utf8 fs = (Ok s, fs')" and root: "valid_digest root"
    and cache: "cache_ok (se_sha env) (ly_cache (layout_new home)) fs"
  shows "session_inv env s \<and> session_fs s = fs' \<and> cb_root (s_cache s) = ly_cache (layout_new home) \<and>
    fs_files fs' (ly_session_lock (layout_new home)) =
      Some (se_lock_json env \<lparr>lr_record_version = LOCK_RECORD_VERSION, lr_session_id = sid, lr_pid = pid\<rparr> @ [10])"
proof -
  let ?ly = "layout_new home" let ?rec = "\<lparr>lr_record_version = LOCK_RECORD_VERSION, lr_session_id = sid, lr_pid = pid\<rparr>"
  obtain fs4 fs5 fs6 fs7 where w: "lock_write_record env ?rec (ly_session_lock ?ly) fs = (Ok (), fs4)"
    and rm: "remove_if_present (se_fs env) (ly_session ?ly) fs4 = (Ok (), fs5)"
    and mk: "create_dir_if_absent (se_fs env) (ly_session ?ly) fs5 = (Ok (), fs6)"
    and db: "create_empty_file (se_fs env) (database_file ?ly) fs6 = (Ok (), fs7)"
    and o: "open_stores env sid pid clock ?ly root mp utf8 fs7 = (Ok s, fs')"
    using run unfolding open_locked_def Let_def fs_step_Ok by auto
  obtain c fs8 where c: "cache_open (se_fs env) (ly_cache ?ly) fs7 = (Ok c, fs8)" "s_cache s = c\<lparr>cb_fs := fs'\<rparr>"
    and st: "store_create (se_store env) clock (database_file ?ly) sid pid root (if utf8 then Some mp else None) (Some empty_db) = Ok (s_store s)"
    using open_stores_Ok [OF o] by blast
  have r: "cb_root (s_cache s) = ly_cache ?ly" using c by (auto simp: cache_open_def split: prod.splits sum.splits)
  have "cache_ok (se_sha env) (cb_root (s_cache s)) (cb_fs (s_cache s))"
    using open_locked_keeps_cache [OF run] cache c(2) r by (auto simp: cache_ok_def keeps_cache_def)
  moreover have "wf_db (uuid_parse_ok (se_store env)) (connection (s_store s))"
    using store_create_fresh [OF _ root] st store_create_empty_file by metis
  moreover have "fs_files fs4 (ly_session_lock ?ly) = Some (se_lock_json env ?rec @ [10])"
    using w by (auto simp: lock_write_record_def Let_def split: option.splits)
  then have "fs_files fs5 (ly_session_lock ?ly) = Some (se_lock_json env ?rec @ [10])"
    using rm lock_not_in_session(1) by (auto simp: remove_if_present_def split: if_splits option.splits io_error.splits)
  then have "fs_files fs7 (ly_session_lock ?ly) = Some (se_lock_json env ?rec @ [10])"
    using db create_dir_if_absent_files [OF mk] lock_not_in_session(2) by (auto simp: create_empty_file_def split: if_splits option.splits)
  ultimately show ?thesis using r c(2) open_stores_files [OF o] by (simp add: session_inv_def session_fs_def)
qed

section \<open>The invariant of a home\<close>

text \<open>What all processes on a home agree on: the hash, the identities that parse, and the form of the lock record.\<close>

definition shares_home :: "session_env \<Rightarrow> session_env \<Rightarrow> bool" where
  "shares_home base env \<longleftrightarrow> se_sha env = se_sha base \<and> uuid_parse_ok (se_store env) = uuid_parse_ok (se_store base) \<and>
     se_lock_json env = se_lock_json base \<and> se_lock_parse env = se_lock_parse base"

lemma shares_home_inv: "shares_home base env \<Longrightarrow> session_inv env s = session_inv base s"
  by (simp add: shares_home_def session_inv_def)

definition serving_ok :: "session_env \<Rightarrow> string \<Rightarrow> local_fs \<Rightarrow> lock_record \<Rightarrow> session \<Rightarrow> bool" where
  "serving_ok base home fs r s \<longleftrightarrow> session_inv base (with_session_fs fs s) \<and> cb_root (s_cache s) = ly_cache (layout_new home) \<and>
     fs_files fs (ly_session_lock (layout_new home)) = Some (se_lock_json base r @ [10])"

definition home_inv :: "session_env \<Rightarrow> string \<Rightarrow> home_state \<Rightarrow> bool" where
  "home_inv base home st \<longleftrightarrow> (\<forall>p. hm_proc st p \<noteq> NoSession \<longleftrightarrow> hm_lock st = Some p) \<and>
     cache_ok (se_sha base) (ly_cache (layout_new home)) (hm_fs st) \<and>
     (\<forall>p r s. hm_proc st p = Serving r s \<longrightarrow> serving_ok base home (hm_fs st) r s)"

lemma home_inv_start: "cache_ok (se_sha base) (ly_cache (layout_new home)) fs \<Longrightarrow> home_inv base home (home_start fs)"
  by (simp add: home_inv_def home_start_def)

lemma with_own_fs [simp]: "with_session_fs (session_fs s) s = s"
  by (simp add: session_fs_def with_session_fs_def)

lemma serving_ok_files:
  assumes "serving_ok base home fs r s" "keeps_cache (ly_cache (layout_new home)) fs fs'"
    and "fs_files fs' (ly_session_lock (layout_new home)) = fs_files fs (ly_session_lock (layout_new home))"
  shows "serving_ok base home fs' r s"
  using assms by (auto simp: serving_ok_def session_inv_def cache_ok_def keeps_cache_def with_session_fs_def)

lemma keeps_cache_ok: "keeps_cache root fs fs' \<Longrightarrow> cache_ok sha root fs \<Longrightarrow> cache_ok sha root fs'"
  by (auto simp: cache_ok_def keeps_cache_def)

lemma open_lock_keeps_cache:
  assumes "open_lock env held home mp fs = (r, fs')"
  shows "keeps_cache (ly_cache (layout_new home)) fs fs'"
  using open_lock_files(1) [OF assms] cache_path_not_session(1) by (auto simp: keeps_cache_def)

lemma home_inv_step:
  assumes "home_step E home st st'" "home_inv base home st" "\<forall>env \<in> E. env_ok env \<and> shares_home base env"
  shows "home_inv base home st'"
proof -
  let ?lock = "ly_session_lock (layout_new home)"
  have inv: "hm_proc st p \<noteq> NoSession \<longleftrightarrow> hm_lock st = Some p" "cache_ok (se_sha base) (ly_cache (layout_new home)) (hm_fs st)"
    "hm_proc st p = Serving r s \<Longrightarrow> serving_ok base home (hm_fs st) r s" for p r s
    using assms(2) unfolding home_inv_def by blast+
  have alone: "hm_lock st = Some p \<and> (\<forall>q. q \<noteq> p \<longrightarrow> hm_proc st q = NoSession)" if "hm_proc st p \<noteq> NoSession" for p
    using that inv(1) by (metis option.inject)
  from assms(1) show ?thesis
  proof cases
    case (locked p env mp fs)
    then have "hm_lock st = None" using open_lock_files(2) by blast
    then have "hm_proc st q = NoSession" for q using inv(1) by (metis option.distinct(1))
    with locked keeps_cache_ok [OF open_lock_keeps_cache [OF locked(4)] inv(2)] show ?thesis by (auto simp: home_inv_def)
  next
    case (refused p env mp e fs)
    note k = open_lock_keeps_cache [OF refused(4)]
    have "serving_ok base home fs r s" if "hm_proc st q = Serving r s" for q r s
      by (rule serving_ok_files [OF inv(3) [OF that] k])
        (use open_lock_files(1) [OF refused(4)] inv(3) [OF that] in \<open>auto simp: serving_ok_def\<close>)
    with refused keeps_cache_ok [OF k inv(2)] inv(1) show ?thesis by (auto simp: home_inv_def)
  next
    case (opened p env root sid pid clock mp utf8 s fs r)
    have sh: "shares_home base env" using assms(3) opened by blast
    have ok: "cache_ok (se_sha env) (ly_cache (layout_new home)) (hm_fs st)" "se_lock_json env = se_lock_json base"
      using inv(2) sh by (simp_all add: shares_home_def)
    note o = open_locked_Ok [OF opened(5,4) ok(1), unfolded shares_home_inv [OF sh] ok(2)]
    then have "with_session_fs fs s = s" using with_own_fs by metis
    with o have "serving_ok base home fs r s" unfolding serving_ok_def opened(6) by simp
    with opened alone [of p] keeps_cache_ok [OF open_locked_keeps_cache [OF opened(5)] inv(2)] show ?thesis by (auto simp: home_inv_def)
  next
    case (not_opened p env sid pid clock root mp utf8 e fs)
    with alone [of p] keeps_cache_ok [OF open_locked_keeps_cache [OF not_opened(4)] inv(2)] show ?thesis
      by (auto simp: home_inv_def lock_drop_def)
  next
    case (served p r s env s')
    have env: "env_ok env" "shares_home base env" using assms(3) served(3) by auto
    note ok = inv(3) [OF served(2)]
    have s': "session_inv base s'" "cache_writes (s_cache (with_session_fs (hm_fs st) s)) (s_cache s')"
      using session_step_keeps [OF served(4) env(1)] ok shares_home_inv [OF env(2)] by (auto simp: serving_ok_def)
    have "fs_files (session_fs s') ?lock = fs_files (hm_fs st) ?lock" "cb_root (s_cache s') = ly_cache (layout_new home)"
      using s'(2) ok cache_path_not_session(1) by (auto simp: cache_writes_def serving_ok_def session_fs_def with_session_fs_def)
    with ok s'(1) have "serving_ok base home (session_fs s') r s'" "cache_ok (se_sha base) (ly_cache (layout_new home)) (session_fs s')"
      by (simp_all add: serving_ok_def) (simp add: session_inv_def session_fs_def)
    with served alone [of p] show ?thesis by (auto simp: home_inv_def)
  next
    case (wrote p r s path content)
    have "cache_path (ly_cache (layout_new home)) d \<noteq> path" if "valid_digest d" for d
      using wrote(3) cache_path_not_home [OF that, of "''session/control.sock''" home] cache_path_not_home [OF that, of DAEMON_TRACE_LOG home]
      by (auto simp: daemon_file_def control_endpoint_home DAEMON_TRACE_LOG_def)
    then have k: "keeps_cache (ly_cache (layout_new home)) (hm_fs st) ((hm_fs st)\<lparr>fs_files := (fs_files (hm_fs st))(path := content)\<rparr>)"
      by (auto simp: keeps_cache_def)
    have "serving_ok base home ((hm_fs st)\<lparr>fs_files := (fs_files (hm_fs st))(path := content)\<rparr>) r s" if "hm_proc st q = Serving r s" for q r s
      by (rule serving_ok_files [OF inv(3) [OF that] k]) (use lock_not_in_session(3) [OF wrote(3)] in simp)
    with wrote keeps_cache_ok [OF k inv(2)] inv(1) show ?thesis by (auto simp: home_inv_def)
  next
    case (ended p)
    with alone [of p] inv(2) show ?thesis by (auto simp: home_inv_def lock_drop_def)
  qed
qed

lemma home_inv_run:
  assumes "home_run E home (home_start fs) st" "cache_ok (se_sha base) (ly_cache (layout_new home)) fs"
    and "\<forall>env \<in> E. env_ok env \<and> shares_home base env"
  shows "home_inv base home st"
  using assms(1)
  by (induction rule: rtranclp_induct) (use home_inv_start [OF assms(2)] home_inv_step [OF _ _ assms(3)] in blast)+

section \<open>Properties\<close>

text \<open>
  C4 One session per home. Whatever any number of processes do with one home (open, be refused, fail to open, serve requests,
  write their socket and log, close, crash), at most one of them at a time holds the session lock, opening or serving a
  session. The session it serves keeps its database invariant, and the cache that the sessions share and inherit
  from each other stays verified, also past crashes.
\<close>

theorem one_session_per_home:
  assumes "home_run E home (home_start fs) st" "cache_ok (se_sha base) (ly_cache (layout_new home)) fs"
    and "\<forall>env \<in> E. env_ok env \<and> shares_home base env"
  shows "(\<forall>p q. hm_proc st p \<noteq> NoSession \<longrightarrow> hm_proc st q \<noteq> NoSession \<longrightarrow> p = q) \<and>
    (\<forall>p. hm_proc st p \<noteq> NoSession \<longleftrightarrow> hm_lock st = Some p) \<and>
    cache_ok (se_sha base) (ly_cache (layout_new home)) (hm_fs st) \<and>
    (\<forall>p r s. hm_proc st p = Serving r s \<longrightarrow> session_inv base (with_session_fs (hm_fs st) s))"
  using home_inv_run [OF assms] unfolding home_inv_def serving_ok_def by fastforce

text \<open>A process opens the example home.\<close>

definition demo_record :: lock_record where
  "demo_record = \<lparr>lr_record_version = LOCK_RECORD_VERSION, lr_session_id = ''id'', lr_pid = 1\<rparr>"

lemma demo_home_served:
  "\<exists>s st. home_run {demo_session_env} ''/h'' (home_start demo_home) st \<and> hm_proc st 0 = Serving demo_record s \<and>
     fs_dirs (hm_fs st) = {''/m'', ''/h'', ''/h/session'', ''/h/cache'', ''/h/session/overlay'', ''/h/session/overlay/data'', ''/h/session/overlay/tmp''}"
proof -
  have env: "demo_session_env\<lparr>se_stream := \<lambda>d p. (Ok (), p)\<rparr> = demo_session_env" by (simp add: demo_session_env_def)
  obtain s fs' where o: "session_open demo_session_env False ''id'' 1 (Some 7) ''/h'' demo_digest ''/m'' True demo_home = (Ok s, fs')"
    and d: "fs_dirs (session_fs s) = {''/m'', ''/h'', ''/h/session'', ''/h/cache'', ''/h/session/overlay'', ''/h/session/overlay/data'', ''/h/session/overlay/tmp''}"
    using demo_opens [of Map.empty "\<lambda>d p. (Ok (), p)"] unfolding env by (auto simp: demo_home_def session_fs_def)
  from o obtain fs where l: "open_lock demo_session_env False ''/h'' ''/m'' demo_home = (Ok (), fs)"
    and k: "open_locked demo_session_env ''id'' 1 (Some 7) ''/h'' demo_digest ''/m'' True fs = (Ok s, fs')"
    by (auto simp: session_open_split split: prod.splits sum.splits)
  let ?st1 = "(home_start demo_home)\<lparr>hm_fs := fs, hm_lock := Some 0, hm_proc := (hm_proc (home_start demo_home))(0 := Opening)\<rparr>"
  let ?st2 = "?st1\<lparr>hm_fs := fs', hm_proc := (hm_proc ?st1)(0 := Serving demo_record s)\<rparr>"
  have "home_step {demo_session_env} ''/h'' (home_start demo_home) ?st1"
    by (rule locked [of _ 0 demo_session_env _ _ "''/m''"]) (use l in \<open>simp_all add: home_start_def\<close>)
  moreover have "home_step {demo_session_env} ''/h'' ?st1 ?st2"
    by (rule opened [OF _ _ demo_digest_valid]) (use k in \<open>auto simp: demo_record_def\<close>)
  ultimately have "home_run {demo_session_env} ''/h'' (home_start demo_home) ?st2" by auto
  moreover have "cache_ok (se_sha demo_session_env) (ly_cache (layout_new ''/h'')) fs"
    by (rule keeps_cache_ok [OF open_lock_keeps_cache [OF l]]) (simp add: cache_ok_def demo_home_def)
  with open_locked_Ok [OF k demo_digest_valid] have "session_fs s = fs'" by simp
  ultimately show ?thesis using d by (intro exI [of _ s] exI [of _ ?st2]) simp
qed

lemma demo_home_ok:
  "cache_ok (se_sha demo_session_env) (ly_cache (layout_new ''/h'')) demo_home" "\<forall>env \<in> {demo_session_env}. env_ok env \<and> shares_home demo_session_env env"
  using demo_session_env_ok by (simp_all add: cache_ok_def demo_home_def shares_home_def)

theorem one_session_per_home_witness:
  "\<exists>s st. home_run {demo_session_env} ''/h'' (home_start demo_home) st \<and> hm_proc st 0 = Serving demo_record s \<and>
     hm_lock st = Some 0 \<and> session_inv demo_session_env (with_session_fs (hm_fs st) s)"
proof -
  obtain s st where st: "home_run {demo_session_env} ''/h'' (home_start demo_home) st" "hm_proc st 0 = Serving demo_record s"
    using demo_home_served by blast
  with one_session_per_home [OF st(1) demo_home_ok] show ?thesis by (metis phase.distinct(3))
qed

text \<open>
  C16 A second session is refused and told who owns the home. While a process serves a session, another one that opens the
  same home fails before it touches any file: the files are as before, in particular the session
  tree is not replaced. When the second process meets no other error, its error names the process id and the session
  identity of the owner, given that the parser reads back the record that was written.
\<close>

theorem second_session_refused:
  assumes "home_run E home (home_start fs) st" "cache_ok (se_sha base) (ly_cache (layout_new home)) fs"
    and "\<forall>env \<in> E. env_ok env \<and> shares_home base env"
    and "hm_proc st p = Serving r s" "env \<in> E"
    and "session_open env (hm_lock st \<noteq> None) sid pid clock home root mp utf8 (hm_fs st) = (res, fs')"
  shows "(\<exists>e. res = Err e) \<and> fs_files fs' = fs_files (hm_fs st) \<and>
    (se_lock_parse base (se_lock_json base r @ [10]) = Some r \<and> (\<forall>op path x. io_fault (se_fs env) op path x = None) \<and>
       mp \<in> fs_dirs (hm_fs st) \<and> home \<in> fs_dirs (hm_fs st) \<and>
       path_parent (ly_session_lock (layout_new home)) = home \<and> ly_session_lock (layout_new home) \<notin> fs_dirs (hm_fs st) \<longrightarrow>
     res = Err (Context ''acquire session lock'' (FailedPreconditionError
       (''acquire session lock: another RemoteFS session owns it (pid '' @ show_nat (unat (lr_pid r)) @ '', session '' @ lr_session_id r @ '')''))))"
proof -
  let ?lock = "ly_session_lock (layout_new home)"
  have inv: "hm_lock st = Some p" "fs_files (hm_fs st) ?lock = Some (se_lock_json base r @ [10])"
    using home_inv_run [OF assms(1-3)] assms(4) unfolding home_inv_def serving_ok_def by fastforce+
  obtain ro fs1 where o: "open_lock env True home mp (hm_fs st) = (ro, fs1)" by fastforce
  then obtain e where e: "ro = Err e" using open_lock_files(2) by (cases ro) fastforce+
  then have res: "res = Err e" "fs' = fs1" using assms(6) o inv(1) by (auto simp: session_open_split)
  have parse: "se_lock_parse env = se_lock_parse base" using assms(3,5) by (auto simp: shares_home_def)
  have "e = Context ''acquire session lock'' (FailedPreconditionError
       (''acquire session lock: another RemoteFS session owns it '' @ owner_text r))"
    if "se_lock_parse base (se_lock_json base r @ [10]) = Some r" "\<forall>op path x. io_fault (se_fs env) op path x = None"
      "mp \<in> fs_dirs (hm_fs st)" "home \<in> fs_dirs (hm_fs st)" "path_parent ?lock = home" "?lock \<notin> fs_dirs (hm_fs st)"
    using o e that inv(2) parse
    by (auto simp: open_lock_def fs_step_def validate_mountpoint_def path_exists_def ensure_writable_home_def lock_acquire_def lock_owner_def)
  with res open_lock_files(1) [OF o] inv(2) show ?thesis by (auto simp: owner_text_def)
qed

lemma demo_char: "char_of (unat (of_nat (of_char c) :: u8)) = c"
  by (simp add: unat_of_nat char_of_mod_256)

lemma demo_lock_parses: "demo_lock_parse (demo_lock_json r @ [10]) = Some r"
proof -
  have "takeWhile (\<lambda>b. b = 1) (replicate n (1 :: u8) @ 0 # xs) = replicate n 1" for n xs
    by (induction n) simp_all
  then show ?thesis
    by (simp add: demo_lock_parse_def demo_lock_json_def Let_def demo_char comp_def butlast_append)
qed

theorem second_session_refused_witness:
  "\<exists>s st fs'. home_run {demo_session_env} ''/h'' (home_start demo_home) st \<and> hm_proc st 0 = Serving demo_record s \<and>
     session_open demo_session_env (hm_lock st \<noteq> None) ''other'' 2 (Some 8) ''/h'' demo_digest ''/m'' True (hm_fs st) =
       (Err (Context ''acquire session lock'' (FailedPreconditionError
          ''acquire session lock: another RemoteFS session owns it (pid 1, session id)'')), fs')"
proof -
  obtain s st where st: "home_run {demo_session_env} ''/h'' (home_start demo_home) st" "hm_proc st 0 = Serving demo_record s"
    and d: "fs_dirs (hm_fs st) = {''/m'', ''/h'', ''/h/session'', ''/h/cache'', ''/h/session/overlay'', ''/h/session/overlay/data'', ''/h/session/overlay/tmp''}"
    using demo_home_served by blast
  obtain res fs' where o: "session_open demo_session_env (hm_lock st \<noteq> None) ''other'' 2 (Some 8) ''/h'' demo_digest ''/m'' True (hm_fs st) = (res, fs')"
    by fastforce
  have ly: "ly_session_lock (layout_new ''/h'') = ''/h/session.lock''" "path_parent ''/h/session.lock'' = ''/h''"
    by (simp_all add: layout_new_def path_join_def path_parent_def)
  have env: "se_lock_parse demo_session_env (se_lock_json demo_session_env demo_record @ [10]) = Some demo_record"
    "io_fault (se_fs demo_session_env) op path x = None" for op path x
    using demo_lock_parses by (simp_all add: demo_session_env_def demo_fs_env_def)
  have owner: "show_nat (unat (lr_pid demo_record)) = ''1''" "lr_session_id demo_record = ''id''"
    by (simp_all add: demo_record_def show_nat.simps digit_char_def)
  have "res = Err (Context ''acquire session lock'' (FailedPreconditionError
      ''acquire session lock: another RemoteFS session owns it (pid 1, session id)''))"
    using second_session_refused [OF st(1) demo_home_ok st(2) _ o] env d unfolding ly owner by simp
  with st o show ?thesis by blast
qed

end
