(* ===== verification/Daemon.thy ===== *)
theory Daemon
  imports Home
begin

text \<open>
  The daemon as a process (\<^verbatim>\<open>crates/rfsd/src/lib.rs\<close>, \<^verbatim>\<open>main.rs\<close>): its signal handlers, the run from the arguments to the end of \<^verbatim>\<open>serve\<close>, and
  its exit code and error output.
\<close>

section \<open>The process\<close>

definition signals_install :: "io_error option \<Rightarrow> io_error option \<Rightarrow> (unit, control_error) result" where
  "signals_install interrupt terminate =
     (case interrupt of
        Some e \<Rightarrow> Err (CtlSignal e)
      | None \<Rightarrow> (case terminate of Some e \<Rightarrow> Err (CtlSignal e) | None \<Rightarrow> Ok ()))"

text \<open>The messages of a control error and of the control errors it wraps; the text of what caused the last of them is a parameter of \<open>daemon_main\<close>.\<close>

fun control_error_chain :: "control_error \<Rightarrow> string list" where
  "control_error_chain (CtlSocket path e) = [''control socket operation on `'' @ path @ ''` failed'']"
| "control_error_chain (CtlTransport m) = [''control transport failed'']"
| "control_error_chain (CtlSignal e) = [''install termination signal handler'']"
| "control_error_chain (CtlState e) = [''close daemon state'']"
| "control_error_chain (CtlTask m) = [''join blocking release task'']"
| "control_error_chain (CtlContext operation e) = operation # control_error_chain e"

text \<open>
  \<^verbatim>\<open>run\<close>: its result, and the state in which \<^verbatim>\<open>serve\<close> ended if it was reached. The result keeps the context messages,
  outermost first.
\<close>

inductive daemon_run ::
  "fuse_env set \<Rightarrow> ('c \<Rightarrow> session_env) \<Rightarrow> 'c startup \<Rightarrow> io_error option \<times> io_error option \<Rightarrow> daemon_cli \<Rightarrow> local_fs \<Rightarrow>
     (unit, startup_error) result \<Rightarrow> control_state option \<Rightarrow> bool" for fes env_of su sig cli fs0 where
  no_signals: "signals_install (fst sig) (snd sig) = Err e \<Longrightarrow>
     daemon_run fes env_of su sig cli fs0 (Err (''install daemon termination signals'' # control_error_chain e)) None"
| not_constructed: "signals_install (fst sig) (snd sig) = Ok () \<Longrightarrow> construct_daemon env_of su cli fs0 = (Err e, fs) \<Longrightarrow>
     daemon_run fes env_of su sig cli fs0 (Err (''construct daemon'' # e)) None"
| run_served: "signals_install (fst sig) (snd sig) = Ok () \<Longrightarrow> construct_daemon env_of su cli fs0 = (Ok (client, r, dm), fs) \<Longrightarrow>
     rl_session rl = env_of client \<Longrightarrow> control_run fes rl (serve_start r dm) c \<Longrightarrow> ct_phase c = Served res \<Longrightarrow>
     daemon_run fes env_of su sig cli fs0 (map_err (\<lambda>e. ''serve and release daemon resources'' # control_error_chain e) res) (Some c)"

text \<open>
  \<^verbatim>\<open>main\<close>: the exit code and what goes to standard error, the messages of the error and its sources joined by colons. The result of \<open>daemon_run\<close>
  keeps the messages of the program; \<open>causes\<close> are the further ones at the end of the chain, of the operating system and the libraries.
\<close>

definition daemon_main :: "string list \<Rightarrow> (unit, startup_error) result \<Rightarrow> nat \<times> string" where
  "daemon_main causes res =
     (case res of
        Inr _ \<Rightarrow> (0, [])
      | Inl [] \<Rightarrow> (1, [CHR 0x0A])
      | Inl (m # ms) \<Rightarrow> (1, format_source_chain (chain_error m (ms @ causes)) @ [CHR 0x0A]))"

section \<open>Properties\<close>

text \<open>
  C15 The exit code of the daemon tells the truth. The daemon exits with 0 and says nothing exactly when it was constructed, served and released
  without error; then the file system is unmounted, its control socket is gone and the stored session is closed.
  Otherwise it exits with 1 and prints on standard error the stage that failed followed by the chain of its causes, down to those of the libraries: the
  installation of the signal handlers when that failed, the construction when the handlers were installed and it failed, and
  serving when the daemon had been constructed and \<^verbatim>\<open>serve\<close> returned an error.
\<close>

theorem daemon_exit_status:
  assumes "daemon_run fes env_of su sig cli fs0 res oc"
  shows "(fst (daemon_main causes res) = 0 \<longleftrightarrow> (\<exists>c. oc = Some c \<and> ct_phase c = Served (Ok ()))) \<and>
    (\<forall>c. oc = Some c \<and> ct_phase c = Served (Ok ()) \<longrightarrow> snd (daemon_main causes res) = [] \<and>
      (\<exists>client r dm fs. construct_daemon env_of su cli fs0 = (Ok (client, r, dm), fs) \<and> \<not> dm_mounted (ct_daemon c) \<and>
         fs_files (session_fs (dm_session (ct_daemon c))) (dr_socket r) = None \<and>
         (\<exists>md. session_of (uuid_parse_ok (se_store (env_of client))) (connection (s_store (dm_session (ct_daemon c)))) = Some md \<and> md_state md = Closed))) \<and>
    (\<forall>e. signals_install (fst sig) (snd sig) = Err e \<longrightarrow> oc = None \<and>
      daemon_main causes res = (1, ''install daemon termination signals'' @ concat (map (\<lambda>m. '': '' @ m) (control_error_chain e @ causes)) @ [CHR 0x0A])) \<and>
    (\<forall>e fs. signals_install (fst sig) (snd sig) = Ok () \<and> construct_daemon env_of su cli fs0 = (Err e, fs) \<longrightarrow> oc = None \<and>
      daemon_main causes res = (1, ''construct daemon'' @ concat (map (\<lambda>m. '': '' @ m) (e @ causes)) @ [CHR 0x0A])) \<and>
    (\<forall>x fs. signals_install (fst sig) (snd sig) = Ok () \<and> construct_daemon env_of su cli fs0 = (Ok x, fs) \<longrightarrow>
      (\<exists>c served. oc = Some c \<and> ct_phase c = Served served \<and> (\<forall>e. served = Err e \<longrightarrow>
         daemon_main causes res = (1, ''serve and release daemon resources'' @ concat (map (\<lambda>m. '': '' @ m) (control_error_chain e @ causes)) @ [CHR 0x0A]))))"
  using assms
proof cases
  case (no_signals e)
  then show ?thesis by (simp add: daemon_main_def format_source_chain_eq)
next
  case (not_constructed e fs)
  then show ?thesis by (simp add: daemon_main_def format_source_chain_eq)
next
  case (run_served client r dm fs rl c res')
  note rel = control_run_released [OF run_served(6)]
  show ?thesis
  proof (cases res')
    case (Inl e)
    with run_served show ?thesis by (simp add: daemon_main_def format_source_chain_eq)
  next
    case (Inr u)
    with run_served rel show ?thesis by (auto simp: daemon_main_def released_daemon_def)
  qed
qed

definition demo_bare_startup :: "unit startup" where
  "demo_bare_startup = \<lparr>su_var = Map.empty, su_dial = (\<lambda>_. Ok ()), su_lock_held = False, su_session_id = ''id'', su_pid = 1, su_clock = Some 7,
     su_utf8 = True, su_subscriber = None, su_join_ok = True, su_spawn = Ok (), su_initialised = True\<rparr>"

definition demo_bare_cli :: daemon_cli where
  "demo_bare_cli = \<lparr>dc_root_digest = digest_to_string demo_digest, dc_mountpoint = ''/m'', dc_cas_url = None, dc_instance_name = None,
     dc_log_level = LogInfo, dc_output_format = DaemonText\<rparr>"

theorem daemon_exit_status_witness:
  "\<exists>res oc. daemon_run {} (\<lambda>_. demo_session_env) demo_bare_startup (None, None) demo_bare_cli demo_home res oc \<and>
     daemon_main [] res = (1, ''construct daemon: set up daemon CAS client: missing CAS URL'' @ [CHR 0x0A]) \<and> oc = None"
proof -
  let ?res = "Err [''construct daemon'', ''set up daemon CAS client'', ''missing CAS URL''] :: (unit, startup_error) result"
  have c: "construct_daemon (\<lambda>_. demo_session_env) demo_bare_startup demo_bare_cli demo_home =
      (Err [''set up daemon CAS client'', ''missing CAS URL''], demo_home)"
    using digest_parse_print [OF demo_digest_valid]
    by (simp add: construct_daemon_def connect_cas_def or_else_def demo_bare_startup_def demo_bare_cli_def)
  then have run: "daemon_run {} (\<lambda>_. demo_session_env) demo_bare_startup (None, None) demo_bare_cli demo_home ?res None"
    by (intro not_constructed) (simp_all add: signals_install_def)
  have "signals_install None None = Ok ()" by (simp add: signals_install_def)
  with daemon_exit_status [OF run, of "[]"] c have "daemon_main [] ?res = (1, ''construct daemon: set up daemon CAS client: missing CAS URL'' @ [CHR 0x0A])"
    by simp
  with run show ?thesis by blast
qed

end
