(* ===== verification/Memory_Store.thy ===== *)
theory Memory_Store
  imports Upload
begin

text \<open>
  The in-memory blob store of the tests (\<^verbatim>\<open>crates/rfs-common/src/testing.rs\<close>): a second implementation of the
  \<^verbatim>\<open>BlobStore\<close> trait. It keeps what the upload and the cache rely on, so it can stand for the CAS client. Its
  checkpoints, which let a test hold stream calls, are references into the state; calls that wait are a step relation.
\<close>

section \<open>State\<close>

datatype blob_result = Contents bytes | Fail

record checkpoint =
  ck_arrived :: nat
  ck_released :: nat

record blob_entry =
  be_result :: blob_result
  be_streams :: nat
  be_before_result :: "nat option"

text \<open>Clones share one state. \<open>ms_next\<close> is the reference of the next checkpoint.\<close>

record memory_store =
  ms_blobs :: "digest \<rightharpoonup> blob_entry"
  ms_checkpoints :: "nat \<Rightarrow> checkpoint"
  ms_next :: nat

definition entry_new :: "blob_result \<Rightarrow> blob_entry" where
  "entry_new r = \<lparr>be_result = r, be_streams = 0, be_before_result = None\<rparr>"

definition memory_new :: "(digest \<times> bytes) list \<Rightarrow> memory_store" where
  "memory_new blobs = \<lparr>ms_blobs = map_of (rev (map (\<lambda>(d, bs). (d, entry_new (Contents bs))) blobs)),
     ms_checkpoints = (\<lambda>_. \<lparr>ck_arrived = 0, ck_released = 0\<rparr>), ms_next = 0\<rparr>"

definition set_result :: "digest \<Rightarrow> blob_result \<Rightarrow> memory_store \<Rightarrow> memory_store" where
  "set_result d r s =
     (case ms_blobs s d of
        Some e \<Rightarrow> s\<lparr>ms_blobs := (ms_blobs s)(d \<mapsto> e\<lparr>be_result := r\<rparr>)\<rparr>
      | None \<Rightarrow> s\<lparr>ms_blobs := (ms_blobs s)(d \<mapsto> entry_new r)\<rparr>)"

text \<open>\<open>None\<close> is the panic for a digest without entry.\<close>

definition hold_streams :: "digest \<Rightarrow> memory_store \<Rightarrow> (nat \<times> memory_store) option" where
  "hold_streams d s =
     map_option (\<lambda>e. (ms_next s, s\<lparr>ms_blobs := (ms_blobs s)(d \<mapsto> e\<lparr>be_before_result := Some (ms_next s)\<rparr>),
        ms_checkpoints := (ms_checkpoints s)(ms_next s := \<lparr>ck_arrived = 0, ck_released = 0\<rparr>), ms_next := ms_next s + 1\<rparr>)) (ms_blobs s d)"

definition memory_streams :: "memory_store \<Rightarrow> digest \<Rightarrow> nat" where
  "memory_streams s d = (case ms_blobs s d of None \<Rightarrow> 0 | Some e \<Rightarrow> be_streams e)"

definition memory_stream_error :: "digest \<Rightarrow> string \<Rightarrow> cas_error" where
  "memory_stream_error d message = BlobStatus ByteStreamRead d message"

definition begin_stream :: "digest \<Rightarrow> memory_store \<Rightarrow> (nat option, cas_error) result \<times> memory_store" where
  "begin_stream d s =
     (case ms_blobs s d of
        None \<Rightarrow> (Err (memory_stream_error d ''blob is not stored''), s)
      | Some e \<Rightarrow> (Ok (be_before_result e), s\<lparr>ms_blobs := (ms_blobs s)(d \<mapsto> e\<lparr>be_streams := be_streams e + 1\<rparr>)\<rparr>))"

definition current_result :: "digest \<Rightarrow> memory_store \<Rightarrow> (blob_result, cas_error) result" where
  "current_result d s = ok_or (map_option be_result (ms_blobs s d)) (memory_stream_error d ''blob is not stored'')"

section \<open>Checkpoints\<close>

text \<open>
  \<^verbatim>\<open>arrive\<close> is split where it blocks: the arrival takes a position, and the call goes on once as many releases were
  made. \<^verbatim>\<open>wait_arrivals\<close> returns once its condition holds; that either gives up by a panic after ten seconds is not modelled.
\<close>

definition ck_arrive :: "checkpoint \<Rightarrow> nat \<times> checkpoint" where
  "ck_arrive c = (ck_arrived c + 1, c\<lparr>ck_arrived := ck_arrived c + 1\<rparr>)"

definition ck_passes :: "checkpoint \<Rightarrow> nat \<Rightarrow> bool" where
  "ck_passes c position \<longleftrightarrow> position \<le> ck_released c"

definition ck_release :: "checkpoint \<Rightarrow> checkpoint" where
  "ck_release c = c\<lparr>ck_released := ck_released c + 1\<rparr>"

definition ck_reached :: "checkpoint \<Rightarrow> nat \<Rightarrow> bool" where
  "ck_reached c n \<longleftrightarrow> n \<le> ck_arrived c"

section \<open>The blob store\<close>

definition memory_find_missing :: "digest list \<Rightarrow> memory_store \<Rightarrow> (digest list, cas_error) result \<times> memory_store" where
  "memory_find_missing ds s =
     (Ok (filter (\<lambda>d. \<not> (case map_option be_result (ms_blobs s d) of Some (Contents _) \<Rightarrow> True | _ \<Rightarrow> False)) ds), s)"

text \<open>\<open>read\<close> is \<^verbatim>\<open>std::fs::read\<close>.\<close>

definition blob_bytes :: "(string \<Rightarrow> (bytes, io_error) result) \<Rightarrow> blob \<Rightarrow> (bytes, cas_error) result" where
  "blob_bytes read b =
     (case bl_contents b of
        BlobBytes bs \<Rightarrow> Ok bs
      | FilePath path \<Rightarrow> map_err (CasIo BatchUpdateBlobs path) (read path))"

fun memory_upload_from ::
  "(string \<Rightarrow> (bytes, io_error) result) \<Rightarrow> blob list \<Rightarrow> upload_stats \<Rightarrow> memory_store \<Rightarrow> (upload_stats, cas_error) result \<times> memory_store" where
  "memory_upload_from read [] stats s = (Ok stats, s)"
| "memory_upload_from read (b # bs) stats s =
     (case blob_bytes read b of
        Inl e \<Rightarrow> (Err e, s)
      | Inr data \<Rightarrow>
          memory_upload_from read bs \<lparr>uploaded_blobs = uploaded_blobs stats + 1, bytes_uploaded = bytes_uploaded stats + of_nat (length data)\<rparr>
            (set_result (bl_digest b) (Contents data) s))"

definition memory_upload ::
  "(string \<Rightarrow> (bytes, io_error) result) \<Rightarrow> blob list \<Rightarrow> memory_store \<Rightarrow> (upload_stats, cas_error) result \<times> memory_store" where
  "memory_upload read bs s = memory_upload_from read bs \<lparr>uploaded_blobs = 0, bytes_uploaded = 0\<rparr> s"

text \<open>The end of \<^verbatim>\<open>stream_blob\<close>, after the checkpoint: the current result, written to the destination.\<close>

definition stream_result ::
  "('d \<Rightarrow> bytes \<Rightarrow> (unit, io_error) result \<times> 'd) \<Rightarrow> digest \<Rightarrow> 'd \<Rightarrow> memory_store \<Rightarrow> (unit, cas_error) result \<times> 'd" where
  "stream_result write d dest s =
     (case current_result d s of
        Inl e \<Rightarrow> (Err e, dest)
      | Inr Fail \<Rightarrow> (Err (memory_stream_error d ''injected stream failure''), dest)
      | Inr (Contents bs) \<Rightarrow> (case write dest bs of (r, dest') \<Rightarrow> (map_err (StreamWrite d) r, dest')))"

text \<open>A call up to the point where it may block: it waits with a position at a checkpoint, or goes on.\<close>

definition stream_arrive :: "digest \<Rightarrow> memory_store \<Rightarrow> ((nat \<times> nat) option, cas_error) result \<times> memory_store" where
  "stream_arrive d s =
     (case begin_stream d s of
        (Inl e, s1) \<Rightarrow> (Err e, s1)
      | (Inr None, s1) \<Rightarrow> (Ok None, s1)
      | (Inr (Some k), s1) \<Rightarrow>
          (case ck_arrive (ms_checkpoints s1 k) of
             (position, c) \<Rightarrow> (Ok (Some (k, position)), s1\<lparr>ms_checkpoints := (ms_checkpoints s1)(k := c)\<rparr>)))"

text \<open>
  \<^verbatim>\<open>stream_blob\<close> with no other call in between; \<open>None\<close> when it would block.
\<close>

definition memory_stream_blob ::
  "('d \<Rightarrow> bytes \<Rightarrow> (unit, io_error) result \<times> 'd) \<Rightarrow> digest \<Rightarrow> 'd \<Rightarrow> memory_store \<Rightarrow> ((unit, cas_error) result \<times> 'd) option \<times> memory_store" where
  "memory_stream_blob write d dest s =
     (case stream_arrive d s of
        (Inl e, s1) \<Rightarrow> (Some (Err e, dest), s1)
      | (Inr None, s1) \<Rightarrow> (Some (stream_result write d dest s1), s1)
      | (Inr (Some (k, position)), s1) \<Rightarrow>
          (if ck_passes (ms_checkpoints s1 k) position then Some (stream_result write d dest s1) else None, s1))"

definition memory_blob_store :: "(string \<Rightarrow> (bytes, io_error) result) \<Rightarrow> memory_store blob_store_ops" where
  "memory_blob_store read = \<lparr>st_find_missing_blobs = memory_find_missing, st_upload_blobs = memory_upload read\<rparr>"

section \<open>The contract of the upload\<close>

definition has_contents :: "memory_store \<Rightarrow> digest \<Rightarrow> bool" where
  "has_contents s d \<longleftrightarrow> (\<exists>e bs. ms_blobs s d = Some e \<and> be_result e = Contents bs)"

lemma set_result_blobs:
  "ms_blobs (set_result d r s) d' = (if d' = d then Some ((case ms_blobs s d of Some e \<Rightarrow> e | None \<Rightarrow> entry_new r)\<lparr>be_result := r\<rparr>) else ms_blobs s d')"
  by (simp add: set_result_def entry_new_def split: option.splits)

lemma set_result_checkpoints [simp]:
  "ms_checkpoints (set_result d r s) = ms_checkpoints s" "ms_next (set_result d r s) = ms_next s"
  by (simp_all add: set_result_def split: option.splits)

lemma has_contents_set: "has_contents (set_result d (Contents bs) s) d' \<longleftrightarrow> d' = d \<or> has_contents s d'"
  by (auto simp: has_contents_def set_result_blobs)

lemma memory_upload_keeps:
  "memory_upload_from read bs stats s = (r, s') \<Longrightarrow> has_contents s d \<Longrightarrow> has_contents s' d"
proof (induction bs arbitrary: stats s)
  case (Cons b bs)
  have "has_contents (set_result (bl_digest b) (Contents data) s) d" for data using Cons.prems(2) by (simp add: has_contents_set)
  with Cons.IH Cons.prems show ?case by (fastforce split: sum.splits)
qed simp

lemma memory_upload_stores:
  "memory_upload_from read bs stats s = (Ok stats', s') \<Longrightarrow> b \<in> set bs \<Longrightarrow> has_contents s' (bl_digest b)"
proof (induction bs arbitrary: stats s)
  case (Cons c bs)
  then obtain data where u: "memory_upload_from read bs \<lparr>uploaded_blobs = uploaded_blobs stats + 1, bytes_uploaded = bytes_uploaded stats + of_nat (length data)\<rparr>
      (set_result (bl_digest c) (Contents data) s) = (Ok stats', s')" by (auto split: sum.splits)
  have "has_contents s' (bl_digest c)" by (rule memory_upload_keeps [OF u]) (simp add: has_contents_set)
  with Cons.IH [OF u] Cons.prems(2) show ?case by auto
qed simp

interpretation memory: blob_store "memory_blob_store read" "\<lambda>s b. has_contents s (bl_digest b)" for read
proof
  fix ds ms s s' b
  assume "st_find_missing_blobs (memory_blob_store read) ds s = (Ok ms, s')" "bl_digest b \<in> set ds" "bl_digest b \<notin> set ms"
  then show "has_contents s' (bl_digest b)"
    by (auto simp: memory_blob_store_def memory_find_missing_def has_contents_def split: option.splits blob_result.splits)
next
  fix bs s stats s' b
  assume "st_upload_blobs (memory_blob_store read) bs s = (Ok stats, s')" "b \<in> set bs"
  then show "has_contents s' (bl_digest b)" using memory_upload_stores by (fastforce simp: memory_blob_store_def memory_upload_def)
next
  fix bs s r s' b
  assume "st_upload_blobs (memory_blob_store read) bs s = (r, s')" "has_contents s (bl_digest b)"
  then show "has_contents s' (bl_digest b)" using memory_upload_keeps by (fastforce simp: memory_blob_store_def memory_upload_def)
qed

section \<open>The contract of the cache\<close>

text \<open>The store as the source of a session's blobs; a held call delivers nothing.\<close>

definition memory_stream :: "memory_store \<Rightarrow> fs_env \<Rightarrow> stream" where
  "memory_stream s env d p =
     (case fst (memory_stream_blob (pending_write_all env) d p s) of
        None \<Rightarrow> (Err ''held'', p)
      | Some (r, p') \<Rightarrow> (map_err (\<lambda>_. ''CAS error'') r, p'))"

lemma stream_result_writes: "\<exists>bss. snd (stream_result (pending_write_all env) d p s) = write_chunks env bss p"
proof (cases "current_result d s")
  case (Inr r)
  show ?thesis
  proof (cases r)
    case (Contents bs)
    with Inr show ?thesis by (intro exI [of _ "[bs]"]) (simp add: stream_result_def write_chunks_def split: prod.splits)
  qed (use Inr in \<open>auto simp: stream_result_def write_chunks_def intro: exI [of _ "[]"]\<close>)
qed (auto simp: stream_result_def write_chunks_def intro: exI [of _ "[]"])

interpretation memory_source: blob_source env "memory_stream s env" for s env
proof
  have none: "\<exists>bss. p = write_chunks env bss p" for p by (rule exI [of _ "[]"]) (simp add: write_chunks_def)
  have "\<exists>bss. snd (memory_stream s env d p) = write_chunks env bss p" for d p
    using stream_result_writes [of env d p] none
    by (auto simp: memory_stream_def memory_stream_blob_def split: prod.splits sum.splits option.splits) (metis snd_conv)+
  then show "stream_writes env (memory_stream s env)" unfolding stream_writes_def by blast
qed

section \<open>Held calls\<close>

text \<open>
  Stream calls of many threads, with a test that holds, releases and changes results in between. A call waits for
  a digest with a position at a checkpoint, or is past it.
\<close>

datatype call_phase = NotCalled | Waiting digest nat nat | Passed nat nat | Ended

record held_state =
  hl_store :: memory_store
  hl_call :: "nat \<Rightarrow> call_phase"

inductive held_step :: "held_state \<Rightarrow> held_state \<Rightarrow> bool" where
  call_waits: "hl_call h t = NotCalled \<Longrightarrow> stream_arrive d (hl_store h) = (Ok (Some (k, n)), s) \<Longrightarrow>
     held_step h (h\<lparr>hl_store := s, hl_call := (hl_call h)(t := Waiting d k n)\<rparr>)"
| call_ends: "hl_call h t = NotCalled \<Longrightarrow> stream_arrive d (hl_store h) = (r, s) \<Longrightarrow> \<forall>k n. r \<noteq> Ok (Some (k, n)) \<Longrightarrow>
     held_step h (h\<lparr>hl_store := s, hl_call := (hl_call h)(t := Ended)\<rparr>)"
| call_passes: "hl_call h t = Waiting d k n \<Longrightarrow> ck_passes (ms_checkpoints (hl_store h) k) n \<Longrightarrow>
     held_step h (h\<lparr>hl_call := (hl_call h)(t := Passed k n)\<rparr>)"
| test_releases: "held_step h (h\<lparr>hl_store := (hl_store h)\<lparr>ms_checkpoints := (ms_checkpoints (hl_store h))(k := ck_release (ms_checkpoints (hl_store h) k))\<rparr>\<rparr>)"
| test_sets: "held_step h (h\<lparr>hl_store := set_result d r (hl_store h)\<rparr>)"
| test_holds: "hold_streams d (hl_store h) = Some (k, s) \<Longrightarrow> held_step h (h\<lparr>hl_store := s\<rparr>)"

definition held_start :: "(digest \<times> bytes) list \<Rightarrow> held_state" where
  "held_start blobs = \<lparr>hl_store = memory_new blobs, hl_call = \<lambda>_. NotCalled\<rparr>"

fun at_checkpoint :: "call_phase \<Rightarrow> nat \<Rightarrow> nat \<Rightarrow> bool" where
  "at_checkpoint (Waiting d k n) k' n' \<longleftrightarrow> k' = k \<and> n' = n"
| "at_checkpoint (Passed k n) k' n' \<longleftrightarrow> k' = k \<and> n' = n"
| "at_checkpoint _ k' n' \<longleftrightarrow> False"

definition held_inv :: "held_state \<Rightarrow> bool" where
  "held_inv h \<longleftrightarrow>
     (\<forall>d e k. ms_blobs (hl_store h) d = Some e \<and> be_before_result e = Some k \<longrightarrow> k < ms_next (hl_store h)) \<and>
     (\<forall>t k n. at_checkpoint (hl_call h t) k n \<longrightarrow> k < ms_next (hl_store h) \<and> 0 < n \<and> n \<le> ck_arrived (ms_checkpoints (hl_store h) k)) \<and>
     (\<forall>t u k n. at_checkpoint (hl_call h t) k n \<and> at_checkpoint (hl_call h u) k n \<longrightarrow> t = u) \<and>
     (\<forall>t k n. hl_call h t = Passed k n \<longrightarrow> n \<le> ck_released (ms_checkpoints (hl_store h) k))"

lemma held_inv_start: "held_inv (held_start blobs)"
proof -
  have "be_before_result e = None" if "ms_blobs (memory_new blobs) d = Some e" for d e
    using map_of_SomeD [of "rev (map (\<lambda>(d, bs). (d, entry_new (Contents bs))) blobs)" d e] that by (auto simp: memory_new_def entry_new_def)
  then show ?thesis by (fastforce simp: held_inv_def held_start_def)
qed

lemma stream_arrive_cases:
  assumes "stream_arrive d s = (r, s')"
  obtains (Err) x where "r = Err x" "s' = s"
  | (Free) e where "ms_blobs s d = Some e" "be_before_result e = None" "r = Ok None" "s' = s\<lparr>ms_blobs := (ms_blobs s)(d \<mapsto> e\<lparr>be_streams := be_streams e + 1\<rparr>)\<rparr>"
  | (Held) e k where "ms_blobs s d = Some e" "be_before_result e = Some k" "r = Ok (Some (k, ck_arrived (ms_checkpoints s k) + 1))"
      "s' = s\<lparr>ms_blobs := (ms_blobs s)(d \<mapsto> e\<lparr>be_streams := be_streams e + 1\<rparr>),
        ms_checkpoints := (ms_checkpoints s)(k := (ms_checkpoints s k)\<lparr>ck_arrived := ck_arrived (ms_checkpoints s k) + 1\<rparr>)\<rparr>"
  using assms by (auto simp: stream_arrive_def begin_stream_def ck_arrive_def split: option.splits)

lemma held_inv_step:
  assumes "held_step h h'" "held_inv h"
  shows "held_inv h'"
proof -
  have inv: "ms_blobs (hl_store h) d = Some e \<Longrightarrow> be_before_result e = Some k \<Longrightarrow> k < ms_next (hl_store h)"
    "at_checkpoint (hl_call h t) k n \<Longrightarrow> k < ms_next (hl_store h) \<and> 0 < n \<and> n \<le> ck_arrived (ms_checkpoints (hl_store h) k)"
    "at_checkpoint (hl_call h t) k n \<Longrightarrow> at_checkpoint (hl_call h u) k n \<Longrightarrow> t = u"
    "hl_call h t = Passed k n \<Longrightarrow> n \<le> ck_released (ms_checkpoints (hl_store h) k)" for d e k t u n
    using assms(2) unfolding held_inv_def by blast+
  from assms(1) show ?thesis
  proof cases
    case (call_waits t d k n s)
    from call_waits(3) show ?thesis
    proof (cases rule: stream_arrive_cases)
      case (Held e k')
      have new: "\<not> at_checkpoint (hl_call h u) k n" for u using inv(2) [of u k n] Held(3) by fastforce
      show ?thesis unfolding held_inv_def call_waits(1)
      proof (intro conjI allI impI)
        fix u k1 n1 assume "hl_call (h\<lparr>hl_store := s, hl_call := (hl_call h)(t := Waiting d k n)\<rparr>) u = Passed k1 n1"
        with inv(4) Held show "n1 \<le> ck_released (ms_checkpoints (hl_store (h\<lparr>hl_store := s, hl_call := (hl_call h)(t := Waiting d k n)\<rparr>)) k1)"
          by (auto split: if_splits)
      qed (use inv(1-3) Held new in \<open>(fastforce split: if_splits)+\<close>)
    qed simp_all
  next
    case (call_ends t d r s)
    from call_ends(3) show ?thesis
    proof (cases rule: stream_arrive_cases)
      case (Free e)
      with call_ends inv show ?thesis unfolding held_inv_def by (auto split: if_splits)
    qed (use call_ends inv in \<open>auto simp: held_inv_def split: if_splits\<close>)
  next
    case (call_passes t d k n)
    have "at_checkpoint (hl_call h t) k n" using call_passes by simp
    then have same: "at_checkpoint (((hl_call h)(t := Passed k n)) u) k' n' \<longleftrightarrow> at_checkpoint (hl_call h u) k' n'" for u k' n'
      using call_passes(2) by simp
    have h': "hl_call h' = (hl_call h)(t := Passed k n)" "hl_store h' = hl_store h" using call_passes(1) by simp_all
    have "n' \<le> ck_released (ms_checkpoints (hl_store h) k')" if "((hl_call h)(t := Passed k n)) u = Passed k' n'" for u k' n'
      using that inv(4) call_passes(3) by (auto simp: ck_passes_def split: if_splits)
    with inv(1-3) show ?thesis unfolding held_inv_def h' same by blast
  next
    case (test_releases k)
    with inv show ?thesis unfolding held_inv_def by (auto simp: ck_release_def intro: le_SucI)
  next
    case (test_sets d r)
    with inv show ?thesis unfolding held_inv_def by (auto simp: set_result_blobs entry_new_def split: if_splits option.splits)
  next
    case (test_holds d k s)
    then obtain e where s: "ms_blobs (hl_store h) d = Some e" "k = ms_next (hl_store h)"
      "s = (hl_store h)\<lparr>ms_blobs := (ms_blobs (hl_store h))(d \<mapsto> e\<lparr>be_before_result := Some k\<rparr>),
        ms_checkpoints := (ms_checkpoints (hl_store h))(k := \<lparr>ck_arrived = 0, ck_released = 0\<rparr>), ms_next := k + 1\<rparr>"
      by (auto simp: hold_streams_def)
    have "\<not> at_checkpoint (hl_call h u) k n" for u n using inv(2) [of u k n] s(2) by auto
    moreover from this have "hl_call h u \<noteq> Passed k n" for u n by (metis at_checkpoint.simps(2))
    ultimately show ?thesis unfolding held_inv_def test_holds(1) using inv s by (auto simp: less_Suc_eq)
  qed
qed

lemma held_inv_run: "held_step\<^sup>*\<^sup>* (held_start blobs) h \<Longrightarrow> held_inv h"
  by (induction rule: rtranclp_induct) (use held_inv_start held_inv_step in blast)+

section \<open>Properties\<close>

lemma memory_upload_from_Ok:
  assumes "memory_upload_from read bs stats s = (Ok stats', s')"
  shows "uploaded_blobs stats' = uploaded_blobs stats + of_nat (length bs)"
    "d \<notin> bl_digest ` set bs \<Longrightarrow> ms_blobs s' d = ms_blobs s d"
    "map_option be_before_result (ms_blobs s' d) \<in> {map_option be_before_result (ms_blobs s d), Some None} \<and>
      (ms_blobs s d \<noteq> None \<longrightarrow> map_option be_before_result (ms_blobs s' d) = map_option be_before_result (ms_blobs s d))"
  using assms
proof (induction bs arbitrary: stats s)
  case (Cons c bs)
  { case 1 with Cons.IH(1) show ?case by (auto split: sum.splits) }
  { case 2 with Cons.IH(2) show ?case by (fastforce simp: set_result_blobs split: sum.splits) }
  { case 3
    then obtain data where u: "memory_upload_from read bs \<lparr>uploaded_blobs = uploaded_blobs stats + 1, bytes_uploaded = bytes_uploaded stats + of_nat (length data)\<rparr>
        (set_result (bl_digest c) (Contents data) s) = (Ok stats', s')" by (auto split: sum.splits)
    from Cons.IH(3) [OF u] show ?case by (auto simp: set_result_blobs entry_new_def split: if_splits option.splits) }
qed simp_all

lemma memory_upload_data:
  "memory_upload_from read bs stats s = (Ok stats', s') \<Longrightarrow> distinct (map bl_digest bs) \<Longrightarrow> b \<in> set bs \<Longrightarrow>
     \<exists>data. blob_bytes read b = Ok data \<and> current_result (bl_digest b) s' = Ok (Contents data)"
proof (induction bs arbitrary: stats s)
  case (Cons c bs)
  then obtain data where data: "blob_bytes read c = Ok data"
    and u: "memory_upload_from read bs \<lparr>uploaded_blobs = uploaded_blobs stats + 1, bytes_uploaded = bytes_uploaded stats + of_nat (length data)\<rparr>
      (set_result (bl_digest c) (Contents data) s) = (Ok stats', s')" by (auto split: sum.splits)
  have "ms_blobs s' (bl_digest c) = ms_blobs (set_result (bl_digest c) (Contents data) s) (bl_digest c)"
    using memory_upload_from_Ok(2) [OF u] Cons.prems(2) by simp
  then have "current_result (bl_digest c) s' = Ok (Contents data)" by (simp add: current_result_def set_result_blobs)
  with data Cons.IH [OF u] Cons.prems(2,3) show ?case by auto
qed simp

text \<open>
  C40 The in-memory store gives back what it was given. After an upload of blobs with distinct digests that succeeds, none of them is
  missing, all are counted, and a stream of any of them that no test holds writes the bytes of the blob (those it carries or those read from
  its file) to the destination and counts as one stream call.
\<close>

theorem memory_roundtrip:
  assumes "memory_upload read bs s = (Ok stats, s')" "distinct (map bl_digest bs)" "b \<in> set bs"
  shows "fst (memory_find_missing (map bl_digest bs) s') = Ok [] \<and> uploaded_blobs stats = of_nat (length bs) \<and>
    (\<exists>data. blob_bytes read b = Ok data \<and>
       (Option.bind (ms_blobs s (bl_digest b)) be_before_result = None \<longrightarrow>
        (\<exists>s''. memory_stream_blob write (bl_digest b) dest s' =
            (Some (case write dest data of (r, dest') \<Rightarrow> (map_err (StreamWrite (bl_digest b)) r, dest')), s'') \<and>
          memory_streams s'' (bl_digest b) = memory_streams s' (bl_digest b) + 1)))"
proof -
  let ?d = "bl_digest b"
  have u: "memory_upload_from read bs \<lparr>uploaded_blobs = 0, bytes_uploaded = 0\<rparr> s = (Ok stats, s')" using assms(1) by (simp add: memory_upload_def)
  obtain data where data: "blob_bytes read b = Ok data" "current_result ?d s' = Ok (Contents data)"
    using memory_upload_data [OF u assms(2,3)] by blast
  have found: "\<exists>bs. map_option be_result (ms_blobs s' (bl_digest c)) = Some (Contents bs)" if "c \<in> set bs" for c
    using memory_upload_stores [OF u that] by (auto simp: has_contents_def)
  then have "fst (memory_find_missing (map bl_digest bs) s') = Ok []"
    by (fastforce simp: memory_find_missing_def filter_empty_conv)
  moreover have "uploaded_blobs stats = of_nat (length bs)" using memory_upload_from_Ok(1) [OF u] by simp
  moreover have "\<exists>s''. memory_stream_blob write ?d dest s' =
        (Some (case write dest data of (r, dest') \<Rightarrow> (map_err (StreamWrite ?d) r, dest')), s'') \<and>
      memory_streams s'' ?d = memory_streams s' ?d + 1" if free: "Option.bind (ms_blobs s ?d) be_before_result = None"
  proof -
    obtain e where e: "ms_blobs s' ?d = Some e" "be_result e = Contents data" using data(2) by (auto simp: current_result_def result_simps)
    have "be_before_result e = None" using memory_upload_from_Ok(3) [OF u, of ?d] e(1) free by (cases "ms_blobs s ?d") auto
    with e show ?thesis
      by (auto simp: memory_stream_blob_def stream_arrive_def begin_stream_def stream_result_def current_result_def memory_streams_def)
  qed
  ultimately show ?thesis using data(1) by (intro conjI exI [of _ data] impI) simp_all
qed

theorem memory_roundtrip_witness:
  "\<exists>stats s' s''. memory_upload (\<lambda>_. Err IoNotFound) [blob_from_bytes demo_sha [1, 2]] (memory_new []) = (Ok stats, s') \<and>
     memory_stream_blob (\<lambda>dest bs. (Ok (), dest @ bs)) (for_bytes demo_sha [1, 2]) [0] s' = (Some (Ok (), [0, 1, 2]), s'')"
proof -
  let ?b = "blob_from_bytes demo_sha [1, 2]"
  have u: "\<exists>stats s'. memory_upload (\<lambda>_. Err IoNotFound) [?b] (memory_new []) = (Ok stats, s')"
    by (simp add: memory_upload_def blob_bytes_def blob_from_bytes_def)
  then obtain stats s' where u: "memory_upload (\<lambda>_. Err IoNotFound) [?b] (memory_new []) = (Ok stats, s')" by blast
  have "blob_bytes (\<lambda>_. Err IoNotFound) ?b = Ok [1, 2]" "bl_digest ?b = for_bytes demo_sha [1, 2]" "Option.bind (ms_blobs (memory_new []) d) be_before_result = None" for d
    by (simp_all add: blob_bytes_def blob_from_bytes_def memory_new_def)
  with memory_roundtrip [OF u, of ?b "\<lambda>dest bs. (Ok (), dest @ bs)" "[0]"] u show ?thesis by auto
qed

text \<open>
  A checkpoint lets through exactly what the test releases, in order of arrival. In every interleaving of stream calls of any threads with a
  test that holds digests, releases checkpoints and changes results, no two calls have the same position at a checkpoint, at most
  as many calls are past a checkpoint as releases were made, and a waiting call with an earlier position than one that is past may go on.
\<close>

theorem checkpoint_gates:
  assumes "held_step\<^sup>*\<^sup>* (held_start blobs) h"
  shows "(\<forall>t u n. at_checkpoint (hl_call h t) k n \<longrightarrow> at_checkpoint (hl_call h u) k n \<longrightarrow> t = u) \<and>
    finite {t. \<exists>n. hl_call h t = Passed k n} \<and>
    card {t. \<exists>n. hl_call h t = Passed k n} \<le> ck_released (ms_checkpoints (hl_store h) k) \<and>
    (\<forall>t u d m n. hl_call h t = Passed k n \<and> hl_call h u = Waiting d k m \<and> m \<le> n \<longrightarrow> ck_passes (ms_checkpoints (hl_store h) k) m)"
proof -
  have inv: "at_checkpoint (hl_call h t) k n \<Longrightarrow> 0 < n" "at_checkpoint (hl_call h t) k n \<Longrightarrow> at_checkpoint (hl_call h u) k n \<Longrightarrow> t = u"
    "hl_call h t = Passed k n \<Longrightarrow> n \<le> ck_released (ms_checkpoints (hl_store h) k)" for t u k n
    using held_inv_run [OF assms] unfolding held_inv_def by blast+
  let ?P = "{t. \<exists>n. hl_call h t = Passed k n}" let ?r = "ck_released (ms_checkpoints (hl_store h) k)"
  define pos where "pos t = (THE n. hl_call h t = Passed k n)" for t
  have pos: "hl_call h t = Passed k n \<Longrightarrow> pos t = n" for t n unfolding pos_def by auto
  have at: "at_checkpoint (hl_call h t) k n" "n \<le> ?r" "0 < n" if "hl_call h t = Passed k n" for t n
    using that inv(1) [of t k n] inv(3) [OF that] by simp_all
  have "inj_on pos ?P"
  proof (rule inj_onI)
    fix t u assume "t \<in> ?P" "u \<in> ?P" "pos t = pos u"
    then obtain n where "hl_call h t = Passed k n" "hl_call h u = Passed k n" using pos by auto
    from inv(2) [OF at(1) [OF this(1)] at(1) [OF this(2)]] show "t = u" .
  qed
  moreover have "pos ` ?P \<subseteq> {1..?r}" using at(2,3) pos by (auto simp: Suc_le_eq)
  ultimately have card: "finite ?P" "card ?P \<le> ?r"
    using inj_on_finite [of pos ?P "{1..?r}"] card_inj_on_le [of pos ?P "{1..?r}"] by simp_all
  have "ck_passes (ms_checkpoints (hl_store h) k) m" if "hl_call h t = Passed k n" "m \<le> n" for t m n
    using at(2) [OF that(1)] that(2) by (simp add: ck_passes_def)
  with card inv(2) show ?thesis by blast
qed

theorem checkpoint_gates_witness:
  "\<exists>h. held_step\<^sup>*\<^sup>* (held_start [(demo_blob, [1, 2])]) h \<and> (\<exists>n. hl_call h 0 = Waiting demo_blob 0 n) \<and>
     card {t. \<exists>n. hl_call h t = Passed 0 n} \<le> 0"
proof -
  let ?h0 = "held_start [(demo_blob, [1, 2])]"
  obtain s where s: "hold_streams demo_blob (hl_store ?h0) = Some (0, s)" "ck_released (ms_checkpoints s 0) = 0"
    "\<exists>s'. stream_arrive demo_blob s = (Ok (Some (0, 1)), s') \<and> ck_released (ms_checkpoints s' 0) = 0"
    by (simp add: held_start_def memory_new_def hold_streams_def stream_arrive_def begin_stream_def ck_arrive_def)
  then obtain s' where s': "stream_arrive demo_blob s = (Ok (Some (0, 1)), s')" "ck_released (ms_checkpoints s' 0) = 0" by blast
  let ?h1 = "?h0\<lparr>hl_store := s\<rparr>" let ?h2 = "?h1\<lparr>hl_store := s', hl_call := (hl_call ?h1)(0 := Waiting demo_blob 0 1)\<rparr>"
  have "held_step ?h0 ?h1" by (rule test_holds [OF s(1)])
  moreover have "held_step ?h1 ?h2" by (rule call_waits) (use s' in \<open>simp_all add: held_start_def\<close>)
  ultimately have run: "held_step\<^sup>*\<^sup>* ?h0 ?h2" by (meson rtranclp.rtrancl_into_rtrancl rtranclp.rtrancl_refl)
  have "hl_store ?h2 = s'" by simp
  with checkpoint_gates [OF run, of 0] s'(2) have "card {t. \<exists>n. hl_call ?h2 t = Passed 0 n} \<le> 0" by metis
  moreover have "hl_call ?h2 0 = Waiting demo_blob 0 1" by simp
  ultimately show ?thesis using run by blast
qed

end
