(* ===== verification/Spec2Isabelle.thy ===== *)
theory Spec2Isabelle
  imports Roundtrip Cli Daemon Memory_Store
begin

text \<open>
  RemoteFS: a read-only file system over a content-addressed store.

  \<^bold>\<open>The program.\<close> \<^verbatim>\<open>rfs upload\<close> stores a local directory in a Remote Execution CAS as canonical directory messages and file
  blobs and prints the digest of the root. \<^verbatim>\<open>rfs mount\<close> starts the daemon \<^verbatim>\<open>rfsd\<close>, which opens a session for a root digest,
  mounts it with FUSE and serves it until a shutdown request, a signal or the exit of its control server. Directories are
  fetched when they are first looked into and kept as inodes in an SQLite database; file contents are
  fetched when they are first read and kept in a blob cache. \<^verbatim>\<open>rfs status\<close> and \<^verbatim>\<open>rfs unmount\<close> talk to the daemon over a Unix socket and fall back to
  the retained session.

  \<^bold>\<open>The theories\<close>, in the order of their imports (sources under \<^verbatim>\<open>src/crates\<close>):
  \<^item> \<open>Prelude\<close>: results, machine integers and checked conversions, text, sorting; the collections \<open>result_simps\<close> and \<open>conv_simps\<close>.
  \<^item> \<open>Digest\<close> (\<^verbatim>\<open>rfs-common/src/digest.rs\<close>): digests, their text and REAPI forms, verification of bytes.
  \<^item> \<open>Error_Context\<close> (\<^verbatim>\<open>error_context.rs\<close>, \<^verbatim>\<open>diagnostics.rs\<close>): wrapping errors in context, a locale that every error type of the program interprets; the text of an error chain.
  \<^item> \<open>Tree\<close> (\<^verbatim>\<open>tree.rs\<close>): the directory builder, canonical encoding, normalisation of metadata, decoding with validation.
  \<^item> \<open>Session_Types\<close> (\<^verbatim>\<open>session.rs\<close>): inode numbers, node times, errors, visible inodes.
  \<^item> \<open>Store\<close>, \<open>Store_Namespace\<close> (\<^verbatim>\<open>session/store.rs\<close>): the database as tables of rows, transactions, every statement; then the
    namespace of inodes that a table represents, as the abstract specification of the store.
  \<^item> \<open>Cache\<close> (\<^verbatim>\<open>session/cache.rs\<close>, \<^verbatim>\<open>overlay.rs\<close>): pending blobs, admission, ranged reads, the download locks as a step relation.
  \<^item> \<open>Session\<close> (\<^verbatim>\<open>session.rs\<close>): opening, lazy loading, lookup, listing, reading, counters, close and inspection.
  \<^item> \<open>Fuse\<close> (\<^verbatim>\<open>rfsd/src/filesystem.rs\<close>, \<^verbatim>\<open>fuse.rs\<close>): the service and every request handler of the adapter.
  \<^item> \<open>Cas\<close> (\<^verbatim>\<open>cas.rs\<close>): configuration, retries, the batch and streaming calls, uploads in batches; the client is an instance of what the cache downloads from.
  \<^item> \<open>Logging\<close> (\<^verbatim>\<open>logging.rs\<close>): the log files of the daemon and the global subscriber of a process.
  \<^item> \<open>Control\<close> (\<^verbatim>\<open>rfsd/src/control_service.rs\<close>, \<^verbatim>\<open>lib.rs\<close>, \<^verbatim>\<open>config.rs\<close>): the RPC handlers, the release, \<^verbatim>\<open>serve\<close> as a step relation, the construction of the daemon.
  \<^item> \<open>Home\<close> (\<^verbatim>\<open>session.rs\<close>, \<^verbatim>\<open>SessionLock\<close>): several processes on one home, with \<^verbatim>\<open>Session::open\<close> split where the lock is taken.
  \<^item> \<open>Daemon\<close> (\<^verbatim>\<open>rfsd/src/lib.rs\<close>, \<^verbatim>\<open>main.rs\<close>): the daemon as a process: signals, the run and the exit code.
  \<^item> \<open>Snapshot\<close>: the snapshot that a root digest names, as an inductive specification, and its refinement by the daemon.
  \<^item> \<open>Upload\<close> (\<^verbatim>\<open>upload.rs\<close>): scan, hash, bottom-up encoding and upload; the blob store is an interface that the CAS client implements.
  \<^item> \<open>Memory_Store\<close> (\<^verbatim>\<open>testing.rs\<close>): the in-memory blob store, a second instance of both interfaces, and its checkpoints as a step relation.
  \<^item> \<open>Roundtrip\<close>: the snapshot of an uploaded tree is that tree.
  \<^item> \<open>Daemon_Client\<close> (\<^verbatim>\<open>rfs/src/daemon_client.rs\<close>): the client, whose calls may never be answered; the control server is an interface that the control service implements.
  \<^item> \<open>Cli\<close> (\<^verbatim>\<open>rfs/src/cli.rs\<close>, \<^verbatim>\<open>bootstrap_upload.rs\<close>, \<^verbatim>\<open>main.rs\<close>): the commands with their polling loops, outputs and exit code.

  \<^bold>\<open>How code becomes definitions.\<close> A struct is a record, an enum a datatype, a function one definition that returns its result and the new state;
  every early return and error is a branch. Unsigned integers are words of their width; signed ones are integers with the range
  written out. Error values keep their variants and context, messages are reduced to their fixed text. Panics are error values, and
  where the code argues that one cannot happen a lemma says so.

  \<^bold>\<open>Parameters.\<close> Code outside the repository is an argument of the definitions that use it, with what is relied on as a named predicate:
  SHA-256 gives 64 hexadecimal digits (\<open>sha256_hex_ok\<close>), a protobuf decoder fills typed fields (\<open>decode_typed\<close>), a stream writes only to its
  destination (\<open>stream_writes\<close>), a temporary file receives what is written (\<open>temp_write_ok\<close>), positioned reads are full up to the end (\<open>full_reads\<close>), SQLite and the file system may fail at any call
  (\<open>sql_fault\<close>, \<open>io_fault\<close>), the JSON text of the lock record and its parser are arbitrary (\<open>se_lock_json\<close>, \<open>se_lock_parse\<close>), remote calls answer anything, and for the timeouts of the command line program the clock runs (\<open>ticking\<close>).

  \<^bold>\<open>What is shown.\<close>
  \<^item> End to end: after an upload of a local tree and a mount of the digest it printed, reads, links and listings through the mount are those of the
    local tree (here). It rests on three parts: the mount serves the snapshot of its root digest under any interleaving and any answers of the remote store (here); the
    snapshot of an uploaded tree is that tree (\<open>Roundtrip\<close>); a successful upload is complete in the store (\<open>Upload\<close>).
  \<^item> The store: an invariant of every reachable store, materialisation refines the namespace, succeeds, is idempotent and atomic; closing.
  \<^item> The cache: only verified contents become visible, reads are slices, failed downloads are invisible, one download per digest at a time.
  \<^item> The session and the adapter: listings, lookups and reads agree with the remote directories; every inode handed out is well typed; nothing is ever written and no visible inode changes; paged listings end and are complete.
  \<^item> The daemon: its resources have one holder and are released exactly once in every interleaving, and a clean exit has unmounted, closed and removed the socket.
  \<^item> The home: at most one session at a time over any number of processes and crashes; a second one is refused, touches no file and is told the owner (\<open>Home\<close>).
  \<^item> The process: the exit code is 0 exactly after a clean release, and otherwise the stage that failed is on standard error with its causes (\<open>Daemon\<close>).
  \<^item> The in-memory store: it gives back what it was given and its checkpoints let through what was released (\<open>Memory_Store\<close>).
  \<^item> The CAS client: bounded retries, verified downloads, batches within budget that the service acknowledged, contiguous streams, unambiguous names.
  \<^item> The command line: mount and unmount report success only for what is served or closed, and return unless a request to the daemon is never
    answered or a killed child is never reaped; the client sees the served session.
  \<^item> Encodings: canonical directories round trip, are independent of insertion order, and are accepted exactly under the conditions of the decoder.

  \<^bold>\<open>Loops and fuel.\<close> Loops over data are structural recursion; the scan of a directory tree has a termination proof by size; retries are
  bounded by the configured attempts. Requests of the command line program to the daemon have no timeout and may hang: a result \<open>None\<close>. Its two polling loops are
  partial functions; that they end, unless such a call hangs, is proved from the clock. The kernel's loop over the pages of a listing takes a bound on the number of
  pages; one more than the number of entries is proved to be enough.

  \<^bold>\<open>Not modelled.\<close> Argument parsing (clap), JSON text (serde), the log events and the filter syntax of the tracing library, since they are
  library calls or terminal output; the generated protocol code; permission bits of the daemon's own files; the ten-second panics of the checkpoints, poisoned mutexes of the in-memory store, and \<^verbatim>\<open>init_test\<close>.
  The test modules of the sources are left out.
  No step of the model poisons a mutex: the branches for poisoned locks are there, and the theorems about them hold for any state, but
  the interleavings of \<open>cohort_step\<close> do not produce one. A process dies only between the steps of \<open>home_step\<close>.
  Editing is not implemented in the sources: the overlay is opened and read but never written, and the snapshot RPC answers that it is unimplemented; the model says the same.
\<close>

section \<open>The mounted snapshot\<close>

text \<open>The environment of a session whose blobs come from the connected CAS client, in one state of the remote world.\<close>

definition cas_session_env :: "session_env \<Rightarrow> 's world \<Rightarrow> 's cas_client \<Rightarrow> session_env" where
  "cas_session_env base world client = base\<lparr>se_stream := cas_stream (se_sha base) client world (se_fs base)\<rparr>"

definition cas_fuse_envs :: "session_env \<Rightarrow> 's cas_client \<Rightarrow> fuse_env set" where
  "cas_fuse_envs base client = {fe. \<exists>world. fe_session fe = cas_session_env base world client}"

lemma cas_session_env_ok:
  assumes "sha256_hex_ok (se_sha base)" "temp_write_ok (se_fs base)" "decode_typed (se_decode base)"
  shows "env_ok (cas_session_env base world client)"
  using assms cas_source.only_writes by (simp add: env_ok_def cas_session_env_def)

lemma cas_session_env_checks: "same_checks (cas_session_env base world client) (cas_session_env base world' client)"
  by (simp add: same_checks_def cas_session_env_def)

lemma mounted_at_path:
  assumes "sha256_hex_ok (se_sha base)" "temp_write_ok (se_fs base)" "decode_typed (se_decode base)" "full_reads (se_fs base)"
    and "construct_daemon (cas_session_env base world) su cli fs0 = (Ok (client, r, dm), fs')"
    and "\<forall>home. config_home (su_var su) = Ok home \<longrightarrow> cache_ok (se_sha base) (ly_cache (layout_new home)) fs0"
    and "rl_session env = cas_session_env base world client"
    and "control_run (cas_fuse_envs base client) env (serve_start r dm) c"
    and "\<forall>step \<in> set steps. fst step \<in> cas_fuse_envs base client" "fe \<in> cas_fuse_envs base client"
    and "walk steps 1 \<lparr>ad_session = dm_session (ct_daemon c), ad_ready = False\<rparr> = Some (w, a)"
    and "digest_from_str (dc_root_digest cli) = Ok root"
  shows "env_ok (fe_session fe)" "full_reads (se_fs (fe_session fe))" "faithful_session (fe_session fe) root (ad_session a)"
    "at_path (fe_session fe) root (map snd steps) w (ad_session a)" "se_sha (fe_session fe) = se_sha base" "se_decode (fe_session fe) = se_decode base"
proof -
  let ?env = "cas_session_env base world client"
  have ok: "env_ok (fe_session x) \<and> same_checks ?env (fe_session x)" if "x \<in> cas_fuse_envs base client" for x
    using that cas_session_env_ok [OF assms(1-3)] cas_session_env_checks by (auto simp: cas_fuse_envs_def)
  have sha: "se_sha ?env = se_sha base" by (simp add: cas_session_env_def)
  have "cache_ok (se_sha ?env) (ly_cache (layout_new home)) fs0" if "config_home (su_var su) = Ok home" for home
    unfolding sha using assms(6) that by blast
  from faithful_constructed [OF assms(5) cas_session_env_ok [OF assms(1-3)] this] have
    root: "faithful_session ?env root (dm_session dm)" using assms(12) by auto
  have run: "faithful_session ?env root (dm_session (ct_daemon c))"
    using faithful_run [OF assms(8)] root ok cas_session_env_ok [OF assms(1-3)] unfolding assms(7) by blast
  have steps: "\<forall>(x, name) \<in> set steps. env_ok (fe_session x) \<and> same_checks ?env (fe_session x)"
    using ok assms(9) by auto
  have "faithful_session ?env root (ad_session a) \<and> at_path ?env root ([] @ map snd steps) w (ad_session a)"
    by (rule walk_at_path [OF steps _ _ assms(11)]) (use run at_root [OF run] in simp_all)
  moreover show fe: "env_ok (fe_session fe)" using ok [OF assms(10)] by blast
  moreover have checks: "same_checks ?env (fe_session fe)" using ok [OF assms(10)] by blast
  ultimately show "faithful_session (fe_session fe) root (ad_session a)" "at_path (fe_session fe) root (map snd steps) w (ad_session a)"
    by (simp_all add: faithful_same_checks [OF checks] at_path_same_checks [OF checks])
  show "se_sha (fe_session fe) = se_sha base" "se_decode (fe_session fe) = se_decode base" "full_reads (se_fs (fe_session fe))"
    using assms(4,10) by (auto simp: cas_fuse_envs_def cas_session_env_def)
qed

text \<open>
  C1 Upload, mount, read: what comes out is what went in. Take a local tree that was uploaded with success, and a daemon that was
  constructed for the root digest which the upload printed, after any interleaving of requests, RPCs and signals and whatever
  the remote store answered in between. When the kernel resolves a path by lookups and a request then succeeds, a read returns
  the requested slice of what the upload read from the local file at that path, the target of a link is that of the local link there, and a
  listing shows the files, directories and links of the local directory there, in name order. This needs a hash
  without second preimages of the tree's contents and a decoder that reads the encoded directories back.
\<close>

theorem upload_mount_read:
  assumes "sha256_hex_ok (se_sha base)" "temp_write_ok (se_fs base)" "decode_typed (se_decode base)" "full_reads (se_fs base)"
    and "upload_local_directory (se_sha base) enc h completes order store src node opts s0 = (Ok summary, s1)"
    and "pred_option wf_host node" "upload_readable base enc h completes src node opts"
    and "dc_root_digest cli = digest_to_string (us_root_digest summary)"
    and "construct_daemon (cas_session_env base world) su cli fs0 = (Ok (client, r, dm), fs')"
    and "\<forall>home. config_home (su_var su) = Ok home \<longrightarrow> cache_ok (se_sha base) (ly_cache (layout_new home)) fs0"
    and "rl_session env = cas_session_env base world client"
    and "control_run (cas_fuse_envs base client) env (serve_start r dm) c"
    and "\<forall>step \<in> set steps. fst step \<in> cas_fuse_envs base client" "fe \<in> cas_fuse_envs base client"
    and "walk steps 1 \<lparr>ad_session = dm_session (ct_daemon c), ad_ready = False\<rparr> = Some (w, a)"
  shows "\<exists>local. node = Some local \<and>
    (\<forall>off sz bs a'. is_i64 off \<and> fuse_read fe w off sz a = (ReplyData bs, a') \<longrightarrow>
       (\<exists>md content. host_at local (map snd steps) = Some (HostFile md) \<and>
          read_content h (join_path src (map snd steps)) = Some content \<and>
          (length content < 2 ^ 64 \<longrightarrow> bs = take (unat sz) (drop (nat off) content)))) \<and>
    (\<forall>bs a'. fuse_readlink fe w a = (ReplyData bs, a') \<longrightarrow>
       (\<exists>md target. host_at local (map snd steps) = Some (HostSymlink md target) \<and> bs = as_bytes target)) \<and>
    (\<forall>es a'. fuse_readdir fe (\<lambda>_ _. True) w 0 a = (ReplyDirectory es, a') \<longrightarrow>
       (\<exists>md nodes. host_at local (map snd steps) = Some (HostDirectory md nodes) \<and>
          map (snd \<circ> snd) es = [(DirectoryType, ''.''), (DirectoryType, ''..'')] @ host_listing nodes))"
proof -
  let ?fe = "fe_session fe"
  have se: "se_sha ?fe = se_sha base" "se_decode ?fe = se_decode base"
    using assms(14) by (auto simp: cas_fuse_envs_def cas_session_env_def)
  have readable: "upload_readable ?fe enc h completes src node opts"
    using assms(7) unfolding upload_readable_def readable_directories_def se .
  have same: "bs = content" if "read_content h path = Some content" "for_bytes (se_sha base) bs = for_bytes (se_sha base) content" for path content bs
    using assms(7) that unfolding upload_readable_def by blast
  obtain local dirs where local: "node = Some local" and tree: "mirrored_tree ?fe h src dirs local"
    and root: "digest_from_str (dc_root_digest cli) = Ok (dirs [])"
    using upload_tree_mirrored [of ?fe enc h completes order store src node opts s0 summary s1] assms(1,5,6,8) readable digest_parse_print
    unfolding se by metis
  note at = mounted_at_path [OF assms(1-4,9-15) root]
  show ?thesis
  proof (intro exI [of _ local] conjI allI impI)
    fix off sz bs a' assume "is_i64 off \<and> fuse_read fe w off sz a = (ReplyData bs, a')"
    with read_at_path [OF at(1-4)] obtain n d content where n: "snapshot_entry ?fe (dirs []) (map snd steps) n" "nr_content n = RemoteFile d"
      "for_bytes (se_sha base) content = d" "length content < 2 ^ 64 \<longrightarrow> bs = take (unat sz) (drop (nat off) content)" unfolding se by blast
    with file_mirrored [OF tree n(1,2)] same show "\<exists>md content. host_at local (map snd steps) = Some (HostFile md) \<and>
        read_content h (join_path src (map snd steps)) = Some content \<and>
        (length content < 2 ^ 64 \<longrightarrow> bs = take (unat sz) (drop (nat off) content))" unfolding se by metis
  next
    fix bs a' assume "fuse_readlink fe w a = (ReplyData bs, a')"
    with readlink_at_path [OF at(1,3,4)] link_mirrored [OF tree]
    show "\<exists>md target. host_at local (map snd steps) = Some (HostSymlink md target) \<and> bs = as_bytes target" by blast
  next
    fix es a' assume "fuse_readdir fe (\<lambda>_ _. True) w 0 a = (ReplyDirectory es, a')"
    from readdir_at_path [OF at(1,3,4) this] obtain d cs where d: "snapshot_directory ?fe (dirs []) (map snd steps) d" "loaded_from ?fe d cs"
      and es: "map (snd \<circ> snd) es = [(DirectoryType, ''.''), (DirectoryType, ''..'')] @
        map (\<lambda>n. (file_type_of (remote_kind n), nr_name n)) (sort_key nr_name cs)" by blast
    from listing_mirrored [OF tree d]
    show "\<exists>md nodes. host_at local (map snd steps) = Some (HostDirectory md nodes) \<and>
        map (snd \<circ> snd) es = [(DirectoryType, ''.''), (DirectoryType, ''..'')] @ host_listing nodes" unfolding es by auto
  qed (fact local)
qed

text \<open>
  C2 The mount serves the snapshot that its root digest names. Take a daemon that was constructed over a
  verified cache, after any interleaving of requests, RPCs and signals, whatever the remote store answered
  in between, and let the kernel resolve a path by lookups, each under its own answers of the remote store.
  A read of the inode it reaches returns the requested slice of a content whose digest is the one of
  the file at that path in the snapshot of the mounted root digest; the target of a link is the target
  stored there; and a listing shows exactly the entries of the snapshot's directory at that path, in name
  order with their types. So a store that serves wrong data can make requests fail but never changes
  what the mount shows.
\<close>

theorem mounted_snapshot:
  assumes "sha256_hex_ok (se_sha base)" "temp_write_ok (se_fs base)" "decode_typed (se_decode base)" "full_reads (se_fs base)"
    and "construct_daemon (cas_session_env base world) su cli fs0 = (Ok (client, r, dm), fs')"
    and "\<forall>home. config_home (su_var su) = Ok home \<longrightarrow> cache_ok (se_sha base) (ly_cache (layout_new home)) fs0"
    and "rl_session env = cas_session_env base world client"
    and "control_run (cas_fuse_envs base client) env (serve_start r dm) c"
    and "\<forall>step \<in> set steps. fst step \<in> cas_fuse_envs base client" "fe \<in> cas_fuse_envs base client"
    and "walk steps 1 \<lparr>ad_session = dm_session (ct_daemon c), ad_ready = False\<rparr> = Some (w, a)"
  shows "\<exists>root. digest_from_str (dc_root_digest cli) = Ok root \<and>
    (\<forall>off sz bs a'. is_i64 off \<and> fuse_read fe w off sz a = (ReplyData bs, a') \<longrightarrow>
       (\<exists>n d content. snapshot_entry (fe_session fe) root (map snd steps) n \<and> nr_content n = RemoteFile d \<and>
          for_bytes (se_sha base) content = d \<and>
          (length content < 2 ^ 64 \<longrightarrow> bs = take (unat sz) (drop (nat off) content)))) \<and>
    (\<forall>bs a'. fuse_readlink fe w a = (ReplyData bs, a') \<longrightarrow>
       (\<exists>n target. snapshot_entry (fe_session fe) root (map snd steps) n \<and> nr_content n = RemoteSymlink target \<and>
          bs = as_bytes target)) \<and>
    (\<forall>es a'. fuse_readdir fe (\<lambda>_ _. True) w 0 a = (ReplyDirectory es, a') \<longrightarrow>
       (\<exists>d cs. snapshot_directory (fe_session fe) root (map snd steps) d \<and> loaded_from (fe_session fe) d cs \<and>
          map (snd \<circ> snd) es = [(DirectoryType, ''.''), (DirectoryType, ''..'')] @
            map (\<lambda>n. (file_type_of (remote_kind n), nr_name n)) (sort_key nr_name cs)))"
proof -
  obtain root where root: "digest_from_str (dc_root_digest cli) = Ok root"
    using construct_daemon_session [OF assms(5)] assms(6) by (auto simp: cas_session_env_def)
  note at = mounted_at_path [OF assms root]
  from read_at_path [OF at(1-4)] readlink_at_path [OF at(1,3,4)] readdir_at_path [OF at(1,3,4)] root show ?thesis unfolding at(5) by blast
qed

definition demo_cached_home :: local_fs where
  "demo_cached_home = \<lparr>fs_files = [cache_path ''/h/cache'' demo_digest \<mapsto> []], fs_dirs = {''/m'', ''/h''}\<rparr>"

definition demo_startup :: "unit cas_client startup" where
  "demo_startup = \<lparr>su_var = [''RFS_HOME'' \<mapsto> ''/h''], su_dial = (\<lambda>_. Ok demo_client), su_lock_held = False,
     su_session_id = ''id'', su_pid = 1, su_clock = Some 7, su_utf8 = True, su_subscriber = None, su_join_ok = True,
     su_spawn = Ok (), su_initialised = True\<rparr>"

definition demo_cli :: daemon_cli where
  "demo_cli = \<lparr>dc_root_digest = digest_to_string demo_digest, dc_mountpoint = ''/m'', dc_cas_url = Some ''grpc://cas'',
     dc_instance_name = Some ''main'', dc_log_level = LogInfo, dc_output_format = DaemonText\<rparr>"

definition demo_world :: "unit world" where
  "demo_world = \<lparr>w_remote = (), w_slept = []\<rparr>"

abbreviation demo_cas_env :: session_env where
  "demo_cas_env \<equiv> cas_session_env demo_session_env demo_world demo_client"

lemma demo_cas_env_eq:
  "demo_cas_env = demo_session_env\<lparr>se_stream := cas_stream demo_sha demo_client demo_world demo_fs_env\<rparr>"
  by (simp add: cas_session_env_def demo_session_env_def)

lemma demo_connects: "connect_cas (su_var demo_startup) (su_dial demo_startup) (Some ''grpc://cas'') (Some ''main'') = Ok demo_client"
  by (simp add: connect_cas_def or_else_def config_new_def validate_instance_name_def validate_instance_segment_def
      validate_retry_attempts_def demo_startup_def DEFAULT_ATTEMPTS_def MAX_RETRY_ATTEMPTS_def Let_def)

lemma demo_cached_paths:
  "''/m'' \<noteq> cache_path ''/h/cache'' demo_digest" "''/h'' \<noteq> cache_path ''/h/cache'' demo_digest"
  "''/h/session.lock'' \<noteq> cache_path ''/h/cache'' demo_digest" "''/h/session'' \<noteq> cache_path ''/h/cache'' demo_digest"
  "''/h/session/session.db'' \<noteq> cache_path ''/h/cache'' demo_digest" "''/h/cache'' \<noteq> cache_path ''/h/cache'' demo_digest"
  "''/h/session/overlay'' \<noteq> cache_path ''/h/cache'' demo_digest" "''/h/session/overlay/data'' \<noteq> cache_path ''/h/cache'' demo_digest"
  "''/h/session/overlay/tmp'' \<noteq> cache_path ''/h/cache'' demo_digest" "''/h/rfsd.log'' \<noteq> cache_path ''/h/cache'' demo_digest"
  "''/h/session/control.sock'' \<noteq> cache_path ''/h/cache'' demo_digest"
  unfolding cache_path_eq [OF demo_digest_valid] by (simp_all add: path_join_def demo_digest_def)

lemmas demo_paths = demo_cached_paths demo_cached_paths [symmetric]

lemma demo_constructed:
  "\<exists>r dm fs'. construct_daemon (cas_session_env demo_session_env demo_world) demo_startup demo_cli demo_cached_home =
      (Ok (demo_client, r, dm), fs') \<and>
    represents (connection (s_store (dm_session dm))) (materialize ROOT demo_nodes [root_inode demo_digest]) \<and>
    (\<forall>path. ensure_active demo_env path (connection (s_store (dm_session dm))) = Ok ()) \<and> \<not> poisoned (s_store (dm_session dm)) \<and>
    fs_files (cb_fs (s_cache (dm_session dm))) (cache_path (cb_root (s_cache (dm_session dm))) demo_digest) = Some [] \<and>
    s_poisoned_locks (dm_session dm) = {} \<and> \<not> s_lock_map_poisoned (dm_session dm)"
proof -
  let ?c = "cache_path ''/h/cache'' demo_digest"
  obtain s fs1 where s: "session_open demo_cas_env False ''id'' 1 (Some 7) ''/h'' demo_digest ''/m'' True demo_cached_home = (Ok s, fs1)"
    and st: "store_create demo_env (Some 7) ''/h/session/session.db'' ''id'' 1 demo_digest (Some ''/m'') None = Ok (s_store s)"
    and fs: "fs_files (cb_fs (s_cache s)) = [?c \<mapsto> [], ''/h/session.lock'' \<mapsto> demo_lock_text, ''/h/session/session.db'' \<mapsto> []]"
      "fs_dirs (cb_fs (s_cache s)) = {''/m'', ''/h'', ''/h/session'', ''/h/cache'', ''/h/session/overlay'', ''/h/session/overlay/data'',
      ''/h/session/overlay/tmp''}" "cb_root (s_cache s) = ''/h/cache''"
      "s_layout s = layout_new ''/h''" "s_poisoned_locks s = {}" "\<not> s_lock_map_poisoned s"
    using demo_opens [of "[?c \<mapsto> []]" "cas_stream demo_sha demo_client demo_world demo_fs_env"]
    unfolding demo_cas_env_eq demo_cached_home_def by (auto simp: demo_paths)
  let ?fs2 = "(session_fs s)\<lparr>fs_files := (fs_files (session_fs s))(''/h/rfsd.log'' \<mapsto> [])\<rparr>"
  let ?s2 = "with_session_fs ?fs2 s"
  have path: "path_join ''/h'' ''rfsd.log'' = ''/h/rfsd.log''" "path_parent ''/h/rfsd.log'' = ''/h''"
    "path_parent ''/h/session/control.sock'' = ''/h/session''" "ly_control_endpoint (layout_new ''/h'') = ''/h/session/control.sock''"
    by (simp_all add: path_join_def path_parent_def layout_new_def)
  obtain sub where log: "init_daemon demo_fs_env ''/h'' ''info'' LogText None (session_fs s) = (Ok (), sub, ?fs2)"
    using fs by (simp add: init_daemon_def daemon_log_paths_def install_file_subscriber_def set_global_default_def DAEMON_TRACE_LOG_def Let_def path demo_fs_env_def session_fs_def)
  have s2: "fs_files (cb_fs (s_cache ?s2)) (cache_path (cb_root (s_cache ?s2)) demo_digest) = Some []"
    "s_poisoned_locks ?s2 = {}" "\<not> s_lock_map_poisoned ?s2"
    using fs by (auto simp: with_session_fs_def session_fs_def demo_paths)
  have st2: "store_create demo_env (Some 7) ''/h/session/session.db'' ''id'' 1 demo_digest (Some ''/m'') None = Ok (s_store ?s2)"
    using st by simp
  obtain xs s3 where s3: "list_directory demo_cas_env ROOT ?s2 = (Ok xs, s3)"
    "represents (connection (s_store s3)) (materialize ROOT demo_nodes [root_inode demo_digest])"
    "\<forall>path. ensure_active demo_env path (connection (s_store s3)) = Ok ()" "\<not> poisoned (s_store s3)"
    "s_cache s3 = s_cache ?s2" "s_layout s3 = s_layout ?s2" "s_poisoned_locks s3 = {}" "\<not> s_lock_map_poisoned s3"
    using demo_loads [OF st2 s2] unfolding demo_cas_env_eq by blast
  have fs3: "fs_files (session_fs s3) ''/h/session/control.sock'' = None" "''/h/session'' \<in> fs_dirs (session_fs s3)"
    "''/h/session/control.sock'' \<notin> fs_dirs (session_fs s3)" "s_layout s3 = layout_new ''/h''"
    using fs s3(5,6) by (auto simp: session_fs_def with_session_fs_def demo_paths)
  let ?fs4 = "(session_fs s3)\<lparr>fs_files := (fs_files (session_fs s3))(''/h/session/control.sock'' \<mapsto> [])\<rparr>"
  have fse: "se_fs demo_cas_env = demo_fs_env" by (simp add: cas_session_env_def demo_session_env_def)
  have "filesystem_new demo_cas_env ?s2 = (Ok (), s3)"
    using s3(1) by (simp add: filesystem_new_def fs_readdir_def fs_result_def)
  moreover have "fuse_mount (Ok ()) True s3 = Ok \<lparr>ad_session = s3, ad_ready = False\<rparr>"
    by (simp add: fuse_mount_def)
  moreover have "bind_control_socket demo_fs_env ''/h/session/control.sock'' (session_fs s3) = (Ok (), ?fs4)"
    using fs3 by (simp add: bind_control_socket_def path path_exists_def demo_fs_env_def Let_def)
  moreover have "info_control_endpoint (session_get_info 1 s3) = ''/h/session/control.sock''"
    using fs3(4) path(4) by (simp add: session_get_info_def)
  ultimately have "mount_and_bind demo_cas_env demo_startup ?s2 =
      (Ok (\<lparr>dr_socket = ''/h/session/control.sock''\<rparr>, \<lparr>dm_session = with_session_fs ?fs4 s3, dm_mounted = True\<rparr>), ?fs4)"
    by (simp add: mount_and_bind_def demo_startup_def fse Let_def)
  moreover have "config_home (su_var demo_startup) = Ok ''/h''" by (simp add: config_home_def demo_startup_def)
  ultimately have "construct_daemon (cas_session_env demo_session_env demo_world) demo_startup demo_cli demo_cached_home =
      (Ok (demo_client, \<lparr>dr_socket = ''/h/session/control.sock''\<rparr>, \<lparr>dm_session = with_session_fs ?fs4 s3, dm_mounted = True\<rparr>), ?fs4)"
    using s log fse demo_connects digest_parse_print [OF demo_digest_valid]
    by (simp add: construct_daemon_def demo_cli_def Let_def) (simp add: demo_startup_def)
  moreover have "fs_files ?fs4 ?c = Some []" "cb_root (s_cache s3) = ''/h/cache''"
    using s3(5) fs by (auto simp: session_fs_def with_session_fs_def demo_paths)
  ultimately show ?thesis using s3 by (auto simp: with_session_fs_def)
qed

definition demo_cas_fuse :: fuse_env where
  "demo_cas_fuse = \<lparr>fe_session = demo_cas_env, fe_owner = (0, 0)\<rparr>"

lemma demo_walk_read:
  assumes rep: "represents (connection (s_store s)) (materialize ROOT demo_nodes [root_inode demo_digest])"
    and act: "\<forall>path. ensure_active demo_env path (connection (s_store s)) = Ok ()" "\<not> poisoned (s_store s)"
    and c: "fs_files (cb_fs (s_cache s)) (cache_path (cb_root (s_cache s)) demo_digest) = Some []"
    and lk: "s_poisoned_locks s = {}" "\<not> s_lock_map_poisoned s"
  shows "\<exists>a a'. walk [(demo_cas_fuse, ''b'')] 1 \<lparr>ad_session = s, ad_ready = False\<rparr> = Some (2, a) \<and>
    fuse_read demo_cas_fuse 2 0 5 a = (ReplyData [], a')"
proof -
  let ?ns = "materialize ROOT demo_nodes [root_inode demo_digest]"
  let ?q = "inode_of_remote (InodeId 2) (Some ROOT) (hd demo_nodes)"
  let ?s1 = "s\<lparr>s_inode_locks := insert ROOT (s_inode_locks s)\<rparr>" and ?s2 = "s\<lparr>s_inode_locks := insert (InodeId 2) (insert ROOT (s_inode_locks s))\<rparr>"
  have nf: "sql_fault demo_env op d = None" for op d using demo_env_no_faults by (simp add: no_faults_def)
  have get: "store_inode_get demo_env (s_store s) i = Ok (inode_by_id ?ns i)" for i
    using get_inode_by_id_eq [OF rep nf] act by (simp add: store_inode_get_def store_read_def)
  have ns: "inode_by_id ?ns ROOT = Some (mark_loaded ROOT (root_inode demo_digest))" "inode_by_id ?ns (InodeId 2) = Some ?q"
    "child_by_name ?ns ROOT ''b'' = Some ?q"
    by (simp_all add: inode_by_id_def child_by_name_def materialize_def mark_loaded_def root_inode_def inode_of_remote_def ROOT_def demo_nodes_def)
  have child: "store_child demo_env (s_store s) ROOT ''b'' = Ok (Some ?q)"
    using lookup_child_eq [OF rep nf] act ns(3) by (simp add: store_child_def store_read_def validate_inode_name_def contains_char_def)
  have se: "se_store demo_cas_env = demo_env" "se_fs demo_cas_env = demo_fs_env" "se_sha demo_cas_env = demo_sha"
    by (simp_all add: cas_session_env_def demo_session_env_def)
  have "get_visible_inode demo_cas_env ?s1 ROOT = Ok (mark_loaded ROOT (root_inode demo_digest))"
    using get ns(1) by (simp add: get_visible_inode_def se mark_loaded_def root_inode_def inode_of_remote_def)
  then have "ensure_directory_loaded demo_cas_env ROOT s = (Ok (), ?s1)"
    using lk by (simp add: ensure_directory_loaded_def inode_lock_def) (simp add: mark_loaded_def root_inode_def inode_of_remote_def)
  moreover have "wf_inode ?q" using wf_namespaceD(4) [OF represents_wf [OF rep]] ns(2) by (auto simp: inode_by_id_def dest: find_SomeD)
  ultimately have "lookup_child demo_cas_env ROOT ''b'' s = (Ok (visible ?q), ?s1)"
    using child project_inode_wf by (simp add: lookup_child_def se) (simp add: inode_of_remote_def)
  moreover have "inode_new 1 = Ok ROOT" "inode_new 2 = Ok (InodeId 2)" by (simp_all add: inode_new_def conv_simps ROOT_def)
  ultimately have walk: "walk [(demo_cas_fuse, ''b'')] 1 \<lparr>ad_session = s, ad_ready = False\<rparr> = Some (2, \<lparr>ad_session = ?s1, ad_ready = False\<rparr>)"
    by (simp add: fuse_lookup_def lookup_node_def lookup_dir_child_def demo_cas_fuse_def fs_result_def reply_with_def file_attr_of_def Let_def
        inode_of_remote_def inode_get_def)
  have "cache_read_range demo_fs_env demo_sha (se_stream demo_cas_env) demo_digest 0 5 (s_cache s) = (Ok ([], False), s_cache s)"
    using c by (simp add: cache_read_range_def ensure_cached_def cache_contains_def path_exists_def read_file_range_def demo_fs_env_def
        saturating_sub_u64_def Let_def)
  moreover have "get_visible_inode demo_cas_env ?s2 (InodeId 2) = Ok ?q"
    using get ns(2) by (simp add: get_visible_inode_def se inode_of_remote_def)
  ultimately have "\<exists>s3. session_read_range demo_cas_env (InodeId 2) 0 5 ?s1 = (Ok [], s3)"
    using lk by (simp add: session_read_range_def inode_lock_def se) (simp add: inode_of_remote_def demo_nodes_def se)
  with walk \<open>inode_new 2 = Ok (InodeId 2)\<close> show ?thesis
    by (auto simp: fuse_read_def read_bytes_def fs_read_def fs_result_def demo_cas_fuse_def conv_simps reply_with_def)
qed

text \<open>The example daemon, as far as both properties need it.\<close>

definition demo_release :: release_env where
  "demo_release = \<lparr>rl_session = demo_cas_env, rl_clock = Some 9, rl_join = (\<lambda>_. None)\<rparr>"

lemma demo_mount_ok:
  "sha256_hex_ok (se_sha demo_session_env)" "temp_write_ok (se_fs demo_session_env)" "decode_typed (se_decode demo_session_env)"
  "full_reads (se_fs demo_session_env)" "rl_session demo_release = demo_cas_env"
  "\<forall>step \<in> set [(demo_cas_fuse, ''b'')]. fst step \<in> cas_fuse_envs demo_session_env demo_client"
  "demo_cas_fuse \<in> cas_fuse_envs demo_session_env demo_client" "is_i64 0"
  "fe_session demo_cas_fuse = demo_cas_env" "se_sha demo_session_env = demo_sha" "dc_root_digest demo_cli = digest_to_string demo_digest"
  using demo_session_env_ok demo_env_ok(2)
  by (auto simp: env_ok_def cas_fuse_envs_def demo_cas_fuse_def demo_release_def demo_cli_def is_i64_def) (simp_all add: demo_session_env_def)

lemma demo_mount_cache:
  "\<forall>home. config_home (su_var demo_startup) = Ok home \<longrightarrow> cache_ok (se_sha demo_session_env) (ly_cache (layout_new home)) demo_cached_home"
  using cache_path_inj [OF _ demo_digest_valid] demo_digest_for_bytes
  by (auto simp: config_home_def demo_startup_def cache_ok_def demo_cached_home_def demo_session_env_def layout_new_def path_join_def
      split: if_splits)

lemma demo_mounted:
  "\<exists>r dm fs' a a'. construct_daemon (cas_session_env demo_session_env demo_world) demo_startup demo_cli demo_cached_home =
      (Ok (demo_client, r, dm), fs') \<and>
    walk [(demo_cas_fuse, ''b'')] 1 \<lparr>ad_session = dm_session (ct_daemon (serve_start r dm)), ad_ready = False\<rparr> = Some (2, a) \<and>
    fuse_read demo_cas_fuse 2 0 5 a = (ReplyData [], a')"
proof -
  obtain r dm fs' where c: "construct_daemon (cas_session_env demo_session_env demo_world) demo_startup demo_cli demo_cached_home =
      (Ok (demo_client, r, dm), fs')"
    and s: "represents (connection (s_store (dm_session dm))) (materialize ROOT demo_nodes [root_inode demo_digest])"
    "\<forall>path. ensure_active demo_env path (connection (s_store (dm_session dm))) = Ok ()" "\<not> poisoned (s_store (dm_session dm))"
    "fs_files (cb_fs (s_cache (dm_session dm))) (cache_path (cb_root (s_cache (dm_session dm))) demo_digest) = Some []"
    "s_poisoned_locks (dm_session dm) = {}" "\<not> s_lock_map_poisoned (dm_session dm)"
    using demo_constructed by blast
  with demo_walk_read [OF s] show ?thesis by (auto simp: serve_start_def)
qed

theorem upload_mount_read_witness:
  "\<exists>summary w' r dm fs' a a' content. upload_local_directory demo_sha demo_upload_enc demo_upload_host (\<lambda>_. True) (\<lambda>xs. xs)
       (cas_blob_store (recording demo_client)) ''/u'' (Some (HostDirectory demo_upload_md demo_upload_entries)) demo_upload_options
       \<lparr>w_remote = ((), []), w_slept = []\<rparr> = (Ok summary, w') \<and>
     dc_root_digest demo_cli = digest_to_string (us_root_digest summary) \<and>
     construct_daemon (cas_session_env demo_session_env demo_world) demo_startup demo_cli demo_cached_home = (Ok (demo_client, r, dm), fs') \<and>
     walk [(demo_cas_fuse, ''b'')] 1 \<lparr>ad_session = dm_session (ct_daemon (serve_start r dm)), ad_ready = False\<rparr> = Some (2, a) \<and>
     fuse_read demo_cas_fuse 2 0 5 a = (ReplyData (take 5 content), a') \<and> read_content demo_upload_host ''/u/b'' = Some content"
proof -
  let ?node = "Some (HostDirectory demo_upload_md demo_upload_entries)"
  obtain summary w' where up: "upload_local_directory demo_sha demo_upload_enc demo_upload_host (\<lambda>_. True) (\<lambda>xs. xs)
       (cas_blob_store (recording demo_client)) ''/u'' ?node demo_upload_options \<lparr>w_remote = ((), []), w_slept = []\<rparr> = (Ok summary, w')"
    and d: "us_root_digest summary = demo_digest"
    using demo_uploads demo_digest_for_bytes by auto
  have digest: "dc_root_digest demo_cli = digest_to_string (us_root_digest summary)" using d demo_mount_ok(11) by simp
  obtain r dm fs' a a' where c: "construct_daemon (cas_session_env demo_session_env demo_world) demo_startup demo_cli demo_cached_home =
      (Ok (demo_client, r, dm), fs')"
    and w: "walk [(demo_cas_fuse, ''b'')] 1 \<lparr>ad_session = dm_session (ct_daemon (serve_start r dm)), ad_ready = False\<rparr> = Some (2, a)"
    "fuse_read demo_cas_fuse 2 0 5 a = (ReplyData [], a')"
    using demo_mounted by blast
  obtain local where "\<forall>off sz bs a'. is_i64 off \<and> fuse_read demo_cas_fuse 2 off sz a = (ReplyData bs, a') \<longrightarrow>
       (\<exists>md content. host_at local (map snd [(demo_cas_fuse, ''b'')]) = Some (HostFile md) \<and>
          read_content demo_upload_host (join_path ''/u'' (map snd [(demo_cas_fuse, ''b'')])) = Some content \<and>
          (length content < 2 ^ 64 \<longrightarrow> bs = take (unat sz) (drop (nat off) content)))"
    using upload_mount_read [OF demo_mount_ok(1-4) up [folded demo_mount_ok(10)] demo_upload_wf demo_upload_readable(2) digest c demo_mount_cache
        demo_mount_ok(5) rtranclp.rtrancl_refl demo_mount_ok(6,7) w(1)] by blast
  with w(2) demo_mount_ok(8) obtain content where "read_content demo_upload_host (join_path ''/u'' [''b'']) = Some content" by fastforce
  moreover have "join_path ''/u'' [''b''] = ''/u/b''" by (simp add: path_join_def)
  moreover have "content = []" if "read_content demo_upload_host p = Some content" for p content
    using that by (simp add: read_content_def demo_upload_host_def)
  ultimately show ?thesis using up digest c w by fastforce
qed

theorem mounted_snapshot_witness:
  "\<exists>r dm fs' a a' n d content.
     construct_daemon (cas_session_env demo_session_env demo_world) demo_startup demo_cli demo_cached_home = (Ok (demo_client, r, dm), fs') \<and>
     walk [(demo_cas_fuse, ''b'')] 1 \<lparr>ad_session = dm_session dm, ad_ready = False\<rparr> = Some (2, a) \<and>
     fuse_read demo_cas_fuse 2 0 5 a = (ReplyData [], a') \<and>
     snapshot_entry demo_cas_env demo_digest [''b''] n \<and> nr_content n = RemoteFile d \<and> for_bytes demo_sha content = d"
proof -
  obtain r dm fs' a a' where c: "construct_daemon (cas_session_env demo_session_env demo_world) demo_startup demo_cli demo_cached_home =
      (Ok (demo_client, r, dm), fs')"
    and w: "walk [(demo_cas_fuse, ''b'')] 1 \<lparr>ad_session = dm_session (ct_daemon (serve_start r dm)), ad_ready = False\<rparr> = Some (2, a)"
    "fuse_read demo_cas_fuse 2 0 5 a = (ReplyData [], a')"
    using demo_mounted by blast
  obtain root where "digest_from_str (dc_root_digest demo_cli) = Ok root"
    and "\<forall>off sz bs a'. is_i64 off \<and> fuse_read demo_cas_fuse 2 off sz a = (ReplyData bs, a') \<longrightarrow>
       (\<exists>n d content. snapshot_entry (fe_session demo_cas_fuse) root (map snd [(demo_cas_fuse, ''b'')]) n \<and> nr_content n = RemoteFile d \<and>
          for_bytes (se_sha demo_session_env) content = d \<and>
          (length content < 2 ^ 64 \<longrightarrow> bs = take (unat sz) (drop (nat off) content)))"
    using mounted_snapshot [OF demo_mount_ok(1-4) c demo_mount_cache demo_mount_ok(5) rtranclp.rtrancl_refl demo_mount_ok(6,7) w(1)] by blast
  with w(2) demo_mount_ok(8-11) have "\<exists>n d content. snapshot_entry demo_cas_env root [''b''] n \<and> nr_content n = RemoteFile d \<and> for_bytes demo_sha content = d"
    and "root = demo_digest" using digest_parse_print [OF demo_digest_valid] by fastforce+
  then show ?thesis using c w by (auto simp: serve_start_def)
qed

end
